(* ===== verification/Prelude.thy ===== *)
theory Prelude imports Main "HOL-Library.List_Lexorder" "HOL-Library.Char_ord" "HOL-Library.Word" "HOL-Library.Code_Target_Nat" begin

text \<open>
  Shared vocabulary of the development: byte strings, the collections of
  rewrite rules the component proofs use, and the generic facts on lists,
  prefixes and key-ordered association lists.

  A Go \<open>string\<close> and a Go \<open>[]byte\<close> are both sequences of bytes; HOL's \<open>char\<close> is
  an eight-bit character, so both are \<open>char list\<close>.  Where the program
  distinguishes a \<open>nil\<close> slice from an empty one the model uses \<open>option\<close>.
  The order on byte strings is lexicographic by byte value, as
  \<open>bytes.Compare\<close> and the B+tree of the database have it.
\<close>

type_synonym bytes = string

named_theorems go_simps \<open>unfolding rules of the Go-level combinators\<close>
named_theorems db_simps \<open>how the flat view of the database changes under one operation\<close>

section \<open>Byte strings\<close>

definition byte :: "char \<Rightarrow> nat" where
  "byte c = of_char c"

lemma byte_bound [simp]: "byte c < 256"
  by (simp add: byte_def)

lemma byte_inj [simp]: "byte c = byte d \<longleftrightarrow> c = d"
  by (simp add: byte_def)

lemma less_char_iff_byte: "c < d \<longleftrightarrow> byte c < byte d"
  by (simp add: byte_def less_char_def)

definition has_prefix :: "bytes \<Rightarrow> bytes \<Rightarrow> bool" where
  "has_prefix s p \<longleftrightarrow> take (length p) s = p"

lemma has_prefix_append [simp]: "has_prefix (p @ s) p"
  by (simp add: has_prefix_def)

lemma has_prefix_iff: "has_prefix s p \<longleftrightarrow> (\<exists>r. s = p @ r)"
  by (metis append_take_drop_id has_prefix_append has_prefix_def)

section \<open>Lists in lexicographic order\<close>

lemma list_less_append_same [simp]:
  fixes xs :: "'a::linorder list"
  shows "xs @ ys < xs @ zs \<longleftrightarrow> ys < zs"
  by (induction xs) auto

lemma list_less_same_length_append:
  fixes xs :: "'a::linorder list"
  assumes "length xs = length ys" and "xs < ys"
  shows "xs @ us < ys @ vs"
  using assms by (induction xs ys rule: list_induct2) auto

section \<open>Association lists ordered by key\<close>

fun al_put :: "'k::linorder \<Rightarrow> 'v \<Rightarrow> ('k \<times> 'v) list \<Rightarrow> ('k \<times> 'v) list" where
  "al_put k v [] = [(k, v)]"
| "al_put k v ((a, b) # xs) =
     (if k < a then (k, v) # (a, b) # xs
      else if k = a then (k, v) # xs
      else (a, b) # al_put k v xs)"

definition al_del :: "'k \<Rightarrow> ('k \<times> 'v) list \<Rightarrow> ('k \<times> 'v) list" where
  "al_del k xs = filter (\<lambda>x. fst x \<noteq> k) xs"

definition al_ordered :: "('k::linorder \<times> 'v) list \<Rightarrow> bool" where
  "al_ordered xs \<longleftrightarrow> sorted_wrt (<) (map fst xs)"

lemma al_ordered_Nil [simp]: "al_ordered []"
  by (simp add: al_ordered_def)

lemma map_of_al_put [simp]: "map_of (al_put k v xs) = (map_of xs)(k \<mapsto> v)"
  by (induction k v xs rule: al_put.induct) (auto simp: fun_eq_iff)

lemma map_of_al_del [simp]: "map_of (al_del k xs) = (map_of xs)(k := None)"
  by (induction xs) (auto simp: al_del_def fun_eq_iff)

lemma fst_set_al_put [simp]: "fst ` set (al_put k v xs) = insert k (fst ` set xs)"
  by (induction k v xs rule: al_put.induct) auto

lemma al_ordered_put:
  assumes "al_ordered xs"
  shows "al_ordered (al_put k v xs)"
  using assms
proof (induction k v xs rule: al_put.induct)
  case (1 k v)
  then show ?case by (simp add: al_ordered_def)
next
  case (2 k v a b xs)
  have IH: "al_ordered (al_put k v xs)" if "\<not> k < a" "k \<noteq> a"
    using 2 that by (simp add: al_ordered_def)
  have "\<forall>y \<in> fst ` set (al_put k v xs). a < y" if "\<not> k < a" "k \<noteq> a"
    using 2(2) that by (auto simp: al_ordered_def)
  with IH 2(2) show ?case
    by (fastforce simp: al_ordered_def)
qed

lemma al_ordered_del: "al_ordered xs \<Longrightarrow> al_ordered (al_del k xs)"
  unfolding al_ordered_def al_del_def by (induction xs) auto

lemma al_ordered_distinct: "al_ordered xs \<Longrightarrow> distinct (map fst xs)"
  unfolding al_ordered_def using strict_sorted_iff by blast

lemma al_put_above:
  assumes "\<And>a. a \<in> fst ` set xs \<Longrightarrow> a < k"
  shows "al_put k v xs = xs @ [(k, v)]"
  using assms
proof (induction xs)
  case (Cons x xs)
  obtain a b where x: "x = (a, b)" by (cases x)
  have "a < k" using Cons.prems[of a] x by simp
  moreover have "al_put k v xs = xs @ [(k, v)]" using Cons by simp
  ultimately show ?case using x by auto
qed simp

lemma map_of_set_iff:
  assumes "al_ordered xs"
  shows "map_of xs k = Some v \<longleftrightarrow> (k, v) \<in> set xs"
  using map_of_eq_Some_iff[OF al_ordered_distinct[OF assms]] .

lemma al_put_get_id:
  assumes "al_ordered xs" "map_of xs k = Some v"
  shows "al_put k v xs = xs"
  using assms
proof (induction xs)
  case (Cons x xs)
  obtain a b where x: "x = (a, b)" by (cases x)
  have "a < k" if "a \<noteq> k"
    using Cons.prems that x by (force simp: al_ordered_def dest: map_of_SomeD)
  then show ?case using Cons x by (auto simp: al_ordered_def split: if_splits)
qed simp

section \<open>Options and results\<close>

lemma case_option_if: "(case x of None \<Rightarrow> a | Some y \<Rightarrow> f y) = (if x = None then a else f (the x))"
  by (cases x) auto

end
