(* ===== verification/GoNum.thy ===== *)
theory GoNum imports Prelude begin

text \<open>
  Number formatting and parsing as the program's \<open>fmt\<close> and \<open>strconv\<close> calls use
  them: minimal digits in base 10 or 16, zero padding to a width
  (\<open>%016x\<close>), \<open>strconv.ParseUint(s, 10, 8)\<close> and \<open>strconv.Atoi\<close> on 64-bit
  \<open>int\<close>.  The lemmas give round trips, and that equally long numerals are
  ordered as their values are.
\<close>

definition digit_char :: "nat \<Rightarrow> char" where
  "digit_char d = ''0123456789abcdef'' ! d"

fun fmt_base :: "nat \<Rightarrow> nat \<Rightarrow> bytes" where
  "fmt_base b n =
     (if b < 2 \<or> n < b then [digit_char n]
      else fmt_base b (n div b) @ [digit_char (n mod b)])"

declare fmt_base.simps [simp del]

definition fmt_d :: "nat \<Rightarrow> bytes" where
  "fmt_d n = fmt_base 10 n"

definition fmt_int :: "int \<Rightarrow> bytes" where
  "fmt_int i = (if i < 0 then CHR ''-'' # fmt_d (nat (- i)) else fmt_d (nat i))"

definition pad_zero :: "nat \<Rightarrow> bytes \<Rightarrow> bytes" where
  "pad_zero w s = replicate (w - length s) CHR ''0'' @ s"

text \<open>\<open>%016x\<close>: lower-case hexadecimal digits, padded with zeros to the width.\<close>

definition fmt_hex_pad :: "nat \<Rightarrow> nat \<Rightarrow> bytes" where
  "fmt_hex_pad w n = pad_zero w (fmt_base 16 n)"

definition digit_val :: "char \<Rightarrow> nat option" where
  "digit_val c = (if 48 \<le> byte c \<and> byte c \<le> 57 then Some (byte c - 48) else None)"

definition is_digit :: "char \<Rightarrow> bool" where
  "is_digit c \<longleftrightarrow> 48 \<le> byte c \<and> byte c \<le> 57"

fun parse_digits :: "nat \<Rightarrow> bytes \<Rightarrow> nat option" where
  "parse_digits acc [] = Some acc"
| "parse_digits acc (c # cs) =
     (case digit_val c of None \<Rightarrow> None | Some d \<Rightarrow> parse_digits (10 * acc + d) cs)"

definition parse_uint :: "nat \<Rightarrow> bytes \<Rightarrow> nat option" where
  "parse_uint bits s =
     (if s = [] then None
      else case parse_digits 0 s of
        None \<Rightarrow> None
      | Some n \<Rightarrow> if n < 2 ^ bits then Some n else None)"

definition atoi :: "bytes \<Rightarrow> int option" where
  "atoi s =
     (let neg = (s \<noteq> [] \<and> hd s = CHR ''-'');
          rest = (if s \<noteq> [] \<and> (hd s = CHR ''-'' \<or> hd s = CHR ''+'') then tl s else s)
      in if rest = [] then None
         else case parse_digits 0 rest of
           None \<Rightarrow> None
         | Some n \<Rightarrow>
             if neg then (if n \<le> 2 ^ 63 then Some (- int n) else None)
             else (if n < 2 ^ 63 then Some (int n) else None))"

section \<open>Fixed-width numerals\<close>

fun fixed_width :: "nat \<Rightarrow> nat \<Rightarrow> nat \<Rightarrow> bytes" where
  "fixed_width b 0 n = []"
| "fixed_width b (Suc k) n = fixed_width b k (n div b) @ [digit_char (n mod b)]"

lemma length_fixed_width [simp]: "length (fixed_width b k n) = k"
  by (induction k arbitrary: n) auto

lemma digit_char_less_aux:
  "\<forall>d \<in> set [0..<16]. \<forall>e \<in> set [0..<16]. (digit_char d < digit_char e) = (d < e)"
  by code_simp

lemma digit_char_less: "d < 16 \<Longrightarrow> e < 16 \<Longrightarrow> digit_char d < digit_char e \<longleftrightarrow> d < e"
  using digit_char_less_aux by simp

lemma digit_char_inj: "d < 16 \<Longrightarrow> e < 16 \<Longrightarrow> digit_char d = digit_char e \<longleftrightarrow> d = e"
  by (metis digit_char_less less_irrefl nat_neq_iff)

lemma digit_char_0 [simp]: "digit_char 0 = CHR ''0''"
  by (simp add: digit_char_def)

lemma fixed_width_zero: "fixed_width b k 0 = replicate k CHR ''0''"
  by (induction k) (auto simp: replicate_append_same)

lemma pad_fixed_width:
  assumes "2 \<le> b" "n < b ^ k" "0 < k"
  shows "pad_zero k (fmt_base b n) = fixed_width b k n \<and> length (fmt_base b n) \<le> k"
  using assms
proof (induction b n arbitrary: k rule: fmt_base.induct)
  case (1 b n)
  obtain j where k: "k = Suc j" using 1(4) by (cases k) auto
  show ?case
  proof (cases "n < b")
    case True
    then show ?thesis
      using 1(2) k by (simp add: fmt_base.simps[of b n] pad_zero_def fixed_width_zero)
  next
    case False
    have lt: "n div b < b ^ j"
      using 1(2,3) k by (simp add: less_mult_imp_div_less mult.commute)
    have j: "0 < j" using lt False 1(2) by (cases j) (auto simp: div_eq_0_iff)
    have IH: "pad_zero j (fmt_base b (n div b)) = fixed_width b j (n div b)"
             "length (fmt_base b (n div b)) \<le> j"
      using 1(1)[OF _ 1(2) lt j] False 1(2) by auto
    have eq: "fmt_base b n = fmt_base b (n div b) @ [digit_char (n mod b)]"
      using False 1(2) by (simp add: fmt_base.simps[of b n])
    show ?thesis using IH eq k by (simp add: pad_zero_def)
  qed
qed

lemma fixed_width_less:
  assumes "2 \<le> b" "b \<le> 16" "m < b ^ k" "n < b ^ k"
  shows "fixed_width b k m < fixed_width b k n \<longleftrightarrow> m < n"
  using assms(3,4)
proof (induction k arbitrary: m n)
  case 0
  then show ?case by simp
next
  case (Suc k)
  have d: "m div b < b ^ k" "n div b < b ^ k"
    using Suc.prems assms(1) by (simp_all add: less_mult_imp_div_less mult.commute)
  have r: "m mod b < 16" "n mod b < 16"
    using assms(1,2) mod_less_divisor[of b m] mod_less_divisor[of b n] by linarith+
  have less: "fixed_width b (Suc k) x < fixed_width b (Suc k) y"
    if "x div b < y div b" "x div b < b ^ k" "y div b < b ^ k" for x y
    using Suc.IH[OF that(2,3)] that(1) by (auto intro: list_less_same_length_append)
  consider "m div b < n div b" | "m div b = n div b" | "n div b < m div b" by linarith
  then show ?case
  proof cases
    case 1
    then have "m < n" by (meson div_le_mono leD leI)
    then show ?thesis using less[OF 1 d] by simp
  next
    case 2
    then have "m < n \<longleftrightarrow> m mod b < n mod b"
      by (metis add_less_cancel_left div_mult_mod_eq)
    then show ?thesis using 2 r by (simp add: digit_char_less)
  next
    case 3
    then have "n < m" by (meson div_le_mono leD leI)
    then show ?thesis using less[OF 3 d(2,1)] by (auto dest: less_asym)
  qed
qed

lemma fixed_width_inj:
  assumes "2 \<le> b" "b \<le> 16" "m < b ^ k" "n < b ^ k"
  shows "fixed_width b k m = fixed_width b k n \<longleftrightarrow> m = n"
  by (metis assms fixed_width_less less_irrefl nat_neq_iff)

section \<open>Decimal round trip\<close>

lemma digit_val_char: "d < 10 \<Longrightarrow> digit_val (digit_char d) = Some d"
proof -
  have "\<forall>d \<in> set [0..<10]. digit_val (digit_char d) = Some d"
    by code_simp
  then show "d < 10 \<Longrightarrow> digit_val (digit_char d) = Some d" by simp
qed

lemma parse_digits_append:
  "parse_digits a (xs @ ys) =
     (case parse_digits a xs of None \<Rightarrow> None | Some a' \<Rightarrow> parse_digits a' ys)"
  by (induction a xs rule: parse_digits.induct) (auto split: option.splits)

lemma fmt_d_nonempty [simp]: "fmt_d n \<noteq> []"
  by (subst fmt_d_def, subst fmt_base.simps) simp

lemma parse_digits_fmt_d [simp]: "parse_digits 0 (fmt_d n) = Some n"
  unfolding fmt_d_def
proof (induction "10 :: nat" n rule: fmt_base.induct)
  case (1 n)
  show ?case
  proof (cases "n < 10")
    case True
    then show ?thesis by (simp add: fmt_base.simps[of 10 n] digit_val_char)
  next
    case False
    then have "parse_digits 0 (fmt_base 10 (n div 10)) = Some (n div 10)" using 1 by simp
    with False show ?thesis
      by (simp add: fmt_base.simps[of 10 n] parse_digits_append digit_val_char)
  qed
qed

lemma parse_uint_fmt_d: "n < 2 ^ bits \<Longrightarrow> parse_uint bits (fmt_d n) = Some n"
  by (simp add: parse_uint_def)

lemma parse_uint_bound: "parse_uint bits s = Some n \<Longrightarrow> n < 2 ^ bits"
  by (auto simp: parse_uint_def split: if_splits option.splits)

lemma hd_fmt_base_digit: "\<exists>d < b. hd (fmt_base b n) = digit_char d" if "2 \<le> b"
  using that
proof (induction b n rule: fmt_base.induct)
  case (1 b n)
  then show ?case
    by (cases "n < b") (auto simp: fmt_base.simps[of b n] hd_append fmt_base.simps[of b "n div b"])
qed

lemma atoi_fmt_d:
  assumes "n < 2 ^ 63"
  shows "atoi (fmt_d n) = Some (int n)"
proof -
  obtain d where d: "d < 10" "hd (fmt_d n) = digit_char d"
    using hd_fmt_base_digit[of 10 n] by (auto simp: fmt_d_def)
  have "\<forall>d \<in> set [0..<10]. digit_char d \<noteq> CHR ''-'' \<and> digit_char d \<noteq> CHR ''+''"
    by code_simp
  then have "hd (fmt_d n) \<noteq> CHR ''-''" "hd (fmt_d n) \<noteq> CHR ''+''" using d by auto
  then show ?thesis using assms by (simp add: atoi_def)
qed

lemma atoi_bounds:
  assumes "atoi s = Some i"
  shows "- (2 ^ 63) \<le> i \<and> i < 2 ^ 63"
  using assms by (auto simp: atoi_def Let_def split: if_splits option.splits)

lemma length_fmt_d: "n < 10 ^ k \<Longrightarrow> 0 < k \<Longrightarrow> length (fmt_d n) \<le> k"
  using pad_fixed_width[of 10 n k] by (simp add: fmt_d_def)

end
