(* ===== verification/GoErr.thy ===== *)
theory GoErr imports GoNum begin

text \<open>
  The error values of the program, one constructor per package-level
  \<open>errors.New\<close> variable the handlers compare with \<open>errors.Is\<close>, and the texts
  \<open>Error()\<close> returns.  \<open>ErrNew\<close> is an anonymous \<open>errors.New(...)\<close>,
  \<open>EscapeError\<close> the error of \<open>net/url\<close>, \<open>ErrExternal\<close> an error coming back
  from a package the program only calls.
\<close>

datatype err =
    ErrNew bytes
  | EscapeError bytes
  | ErrExternal bytes
  \<comment> \<open>bbolt\<close>
  | ErrBucketNameRequired | ErrBucketExists | ErrIncompatibleValue
  | ErrKeyRequired | ErrKeyTooLarge | ErrValueTooLarge
  \<comment> \<open>forums.go, threads.go, subforumIndex.go, viewthread.go\<close>
  | ErrDuplicateForumName | ErrDuplicateSubforumName
  | ErrThreadIsLocked | TitleTooLong | TitleEmptyNotAllowed | TitleIllegalCharacter
  | SubforumNotFound | ErrNotFound | ThreadNotFound
  \<comment> \<open>users.go, nudge.go\<close>
  | UserNotFound | ErrUserAlreadyExists | ErrPasswordTooShort
  | ErrUsernameTooLong | ErrUsernameTooShort | ErrUnallowedChar | ShouldPostNudge
  \<comment> \<open>report.go, email.go, search.go, console.go\<close>
  | AlreadyReported | ReportRateLimited | SearchUsernameNotFound | ErrUserNotFound

text \<open>
  \<open>strconv.Quote\<close> as \<open>EscapeError.Error()\<close> applies it to at most three bytes
  of a query: printable ASCII is kept, \<open>"\<close> and the backslash are escaped, and any other
  byte is written in the \<open>\x..\<close> form.
\<close>

definition quote_byte :: "char \<Rightarrow> bytes" where
  "quote_byte c =
     (if c = CHR 0x22 then [CHR 0x5C, CHR 0x22]
      else if c = CHR 0x5C then [CHR 0x5C, CHR 0x5C]
      else if 32 \<le> byte c \<and> byte c < 127 then [c]
      else [CHR 0x5C, CHR ''x''] @ fmt_hex_pad 2 (byte c))"

definition quote :: "bytes \<Rightarrow> bytes" where
  "quote s = [CHR 0x22] @ concat (map quote_byte s) @ [CHR 0x22]"

fun err_msg :: "err \<Rightarrow> bytes" where
  "err_msg (ErrNew s) = s"
| "err_msg (EscapeError s) = ''invalid URL escape '' @ quote s"
| "err_msg (ErrExternal s) = s"
| "err_msg ErrBucketNameRequired = ''bucket name required''"
| "err_msg ErrBucketExists = ''bucket already exists''"
| "err_msg ErrIncompatibleValue = ''incompatible value''"
| "err_msg ErrKeyRequired = ''key required''"
| "err_msg ErrKeyTooLarge = ''key too large''"
| "err_msg ErrValueTooLarge = ''value too large''"
| "err_msg ErrDuplicateForumName = ''Duplicate forum name''"
| "err_msg ErrDuplicateSubforumName = ''Duplicate subforum name''"
| "err_msg ErrThreadIsLocked = ''Thread is locked''"
| "err_msg TitleTooLong = ''Thread title is too long.''"
| "err_msg TitleEmptyNotAllowed = ''Empty thread title is not allowed.''"
| "err_msg TitleIllegalCharacter = ''Ascii characters are allowed only.''"
| "err_msg SubforumNotFound = ''Subforum not found''"
| "err_msg ErrNotFound = ''Subforum not found in database''"
| "err_msg ThreadNotFound = ''thread not found''"
| "err_msg UserNotFound = ''User does not exist.''"
| "err_msg ErrUserAlreadyExists = ''User with this name already exists''"
| "err_msg ErrPasswordTooShort = ''Password too short. Minimum length '' @ fmt_d 8 @ '' characters''"
| "err_msg ErrUsernameTooLong = ''Username is too long. Maximum length '' @ fmt_d 24 @ '' characters.''"
| "err_msg ErrUsernameTooShort = ''Empty username is not allowed.''"
| "err_msg ErrUnallowedChar = ''Unallowed character in username''"
| "err_msg ShouldPostNudge = ''Should show post nudge''"
| "err_msg AlreadyReported = ''Already reported this post''"
| "err_msg ReportRateLimited = ''Rate limited''"
| "err_msg SearchUsernameNotFound = ''User by that name not found''"
| "err_msg ErrUserNotFound = ''User not found''"

end
