(* ===== verification/Bolt.thy ===== *)
theory Bolt imports GoErr begin

text \<open>
  The database as the program sees it through bbolt
  (\<open>vendor/go.etcd.io/bbolt/bucket.go\<close>): a bucket is a counter and a list of
  entries in key order, an entry is a value or a nested bucket.  Operations
  are the bucket methods with their error returns; the B+tree pages, the
  freelist and the file behind them are not modelled.

  A bucket handle of the program is the path of keys leading to it.  The
  lemmas view a database through three functions of a path, \<open>dbval\<close> (the value
  of a key), \<open>dbis\<close> (is there a bucket) and \<open>dbseq\<close> (its counter), and show
  that every operation changes exactly one of them at exactly one place.
\<close>

datatype bucket = Bucket (bseq: "64 word") (bitems: "(bytes \<times> bnode) list")
  and bnode = Leaf bytes | Sub bucket

definition MaxKeySize :: nat where "MaxKeySize = 32768"
definition MaxValueSize :: nat where "MaxValueSize = 2 ^ 31 - 2"

definition empty_bucket :: bucket where
  "empty_bucket = Bucket 0 []"

section \<open>Bucket methods\<close>

definition b_get :: "bucket \<Rightarrow> bytes \<Rightarrow> bytes option" where
  "b_get b k = (case map_of (bitems b) k of Some (Leaf v) \<Rightarrow> Some v | _ \<Rightarrow> None)"

definition b_bucket :: "bucket \<Rightarrow> bytes \<Rightarrow> bucket option" where
  "b_bucket b k = (case map_of (bitems b) k of Some (Sub c) \<Rightarrow> Some c | _ \<Rightarrow> None)"

definition b_insert :: "bytes \<Rightarrow> bnode \<Rightarrow> bucket \<Rightarrow> bucket" where
  "b_insert k n b = Bucket (bseq b) (al_put k n (bitems b))"

definition b_create_bucket :: "bytes \<Rightarrow> bucket \<Rightarrow> err + bucket" where
  "b_create_bucket k b =
     (if k = [] then Inl ErrBucketNameRequired
      else case map_of (bitems b) k of
        Some (Sub c) \<Rightarrow> Inl ErrBucketExists
      | Some (Leaf v) \<Rightarrow> Inl ErrIncompatibleValue
      | None \<Rightarrow> Inr (b_insert k (Sub empty_bucket) b))"

definition b_put :: "bytes \<Rightarrow> bytes \<Rightarrow> bucket \<Rightarrow> err + bucket" where
  "b_put k v b =
     (if k = [] then Inl ErrKeyRequired
      else if MaxKeySize < length k then Inl ErrKeyTooLarge
      else if MaxValueSize < length v then Inl ErrValueTooLarge
      else if b_bucket b k \<noteq> None then Inl ErrIncompatibleValue
      else Inr (b_insert k (Leaf v) b))"

definition b_delete :: "bytes \<Rightarrow> bucket \<Rightarrow> err + bucket" where
  "b_delete k b =
     (case map_of (bitems b) k of
        None \<Rightarrow> Inr b
      | Some (Sub c) \<Rightarrow> Inl ErrIncompatibleValue
      | Some (Leaf v) \<Rightarrow> Inr (Bucket (bseq b) (al_del k (bitems b))))"

definition b_next_sequence :: "bucket \<Rightarrow> 64 word \<times> bucket" where
  "b_next_sequence b = (bseq b + 1, Bucket (bseq b + 1) (bitems b))"

text \<open>
  The pairs a cursor visits from \<open>First()\<close> to the end; a nested bucket is
  returned with a \<open>nil\<close> value.
\<close>

definition b_cursor :: "bucket \<Rightarrow> (bytes \<times> bytes option) list" where
  "b_cursor b = map (\<lambda>(k, n). (k, case n of Leaf v \<Rightarrow> Some v | Sub c \<Rightarrow> None)) (bitems b)"

section \<open>Paths\<close>

fun b_at :: "bucket \<Rightarrow> bytes list \<Rightarrow> bucket option" where
  "b_at b [] = Some b"
| "b_at b (k # ks) = (case b_bucket b k of None \<Rightarrow> None | Some c \<Rightarrow> b_at c ks)"

fun b_upd :: "bytes list \<Rightarrow> (bucket \<Rightarrow> bucket) \<Rightarrow> bucket \<Rightarrow> bucket" where
  "b_upd [] f b = f b"
| "b_upd (k # ks) f b =
     (case b_bucket b k of None \<Rightarrow> b | Some c \<Rightarrow> b_insert k (Sub (b_upd ks f c)) b)"

definition dbval :: "bucket \<Rightarrow> bytes list \<Rightarrow> bytes \<Rightarrow> bytes option" where
  "dbval b p k = (case b_at b p of None \<Rightarrow> None | Some c \<Rightarrow> b_get c k)"

definition dbis :: "bucket \<Rightarrow> bytes list \<Rightarrow> bool" where
  "dbis b p \<longleftrightarrow> b_at b p \<noteq> None"

definition dbseq :: "bucket \<Rightarrow> bytes list \<Rightarrow> 64 word" where
  "dbseq b p = (case b_at b p of None \<Rightarrow> 0 | Some c \<Rightarrow> bseq c)"

definition dbcur :: "bucket \<Rightarrow> bytes list \<Rightarrow> (bytes \<times> bytes option) list" where
  "dbcur b p = (case b_at b p of None \<Rightarrow> [] | Some c \<Rightarrow> b_cursor c)"

definition b_wf :: "bucket \<Rightarrow> bool" where
  "b_wf b \<longleftrightarrow> (\<forall>p c. b_at b p = Some c \<longrightarrow> al_ordered (bitems c))"

text \<open>The successful effect of each writing method on the whole tree.\<close>

definition bput :: "bytes list \<Rightarrow> bytes \<Rightarrow> bytes \<Rightarrow> bucket \<Rightarrow> bucket" where
  "bput h k v = b_upd h (b_insert k (Leaf v))"

definition bcreate :: "bytes list \<Rightarrow> bytes \<Rightarrow> bucket \<Rightarrow> bucket" where
  "bcreate h k = b_upd h (b_insert k (Sub empty_bucket))"

definition bdel :: "bytes list \<Rightarrow> bytes \<Rightarrow> bucket \<Rightarrow> bucket" where
  "bdel h k = b_upd h (\<lambda>b. Bucket (bseq b) (al_del k (bitems b)))"

definition bnext :: "bytes list \<Rightarrow> bucket \<Rightarrow> bucket" where
  "bnext h = b_upd h (\<lambda>b. Bucket (bseq b + 1) (bitems b))"

section \<open>One operation changes one place\<close>

lemma b_get_insert [simp]:
  "b_get (b_insert k n b) k' =
     (if k' = k then (case n of Leaf v \<Rightarrow> Some v | Sub c \<Rightarrow> None) else b_get b k')"
  by (simp add: b_get_def b_insert_def)

lemma b_bucket_insert [simp]:
  "b_bucket (b_insert k n b) k' =
     (if k' = k then (case n of Leaf v \<Rightarrow> None | Sub c \<Rightarrow> Some c) else b_bucket b k')"
  by (simp add: b_bucket_def b_insert_def)

lemma bseq_insert [simp]: "bseq (b_insert k n b) = bseq b"
  by (simp add: b_insert_def)

lemma b_get_bucket: "b_bucket b k = Some c \<Longrightarrow> b_get b k = None"
  by (auto simp: b_get_def b_bucket_def split: option.splits bnode.splits)

lemma b_at_append: "b_at b (p @ q) = (case b_at b p of None \<Rightarrow> None | Some c \<Rightarrow> b_at c q)"
  by (induction p arbitrary: b) (auto split: option.splits)

lemma dbis_Nil [simp]: "dbis b []"
  by (simp add: dbis_def)

lemma dbis_snoc: "dbis b (p @ [k]) \<Longrightarrow> dbis b p"
  by (auto simp: dbis_def b_at_append split: option.splits)

lemma not_dbis_val: "\<not> dbis b p \<Longrightarrow> dbval b p k = None"
  by (simp add: dbis_def dbval_def)

lemma dbseq_no: "\<not> dbis b p \<Longrightarrow> dbseq b p = 0"
  by (simp add: dbis_def dbseq_def)

lemma dbval_not_sub: "dbval b p k = Some v \<Longrightarrow> \<not> dbis b (p @ [k])"
  by (auto simp: dbval_def dbis_def b_at_append dest: b_get_bucket split: option.splits)

text \<open>
  \<open>keeps_subs f\<close>: the change \<open>f\<close> of one bucket leaves its nested buckets alone.
\<close>

definition keeps_subs :: "(bucket \<Rightarrow> bucket) \<Rightarrow> bucket \<Rightarrow> bool" where
  "keeps_subs f c \<longleftrightarrow> (\<forall>k. b_bucket (f c) k = b_bucket c k)"

lemma b_at_upd:
  assumes "\<And>c. b_at b h = Some c \<Longrightarrow> keeps_subs f c"
  shows "(case b_at (b_upd h f b) p of None \<Rightarrow> b_at b p = None
          | Some c' \<Rightarrow> (\<exists>c. b_at b p = Some c \<and>
              (if p = h then c' = f c
               else bseq c' = bseq c \<and> (\<forall>k. b_get c' k = b_get c k))))"
  using assms
proof (induction h arbitrary: b p)
  case Nil
  then have "\<And>k. b_bucket (f b) k = b_bucket b k" by (simp add: keeps_subs_def)
  then show ?case by (cases p) (auto split: option.splits)
next
  case (Cons a h)
  show ?case
  proof (cases "b_bucket b a")
    case None
    then show ?thesis by (auto split: option.splits)
  next
    case (Some c)
    with Cons.prems have IH: "case b_at (b_upd h f c) q of None \<Rightarrow> b_at c q = None
          | Some c' \<Rightarrow> (\<exists>d. b_at c q = Some d \<and>
              (if q = h then c' = f d else bseq c' = bseq d \<and> (\<forall>k. b_get c' k = b_get d k)))" for q
      by (intro Cons.IH) simp
    show ?thesis
    proof (cases p)
      case Nil
      then show ?thesis using Some by (auto dest: b_get_bucket)
    next
      case (Cons k q)
      then show ?thesis using Some IH[of q] by (auto split: option.splits)
    qed
  qed
qed

lemma flat_upd:
  assumes "\<And>c. b_at b h = Some c \<Longrightarrow> keeps_subs f c"
  shows "dbis (b_upd h f b) p = dbis b p"
    and "dbseq (b_upd h f b) p =
          (if p = h then (case b_at b h of None \<Rightarrow> 0 | Some c \<Rightarrow> bseq (f c)) else dbseq b p)"
    and "dbval (b_upd h f b) p k =
          (if p = h then (case b_at b h of None \<Rightarrow> None | Some c \<Rightarrow> b_get (f c) k) else dbval b p k)"
  using b_at_upd[where b = b and h = h and f = f and p = p] assms
  by (auto simp: dbis_def dbseq_def dbval_def split: option.splits if_splits)

section \<open>The flat laws\<close>

lemma keeps_subs_insert_leaf: "b_bucket c k = None \<Longrightarrow> keeps_subs (b_insert k (Leaf v)) c"
  by (simp add: keeps_subs_def)

lemma not_sub_at:
  assumes "\<not> dbis b (h @ [k])" "b_at b h = Some c"
  shows "b_bucket c k = None"
  using assms by (cases "b_bucket c k") (auto simp: dbis_def b_at_append)

lemma put_keeps: "\<not> dbis b (h @ [k]) \<Longrightarrow> b_at b h = Some c \<Longrightarrow> keeps_subs (b_insert k (Leaf v)) c"
  by (rule keeps_subs_insert_leaf) (rule not_sub_at)

lemma dbis_bput [simp]: "\<not> dbis b (h @ [k]) \<Longrightarrow> dbis (bput h k v b) p = dbis b p"
  unfolding bput_def by (rule flat_upd(1)) (rule put_keeps)

lemma dbseq_bput [simp]: "\<not> dbis b (h @ [k]) \<Longrightarrow> dbseq (bput h k v b) p = dbseq b p"
  unfolding bput_def by (subst flat_upd(2), erule (1) put_keeps) (simp add: dbseq_def split: option.split)

lemma dbval_bput [simp]:
  "\<not> dbis b (h @ [k]) \<Longrightarrow> dbis b h \<Longrightarrow>
   dbval (bput h k v b) p k' = (if p = h \<and> k' = k then Some v else dbval b p k')"
  unfolding bput_def
  by (subst flat_upd(3), erule (1) put_keeps) (auto simp: dbval_def dbis_def split: option.split)

lemma del_keeps: "\<not> dbis b (h @ [k]) \<Longrightarrow> b_at b h = Some c \<Longrightarrow>
    keeps_subs (\<lambda>b. Bucket (bseq b) (al_del k (bitems b))) c"
  using not_sub_at by (fastforce simp: keeps_subs_def b_bucket_def)

lemma dbis_bdel [simp]: "\<not> dbis b (h @ [k]) \<Longrightarrow> dbis (bdel h k b) p = dbis b p"
  unfolding bdel_def by (rule flat_upd(1)) (rule del_keeps)

lemma dbseq_bdel [simp]: "\<not> dbis b (h @ [k]) \<Longrightarrow> dbseq (bdel h k b) p = dbseq b p"
  unfolding bdel_def by (subst flat_upd(2), erule (1) del_keeps) (simp add: dbseq_def split: option.split)

lemma dbval_bdel [simp]:
  "\<not> dbis b (h @ [k]) \<Longrightarrow>
   dbval (bdel h k b) p k' = (if p = h \<and> k' = k then None else dbval b p k')"
  unfolding bdel_def
  by (subst flat_upd(3), erule (1) del_keeps) (auto simp: dbval_def b_get_def split: option.split)

lemma next_keeps: "keeps_subs (\<lambda>b. Bucket (bseq b + 1) (bitems b)) c"
  by (simp add: keeps_subs_def b_bucket_def)

lemma dbis_bnext [simp]: "dbis (bnext h b) p = dbis b p"
  unfolding bnext_def by (rule flat_upd(1)) (rule next_keeps)

lemma dbval_bnext [simp]: "dbval (bnext h b) p k = dbval b p k"
  unfolding bnext_def
  by (subst flat_upd(3), rule next_keeps) (auto simp: dbval_def b_get_def split: option.split)

lemma dbseq_bnext [simp]:
  "dbis b h \<Longrightarrow> dbseq (bnext h b) p = (if p = h then dbseq b h + 1 else dbseq b p)"
  unfolding bnext_def
  by (subst flat_upd(2), rule next_keeps) (auto simp: dbseq_def dbis_def split: option.split)

lemma b_at_empty: "b_at empty_bucket p = (if p = [] then Some empty_bucket else None)"
  by (cases p) (auto simp: empty_bucket_def b_bucket_def)

lemma b_get_empty [simp]: "b_get empty_bucket k = None"
  by (simp add: empty_bucket_def b_get_def)

lemma bseq_empty [simp]: "bseq empty_bucket = 0"
  by (simp add: empty_bucket_def)

lemma bcreate_flat:
  assumes "\<not> dbis b (h @ [k])" "dbval b h k = None" "dbis b h"
  shows "dbis (bcreate h k b) p = (dbis b p \<or> p = h @ [k]) \<and>
    dbval (bcreate h k b) p k' = dbval b p k' \<and>
    dbseq (bcreate h k b) p = dbseq b p"
  using assms
proof (induction h arbitrary: b p)
  case Nil
  then have "b_bucket b k = None" "b_get b k = None"
    by (simp_all add: dbis_def dbval_def split: option.splits)
  then show ?case
    by (cases p)
       (auto simp: bcreate_def dbis_def dbval_def dbseq_def b_at_empty split: option.splits if_splits)
next
  case (Cons a h)
  from Cons.prems(3) obtain c where c: "b_bucket b a = Some c"
    by (auto simp: dbis_def split: option.splits)
  with Cons.prems have pr: "\<not> dbis c (h @ [k])" "dbval c h k = None" "dbis c h"
    by (simp_all add: dbis_def dbval_def)
  have eq: "bcreate (a # h) k b = b_insert a (Sub (bcreate h k c)) b"
    using c by (simp add: bcreate_def)
  show ?case
  proof (cases p)
    case Nil
    then show ?thesis using c
      by (auto simp: eq dbis_def dbval_def dbseq_def b_get_bucket)
  next
    case (Cons d q)
    then show ?thesis using Cons.IH[OF pr, of q] c
      by (cases "d = a") (simp_all add: eq dbis_def dbval_def dbseq_def)
  qed
qed

lemmas dbis_bcreate [simp] = bcreate_flat[THEN conjunct1]
  and dbval_bcreate [simp] = bcreate_flat[THEN conjunct2, THEN conjunct1]
  and dbseq_bcreate [simp] = bcreate_flat[THEN conjunct2, THEN conjunct2]

section \<open>Key order and cursors\<close>

lemma b_wf_ordered: "b_wf b \<Longrightarrow> b_at b p = Some c \<Longrightarrow> al_ordered (bitems c)"
  by (simp add: b_wf_def)

lemma b_wf_sub: "b_wf b \<Longrightarrow> b_bucket b k = Some c \<Longrightarrow> b_wf c"
  unfolding b_wf_def by (metis b_at.simps(2) option.simps(5))

lemma b_wf_sub_node: "b_wf b \<Longrightarrow> map_of (bitems b) k = Some (Sub c) \<Longrightarrow> b_wf c"
  by (rule b_wf_sub[of b k]) (simp_all add: b_bucket_def)

lemma b_wf_root: "b_wf b \<Longrightarrow> al_ordered (bitems b)"
  using b_wf_ordered[of b "[]"] by simp

lemma b_wf_iff: "b_wf b \<longleftrightarrow> al_ordered (bitems b) \<and> (\<forall>k c. b_bucket b k = Some c \<longrightarrow> b_wf c)"
proof
  assume r: "al_ordered (bitems b) \<and> (\<forall>k c. b_bucket b k = Some c \<longrightarrow> b_wf c)"
  show "b_wf b"
    unfolding b_wf_def
  proof (intro allI impI)
    fix p c assume "b_at b p = Some c"
    then show "al_ordered (bitems c)"
      using r by (cases p) (auto simp: b_wf_def split: option.splits)
  qed
qed (auto intro: b_wf_root b_wf_sub)

lemma b_wf_insert:
  assumes "b_wf b" "\<And>c. n = Sub c \<Longrightarrow> b_wf c"
  shows "b_wf (b_insert k n b)"
  using assms b_wf_root[OF assms(1)]
  by (subst b_wf_iff) (auto simp: b_insert_def al_ordered_put b_bucket_def
      split: option.splits bnode.splits if_splits intro: b_wf_sub_node[OF assms(1)])

lemma b_wf_empty [simp]: "b_wf empty_bucket"
  by (subst b_wf_iff) (simp add: empty_bucket_def b_bucket_def)

lemma b_wf_upd:
  assumes "b_wf b" "\<And>c. b_wf c \<Longrightarrow> b_wf (f c)"
  shows "b_wf (b_upd h f b)"
  using assms
proof (induction h arbitrary: b)
  case (Cons a h)
  then show ?case
    by (auto split: option.splits intro!: b_wf_insert dest: b_wf_sub)
qed simp

lemma b_wf_bput [simp]: "b_wf b \<Longrightarrow> b_wf (bput h k v b)"
  unfolding bput_def by (erule b_wf_upd) (erule b_wf_insert, simp)

lemma b_wf_bcreate [simp]: "b_wf b \<Longrightarrow> b_wf (bcreate h k b)"
  unfolding bcreate_def by (erule b_wf_upd) (erule b_wf_insert, simp)

lemma b_wf_bnext [simp]: "b_wf b \<Longrightarrow> b_wf (bnext h b)"
  unfolding bnext_def by (erule b_wf_upd) (subst b_wf_iff, auto simp: b_bucket_def b_wf_root
      intro: b_wf_sub_node split: option.splits bnode.splits)

lemma b_wf_bdel [simp]: "b_wf b \<Longrightarrow> b_wf (bdel h k b)"
  unfolding bdel_def
  by (erule b_wf_upd) (subst b_wf_iff, auto simp: b_bucket_def b_wf_root al_ordered_del
      intro: b_wf_sub_node split: option.splits bnode.splits if_splits)

lemma al_ordered_ext:
  assumes "al_ordered xs" "al_ordered ys" "map_of xs = map_of ys"
  shows "xs = ys"
proof -
  have "set xs = set ys"
    using map_of_set_iff[OF assms(1)] map_of_set_iff[OF assms(2)] assms(3) by auto
  moreover have "sorted (map fst xs)" "sorted (map fst ys)" "distinct (map fst xs)" "distinct (map fst ys)"
    using assms(1,2) by (simp_all add: al_ordered_def strict_sorted_iff)
  moreover have "inj_on fst (set xs \<union> set ys)"
    using calculation by (simp add: distinct_map)
  ultimately show ?thesis using map_sorted_distinct_set_unique by blast
qed

definition cur_entry :: "bucket \<Rightarrow> bytes list \<Rightarrow> bytes \<Rightarrow> bytes option option" where
  "cur_entry b p k =
     (if dbis b (p @ [k]) then Some None
      else case dbval b p k of None \<Rightarrow> None | Some v \<Rightarrow> Some (Some v))"

lemma map_of_cursor: "map_of (b_cursor c) k =
    (case map_of (bitems c) k of None \<Rightarrow> None | Some (Leaf v) \<Rightarrow> Some (Some v) | Some (Sub d) \<Rightarrow> Some None)"
proof -
  have "map_of (map (\<lambda>(k, n). (k, case n of Leaf v \<Rightarrow> Some v | Sub c \<Rightarrow> None)) xs) k =
    (case map_of xs k of None \<Rightarrow> None | Some (Leaf v) \<Rightarrow> Some (Some v) | Some (Sub d) \<Rightarrow> Some None)"
    for xs :: "(bytes \<times> bnode) list"
    by (induction xs) (auto split: bnode.splits)
  then show ?thesis by (simp add: b_cursor_def)
qed

lemma dbcur_ordered: "b_wf b \<Longrightarrow> al_ordered (dbcur b p)"
  by (auto simp: dbcur_def b_wf_def al_ordered_def b_cursor_def comp_def case_prod_beta split: option.split)

lemma map_of_dbcur: "map_of (dbcur b p) k = cur_entry b p k"
  by (auto simp: dbcur_def cur_entry_def dbis_def dbval_def b_at_append map_of_cursor b_get_def
      b_bucket_def split: option.splits bnode.splits)

lemma dbcur_mem: "b_wf b \<Longrightarrow> (k, v) \<in> set (dbcur b p) \<longleftrightarrow> cur_entry b p k = Some v"
  using map_of_set_iff[OF dbcur_ordered] map_of_dbcur by metis

lemma dbcur_val: "b_wf b \<Longrightarrow> (k, Some v) \<in> set (dbcur b p) \<longleftrightarrow> dbval b p k = Some v"
  by (auto simp: dbcur_mem cur_entry_def dest: dbval_not_sub split: option.splits if_splits)

lemma dbcur_cong:
  assumes "b_wf b" "b_wf b'" "\<And>k. cur_entry b p k = cur_entry b' p k"
  shows "dbcur b p = dbcur b' p"
  by (rule al_ordered_ext) (use assms in \<open>auto simp: dbcur_ordered map_of_dbcur\<close>)

lemma dbcur_bput_other:
  assumes "b_wf b" "dbis b h" "\<not> dbis b (h @ [k])" "p \<noteq> h"
  shows "dbcur (bput h k v b) p = dbcur b p"
  by (rule dbcur_cong) (use assms in \<open>auto simp: cur_entry_def\<close>)

lemma dbcur_bput_append:
  assumes "b_wf b" "dbis b h" "\<not> dbis b (h @ [k])"
    and "\<And>a. a \<in> fst ` set (dbcur b h) \<Longrightarrow> a < k"
  shows "dbcur (bput h k v b) h = dbcur b h @ [(k, Some v)]"
proof -
  have "al_ordered (dbcur b h @ [(k, Some v)])"
    using dbcur_ordered[OF assms(1), of h] assms(4) by (auto simp: al_ordered_def sorted_wrt_append)
  moreover have "map_of (dbcur (bput h k v b) h) = map_of (dbcur b h @ [(k, Some v)])"
  proof
    fix x
    have "\<And>a. a \<in> fst ` set (dbcur b h) \<Longrightarrow> a \<noteq> k" using assms(4) by blast
    then have "map_of (dbcur b h) k = None" by (auto simp: map_of_eq_None_iff)
    then have "cur_entry b h k = None" by (simp add: map_of_dbcur)
    moreover have "cur_entry (bput h k v b) h x = (if x = k then Some (Some v) else cur_entry b h x)"
      using assms by (simp add: cur_entry_def)
    ultimately show "map_of (dbcur (bput h k v b) h) x = map_of (dbcur b h @ [(k, Some v)]) x"
      by (auto simp: map_of_dbcur map_add_def split: option.splits)
  qed
  ultimately show ?thesis
    by (intro al_ordered_ext dbcur_ordered b_wf_bput assms(1))
qed

end
