(* ===== verification/GoTime.thy ===== *)
theory GoTime imports GoErr "HOL-Library.Monad_Syntax" begin

text \<open>
  \<open>time.Time\<close> and \<open>time.Duration\<close> as the program uses them.  An instant is its
  nanoseconds since the Unix epoch with the zone offset it is shown in; a
  duration is a 64-bit signed integer that wraps.  The text form is RFC 3339,
  written by \<open>Format\<close> and \<open>MarshalText\<close> and read by \<open>Parse\<close> and \<open>UnmarshalText\<close>;
  the calendar follows the day-cycle computation of the \<open>time\<close> package.  The
  main lemmas are the two round trips: \<open>MarshalText\<close> loses nothing, and
  \<open>Format(time.RFC3339)\<close> drops the fraction of the second.
\<close>

record gtime =
  t_ns :: int
  t_off :: int

definition nsec_per_sec :: int where "nsec_per_sec = 1000000000"

definition wrap64 :: "int \<Rightarrow> int" where
  "wrap64 i = (i + 2 ^ 63) mod 2 ^ 64 - 2 ^ 63"

lemma wrap64_id: "- (2 ^ 63) \<le> i \<Longrightarrow> i < 2 ^ 63 \<Longrightarrow> wrap64 i = i"
  by (simp add: wrap64_def)

lemma wrap64_bounds: "- (2 ^ 63) \<le> wrap64 i \<and> wrap64 i < 2 ^ 63"
  by (simp add: wrap64_def)

text \<open>\<open>Time.Add\<close>, \<open>Time.Sub\<close> (which saturates), \<open>time.Until\<close>, \<open>time.Since\<close>, \<open>Before\<close>.\<close>

definition t_add :: "gtime \<Rightarrow> int \<Rightarrow> gtime" where
  "t_add t d = t\<lparr>t_ns := t_ns t + d\<rparr>"

definition t_sub :: "gtime \<Rightarrow> gtime \<Rightarrow> int" where
  "t_sub t u = max (- (2 ^ 63)) (min (2 ^ 63 - 1) (t_ns t - t_ns u))"

definition t_before :: "gtime \<Rightarrow> gtime \<Rightarrow> bool" where
  "t_before t u \<longleftrightarrow> t_ns t < t_ns u"

section \<open>Calendar\<close>

definition is_leap :: "int \<Rightarrow> bool" where
  "is_leap y \<longleftrightarrow> y mod 4 = 0 \<and> (y mod 100 \<noteq> 0 \<or> y mod 400 = 0)"

definition days_before :: "nat \<Rightarrow> int" where
  "days_before m = [0, 31, 59, 90, 120, 151, 181, 212, 243, 273, 304, 334, 365] ! m"

definition days_in_leap :: "bool \<Rightarrow> nat \<Rightarrow> int" where
  "days_in_leap leap m = (if m = 2 \<and> leap then 29 else days_before m - days_before (m - 1))"

definition days_in :: "nat \<Rightarrow> int \<Rightarrow> int" where
  "days_in m y = days_in_leap (is_leap y) m"

text \<open>Year and day of the year of a day counted from 1 January of year 1.\<close>

definition year_yday :: "int \<Rightarrow> int \<times> int" where
  "year_yday d0 =
     (let n400 = d0 div 146097; d1 = d0 - 146097 * n400;
          c = d1 div 36524; n100 = c - c div 4; d2 = d1 - 36524 * n100;
          n4 = d2 div 1461; d3 = d2 - 1461 * n4;
          a = d3 div 365; n1 = a - a div 4
      in (400 * n400 + 100 * n100 + 4 * n4 + n1 + 1, d3 - 365 * n1))"

definition month_day :: "bool \<Rightarrow> int \<Rightarrow> nat \<times> int" where
  "month_day leap yday =
     (if leap \<and> yday = 59 then (2, 29)
      else
        (let day = (if leap \<and> 59 < yday then yday - 1 else yday);
             m = nat (day div 31);
             fin = days_before (m + 1)
         in if fin \<le> day then (m + 2, day - fin + 1) else (m + 1, day - days_before m + 1)))"

definition days_since_epoch :: "int \<Rightarrow> int" where
  "days_since_epoch year =
     (let y0 = year - 1; n400 = y0 div 400; y1 = y0 - 400 * n400;
          n100 = y1 div 100; y2 = y1 - 100 * n100;
          n4 = y2 div 4; y3 = y2 - 4 * n4
      in 146097 * n400 + 36524 * n100 + 1461 * n4 + 365 * y3)"

definition day_number :: "int \<Rightarrow> nat \<Rightarrow> int \<Rightarrow> int" where
  "day_number y m d =
     days_since_epoch y + days_before (m - 1) + (if is_leap y \<and> 3 \<le> m then 1 else 0) + (d - 1)"

definition unix_days :: int where "unix_days = 719162"

definition day_of :: "gtime \<Rightarrow> int" where
  "day_of t = (t_ns t div nsec_per_sec + t_off t) div 86400 + unix_days"

definition sec_of_day :: "gtime \<Rightarrow> int" where
  "sec_of_day t = (t_ns t div nsec_per_sec + t_off t) mod 86400"

definition year_of :: "gtime \<Rightarrow> int" where
  "year_of t = fst (year_yday (day_of t))"

section \<open>RFC 3339\<close>

definition fmt2 :: "nat \<Rightarrow> bytes" where
  "fmt2 n = pad_zero 2 (fmt_d n)"

definition trim_zeros :: "bytes \<Rightarrow> bytes" where
  "trim_zeros s = rev (dropWhile (\<lambda>c. c = CHR ''0'') (rev s))"

definition fmt_frac :: "nat \<Rightarrow> bytes" where
  "fmt_frac ns = (let s = trim_zeros (pad_zero 9 (fmt_d ns)) in if s = [] then [] else CHR ''.'' # s)"

definition fmt_zone :: "int \<Rightarrow> bytes" where
  "fmt_zone off =
     (if off = 0 then ''Z''
      else let z = (if off < 0 then - ((- off) div 60) else off div 60); a = nat \<bar>z\<bar>
           in (if z < 0 then ''-'' else ''+'') @ fmt2 (a div 60) @ '':'' @ fmt2 (a mod 60))"

definition fmt_year :: "int \<Rightarrow> bytes" where
  "fmt_year y = (if y < 0 then ''-'' else []) @ pad_zero 4 (fmt_d (nat \<bar>y\<bar>))"

definition format_time :: "bool \<Rightarrow> gtime \<Rightarrow> bytes" where
  "format_time nano t =
     (let (y, yday) = year_yday (day_of t);
          (m, d) = month_day (is_leap y) yday;
          s = nat (sec_of_day t)
      in fmt_year y @ ''-'' @ fmt2 m @ ''-'' @ fmt2 (nat d) @ ''T''
         @ fmt2 (s div 3600) @ '':'' @ fmt2 (s div 60 mod 60) @ '':'' @ fmt2 (s mod 60)
         @ (if nano then fmt_frac (nat (t_ns t mod nsec_per_sec)) else [])
         @ fmt_zone (t_off t))"

definition RFC3339 :: "gtime \<Rightarrow> bytes" where "RFC3339 = format_time False"
definition RFC3339Nano :: "gtime \<Rightarrow> bytes" where "RFC3339Nano = format_time True"

definition marshal_text :: "gtime \<Rightarrow> err + bytes" where
  "marshal_text t =
     (if year_of t < 0 \<or> 10000 \<le> year_of t
      then Inl (ErrNew ''Time.MarshalText: year outside of range [0,9999]'')
      else Inr (RFC3339Nano t))"

definition get_num :: "bool \<Rightarrow> bytes \<Rightarrow> (nat \<times> bytes) option" where
  "get_num fixed s =
     (case s of
        [] \<Rightarrow> None
      | a # r \<Rightarrow>
          (case digit_val a of
             None \<Rightarrow> None
           | Some x \<Rightarrow>
               (case r of
                  [] \<Rightarrow> if fixed then None else Some (x, r)
                | b # r' \<Rightarrow>
                    (case digit_val b of
                       None \<Rightarrow> if fixed then None else Some (x, r)
                     | Some y \<Rightarrow> Some (10 * x + y, r')))))"

fun expect :: "char \<Rightarrow> bytes \<Rightarrow> bytes option" where
  "expect c [] = None"
| "expect c (d # s) = (if d = c then Some s else None)"

definition check :: "bool \<Rightarrow> unit option" where
  "check b = (if b then Some () else None)"

definition parse_frac :: "bytes \<Rightarrow> nat \<times> bytes" where
  "parse_frac s =
     (case s of
        c # r \<Rightarrow>
          (if (c = CHR ''.'' \<or> c = CHR '','') \<and> r \<noteq> [] \<and> is_digit (hd r)
           then (let ds = take 9 (takeWhile is_digit r)
                 in (the (parse_digits 0 ds) * 10 ^ (9 - length ds), dropWhile is_digit r))
           else (0, s))
      | [] \<Rightarrow> (0, s))"

definition time_atoi :: "bytes \<Rightarrow> int option" where
  "time_atoi s =
     (case s of
        c # r \<Rightarrow>
          if c = CHR ''-'' then map_option (\<lambda>n. - int n) (parse_digits 0 r)
          else if c = CHR ''+'' then map_option int (parse_digits 0 r)
          else map_option int (parse_digits 0 s)
      | [] \<Rightarrow> Some 0)"

definition parse_zone :: "bytes \<Rightarrow> (int \<times> bytes) option" where
  "parse_zone s =
     (if s \<noteq> [] \<and> hd s = CHR ''Z'' then Some (0, tl s)
      else if length s < 6 \<or> s ! 3 \<noteq> CHR '':'' then None
      else do {
        hr \<leftarrow> time_atoi (take 2 (drop 1 s));
        mm \<leftarrow> time_atoi (take 2 (drop 4 s));
        sg \<leftarrow> (if hd s = CHR ''+'' then Some 1 else if hd s = CHR ''-'' then Some (- 1) else None);
        Some (sg * ((hr * 60 + mm) * 60), drop 6 s)
      })"

definition parse_time :: "bytes \<Rightarrow> gtime option" where
  "parse_time s0 = do {
     check (4 \<le> length s0);
     y \<leftarrow> parse_digits 0 (take 4 s0);
     s \<leftarrow> expect CHR ''-'' (drop 4 s0);
     (mo, s) \<leftarrow> get_num True s;
     check (1 \<le> mo \<and> mo \<le> 12);
     s \<leftarrow> expect CHR ''-'' s;
     (d, s) \<leftarrow> get_num True s;
     s \<leftarrow> expect CHR ''T'' s;
     (h, s) \<leftarrow> get_num False s;
     check (h < 24);
     s \<leftarrow> expect CHR '':'' s;
     (mi, s) \<leftarrow> get_num True s;
     check (mi < 60);
     s \<leftarrow> expect CHR '':'' s;
     (se, s) \<leftarrow> get_num True s;
     check (se < 60);
     (case parse_frac s of (ns, s) \<Rightarrow> do {
       (off, s) \<leftarrow> parse_zone s;
       check (s = []);
       check (1 \<le> d \<and> int d \<le> days_in mo (int y));
       Some \<lparr>t_ns = (((day_number (int y) mo (int d) - unix_days) * 86400
                + int h * 3600 + int mi * 60 + int se - off) * nsec_per_sec + int ns),
             t_off = off\<rparr>
     })
   }"

section \<open>The calendar is inverted by the day number\<close>

lemma year_cycles:
  fixes d1 :: int
  assumes "c = d1 div 36524" "n100 = c - c div 4" "d2 = d1 - 36524 * n100"
    and "n4 = d2 div 1461" "d3 = d2 - 1461 * n4" "a = d3 div 365" "n1 = a - a div 4"
    and "0 \<le> d1" "d1 < 146097"
  shows "0 \<le> n100" "n100 \<le> 3" "0 \<le> n4" "n4 \<le> 24" "0 \<le> n1" "n1 \<le> 3"
    "0 \<le> d3 - 365 * n1" "d3 - 365 * n1 \<le> 365"
    "d3 - 365 * n1 = 365 \<Longrightarrow> n1 = 3 \<and> (n4 = 24 \<longrightarrow> n100 = 3)"
proof -
  have c: "0 \<le> c" "c \<le> 4" using assms(1,8,9) by auto
  have n100: "n100 = c \<and> c \<le> 3 \<or> c = 4 \<and> n100 = 3" using c assms(2) by auto
  have d1: "36524 * c \<le> d1" "d1 < 36524 * c + 36524" using assms(1) by auto
  have d2: "0 \<le> d2" "d2 \<le> 36524" "d2 = 36524 \<Longrightarrow> n100 = 3" using n100 d1 assms(3,9) by auto
  then have n4: "0 \<le> n4" "n4 \<le> 24" "1461 * n4 \<le> d2" "d2 < 1461 * n4 + 1461" using assms(4) by auto
  then have d3: "0 \<le> d3" "d3 \<le> 1460" using assms(5) by auto
  then have a: "0 \<le> a" "a \<le> 4" "365 * a \<le> d3" "d3 < 365 * a + 365" using assms(6) by auto
  have n1: "n1 = a \<and> a \<le> 3 \<or> a = 4 \<and> n1 = 3" using a assms(7) by auto
  show "0 \<le> n100" "n100 \<le> 3" using c n100 by auto
  show "0 \<le> n4" "n4 \<le> 24" using n4 by auto
  show "0 \<le> n1" "n1 \<le> 3" using a n1 by auto
  show "0 \<le> d3 - 365 * n1" "d3 - 365 * n1 \<le> 365" using a n1 d3 by auto
  show "n1 = 3 \<and> (n4 = 24 \<longrightarrow> n100 = 3)" if "d3 - 365 * n1 = 365"
    using that a n1 d3 d2 assms(5) by auto
qed

lemma year_yday_correct:
  assumes "year_yday d0 = (y, yday)"
  shows "days_since_epoch y + yday = d0" "0 \<le> yday" "yday < (if is_leap y then 366 else 365)"
proof -
  define n400 where "n400 = d0 div 146097"
  define d1 where "d1 = d0 - 146097 * n400"
  define c where "c = d1 div 36524"
  define n100 where "n100 = c - c div 4"
  define d2 where "d2 = d1 - 36524 * n100"
  define n4 where "n4 = d2 div 1461"
  define d3 where "d3 = d2 - 1461 * n4"
  define a where "a = d3 div 365"
  define n1 where "n1 = a - a div 4"
  have d1: "0 \<le> d1" "d1 < 146097" unfolding d1_def n400_def by auto
  note cyc = year_cycles[OF c_def n100_def d2_def n4_def d3_def a_def n1_def d1]
  have y: "y = 400 * n400 + 100 * n100 + 4 * n4 + n1 + 1" and yd: "yday = d3 - 365 * n1"
    using assms unfolding year_yday_def Let_def
    by (simp_all add: n400_def d1_def c_def n100_def d2_def n4_def d3_def a_def n1_def)
  have q: "(y - 1) div 400 = n400" "y - 1 - 400 * n400 = 100 * n100 + 4 * n4 + n1"
    "(100 * n100 + 4 * n4 + n1) div 100 = n100" "(4 * n4 + n1) div 4 = n4"
    using y cyc(1-6) by linarith+
  have "days_since_epoch y = 146097 * n400 + 36524 * n100 + 1461 * n4 + 365 * n1"
    unfolding days_since_epoch_def Let_def using cyc(5,6) by (simp add: q div_pos_pos_trivial)
  then show "days_since_epoch y + yday = d0" using yd d1_def d2_def d3_def by simp
  show "0 \<le> yday" using yd cyc(7) by simp
  show "yday < (if is_leap y then 366 else 365)"
  proof (cases "yday = 365")
    case True
    then have "n1 = 3" "n4 = 24 \<longrightarrow> n100 = 3" using cyc(9) yd by auto
    then have y4: "y = 4 * (100 * n400 + 25 * n100 + n4 + 1)"
      and y100: "y = 100 * (4 * n400 + n100) + 4 * (n4 + 1)" using y by simp_all
    have "y mod 4 = 0" using y4 by simp
    moreover have "y mod 400 = 0" if "y mod 100 = 0"
    proof -
      have "y mod 100 = 4 * (n4 + 1) mod 100" using y100 by (metis add.commute mod_mult_self2)
      with that have "100 dvd 4 * (n4 + 1)" by (simp add: dvd_eq_mod_eq_0)
      then obtain k where "4 * (n4 + 1) = 100 * k" by (elim dvdE)
      with cyc(3,4) have "n4 = 24" by arith
      with \<open>n1 = 3\<close> \<open>n4 = 24 \<longrightarrow> n100 = 3\<close> y have "y = 400 * (n400 + 1)" by simp
      then show ?thesis by simp
    qed
    ultimately show ?thesis using True by (auto simp: is_leap_def)
  next
    case False
    then show ?thesis using yd cyc(8) by auto
  qed
qed

definition month_day_ok :: "bool \<Rightarrow> int \<Rightarrow> bool" where
  "month_day_ok leap yday =
     (case month_day leap yday of (m, d) \<Rightarrow>
        1 \<le> m \<and> m \<le> 12 \<and> 1 \<le> d \<and> d \<le> days_in_leap leap m \<and> d \<le> 31 \<and>
        days_before (m - 1) + (if leap \<and> 3 \<le> m then 1 else 0) + (d - 1) = yday)"

lemma days_before_numeral:
  "days_before 0 = 0" "days_before (Suc 0) = 31" "days_before 2 = 59" "days_before 3 = 90"
  "days_before 4 = 120" "days_before 5 = 151" "days_before 6 = 181" "days_before 7 = 212"
  "days_before 8 = 243" "days_before 9 = 273" "days_before 10 = 304" "days_before 11 = 334"
  "days_before 12 = 365" "days_before (Suc (Suc 0)) = 59" "days_before (Suc (Suc (Suc 0))) = 90"
  by (simp_all add: days_before_def)

lemma month_core:
  assumes "0 \<le> day" "day < 365"
    and md: "(if days_before (nat (day div 31) + 1) \<le> day
              then (nat (day div 31) + 2, day - days_before (nat (day div 31) + 1) + 1)
              else (nat (day div 31) + 1, day - days_before (nat (day div 31)) + 1)) = (m, d)"
  shows "1 \<le> m \<and> m \<le> 12 \<and> 1 \<le> d \<and> d \<le> days_before m - days_before (m - 1) \<and> d \<le> 31 \<and>
    days_before (m - 1) + (d - 1) = day \<and> (3 \<le> m \<longleftrightarrow> 59 \<le> day)"
proof -
  define k where "k = nat (day div 31)"
  have k: "31 * int k \<le> day" "day < 31 * int k + 31" using assms(1) by (auto simp: k_def)
  then have "int k < 12" using assms(2) by linarith
  then have "k = 0 \<or> k = 1 \<or> k = 2 \<or> k = 3 \<or> k = 4 \<or> k = 5 \<or> k = 6 \<or> k = 7 \<or> k = 8 \<or> k = 9
      \<or> k = 10 \<or> k = 11" by arith
  then show ?thesis
    using md[folded k_def] k assms(2)
    by (elim disjE) (auto simp: days_before_numeral split: if_splits)
qed

lemma month_day_correct:
  assumes "0 \<le> yday" "yday < (if leap then 366 else 365)"
  shows "month_day_ok leap yday"
proof (cases "leap \<and> yday = 59")
  case True
  then show ?thesis
    by (simp add: month_day_ok_def month_day_def days_in_leap_def days_before_numeral)
next
  case False
  define day where "day = (if leap \<and> 59 < yday then yday - 1 else yday)"
  obtain m d where md: "month_day leap yday = (m, d)" by (cases "month_day leap yday")
  have day: "0 \<le> day" "day < 365" using assms False by (auto simp: day_def split: if_splits)
  have "(if days_before (nat (day div 31) + 1) \<le> day
              then (nat (day div 31) + 2, day - days_before (nat (day div 31) + 1) + 1)
              else (nat (day div 31) + 1, day - days_before (nat (day div 31)) + 1)) = (m, d)"
    using md False unfolding month_day_def Let_def day_def by (simp only: if_False)
  from month_core[OF day this] show ?thesis
    using md False
    by (auto simp: month_day_ok_def days_in_leap_def day_def days_before_numeral split: if_splits)
qed

lemma day_number_inverse:
  assumes "year_yday n = (y, yday)" "month_day (is_leap y) yday = (m, d)"
  shows "day_number y m d = n" "1 \<le> m" "m \<le> 12" "1 \<le> d" "d \<le> days_in m y" "d \<le> 31"
proof -
  have "month_day_ok (is_leap y) yday"
    using year_yday_correct[OF assms(1)] by (intro month_day_correct)
  then show "1 \<le> m" "m \<le> 12" "1 \<le> d" "d \<le> days_in m y" "d \<le> 31" "day_number y m d = n"
    using assms(2) year_yday_correct(1)[OF assms(1)]
    by (auto simp: month_day_ok_def days_in_def day_number_def split: if_splits)
qed

section \<open>Round trips of the text form\<close>

lemma digit_char_is_digit: "d < 10 \<Longrightarrow> is_digit (digit_char d)"
proof -
  have "\<forall>d \<in> set [0..<10]. is_digit (digit_char d)" by code_simp
  then show "d < 10 \<Longrightarrow> is_digit (digit_char d)" by simp
qed

lemma fixed_width_digits: "\<forall>c \<in> set (fixed_width 10 k n). is_digit c"
  by (induction k arbitrary: n) (auto intro: digit_char_is_digit)

lemma parse_fixed_width:
  "n < 10 ^ k \<Longrightarrow> parse_digits a (fixed_width 10 k n) = Some (a * 10 ^ k + n)"
proof (induction k arbitrary: n)
  case (Suc k)
  then have "n div 10 < 10 ^ k" by (simp add: less_mult_imp_div_less mult.commute)
  then show ?case using Suc.IH by (simp add: parse_digits_append digit_val_char)
qed simp

lemma parse_digits_zeros: "parse_digits a (replicate k CHR ''0'') = Some (a * 10 ^ k)"
  by (induction k arbitrary: a) (auto simp: digit_val_def byte_def mult.assoc)

lemma pad_fixed: "n < 10 ^ k \<Longrightarrow> 0 < k \<Longrightarrow> pad_zero k (fmt_d n) = fixed_width 10 k n"
  using pad_fixed_width[of 10 n k] by (simp add: fmt_d_def)

lemma fmt2_digits: "n < 100 \<Longrightarrow> fmt2 n = [digit_char (n div 10), digit_char (n mod 10)]"
  using pad_fixed[of n 2] by (simp add: fmt2_def numeral_2_eq_2)

lemma get_num_fmt2 [simp]: "n < 100 \<Longrightarrow> get_num f (fmt2 n @ s) = Some (n, s)"
  by (simp add: fmt2_digits get_num_def digit_val_char less_mult_imp_div_less)

lemma fmt_year_parse:
  assumes "0 \<le> y" "y < 10000"
  shows "length (fmt_year y) = 4" "parse_digits 0 (fmt_year y) = Some (nat y)"
proof -
  have "nat y < 10 ^ 4" using assms by simp
  then have "fmt_year y = fixed_width 10 4 (nat y)"
    using assms(1) pad_fixed[of "nat y" 4] by (simp add: fmt_year_def)
  with parse_fixed_width[OF \<open>nat y < 10 ^ 4\<close>, of 0] show
    "length (fmt_year y) = 4" "parse_digits 0 (fmt_year y) = Some (nat y)" by simp_all
qed

definition zone_ok :: "int \<Rightarrow> bool" where
  "zone_ok off \<longleftrightarrow> off mod 60 = 0 \<and> \<bar>off\<bar> < 360000"

lemma time_atoi_fmt2: "n < 100 \<Longrightarrow> time_atoi (fmt2 n) = Some (int n)"
proof -
  have "\<forall>n \<in> set [0..<100]. time_atoi (fmt2 n) = Some (int n)" by code_simp
  then show "n < 100 \<Longrightarrow> time_atoi (fmt2 n) = Some (int n)" by simp
qed

lemma length_fmt2 [simp]: "n < 100 \<Longrightarrow> length (fmt2 n) = 2"
  by (simp add: fmt2_digits)

lemma parse_zone_fmt:
  assumes "zone_ok off"
  shows "parse_zone (fmt_zone off) = Some (off, [])"
proof (cases "off = 0")
  case False
  define a where "a = nat \<bar>off\<bar> div 60"
  define z where "z = (if off < 0 then - ((- off) div 60) else off div 60)"
  have az: "nat \<bar>z\<bar> = a" and zneg: "z < 0 \<longleftrightarrow> off < 0"
    using assms False by (auto simp: a_def z_def zone_ok_def nat_div_distrib pos_imp_zdiv_nonneg_iff zdiv_mono2)
  have off: "off = (if off < 0 then - 1 else 1) * (int a * 60)"
    using assms by (auto simp: a_def zone_ok_def)
  have a: "a div 60 < 100" "a mod 60 < 100" using assms by (auto simp: a_def zone_ok_def)
  define sg where "sg = (if off < 0 then CHR ''-'' else CHR ''+'')"
  have fz: "fmt_zone off = sg # fmt2 (a div 60) @ CHR '':'' # fmt2 (a mod 60)"
    using False az zneg by (simp add: fmt_zone_def Let_def z_def[symmetric] sg_def)
  have l: "length (fmt_zone off) = 6" "fmt_zone off ! 3 = CHR '':''"
    "take 2 (drop 1 (fmt_zone off)) = fmt2 (a div 60)" "take 2 (drop 4 (fmt_zone off)) = fmt2 (a mod 60)"
    unfolding fz fmt2_digits[OF a(1)] fmt2_digits[OF a(2)] by simp_all
  have h: "hd (fmt_zone off) = sg" "fmt_zone off \<noteq> []" unfolding fz by simp_all
  have "(int (a div 60) * 60 + int (a mod 60)) * 60 = int a * 60"
    by (metis div_mult_mod_eq of_nat_add of_nat_mult of_nat_numeral)
  then show ?thesis
    unfolding parse_zone_def using l h a off by (auto simp: time_atoi_fmt2 sg_def)
qed (simp add: fmt_zone_def parse_zone_def)

lemma fmt_zone_hd: "fmt_zone off \<noteq> [] \<and> hd (fmt_zone off) \<in> {CHR ''Z'', CHR ''+'', CHR ''-''}"
  by (simp add: fmt_zone_def Let_def)

lemma zone_not_digit: "\<not> is_digit (hd (fmt_zone off))" "hd (fmt_zone off) \<noteq> CHR ''.''"
  "hd (fmt_zone off) \<noteq> CHR '',''"
  using fmt_zone_hd[of off] by (auto simp: is_digit_def byte_def)

lemma parse_frac_none: "parse_frac (fmt_zone off) = (0, fmt_zone off)"
  using fmt_zone_hd[of off] zone_not_digit[of off]
  by (cases "fmt_zone off") (auto simp: parse_frac_def)

lemma trim_zeros_split:
  "\<exists>k. s = trim_zeros s @ replicate k CHR ''0''"
proof -
  let ?z = "\<lambda>c. c = CHR ''0''"
  have "s = rev (dropWhile ?z (rev s)) @ rev (takeWhile ?z (rev s))"
    by (simp flip: rev_append)
  moreover have "takeWhile ?z (rev s) = replicate (length (takeWhile ?z (rev s))) CHR ''0''"
    by (rule replicate_length_same[symmetric]) (auto dest: set_takeWhileD)
  ultimately show ?thesis unfolding trim_zeros_def by (metis rev_replicate)
qed

lemma parse_frac_fmt:
  assumes "ns < 10 ^ 9"
  shows "parse_frac (fmt_frac ns @ fmt_zone off) = (ns, fmt_zone off)"
proof -
  let ?f = "fixed_width 10 9 ns"
  let ?t = "trim_zeros ?f"
  obtain k where k: "?f = ?t @ replicate k CHR ''0''" using trim_zeros_split by blast
  have len: "length ?t + k = 9" using arg_cong[OF k, of length] by simp
  have dig: "\<forall>c \<in> set ?t. is_digit c" using fixed_width_digits[of 9 ns] k by (metis UnI1 set_append)
  have val: "parse_digits 0 ?t = Some v \<Longrightarrow> v * 10 ^ (9 - length ?t) = ns" for v
    using parse_fixed_width[OF assms, of 0] k len
    by (metis add.left_neutral add_diff_cancel_left' mult_0 option.inject option.simps(5)
        parse_digits_append parse_digits_zeros)
  have ex: "\<exists>v. parse_digits 0 ?t = Some v"
    using parse_fixed_width[OF assms, of 0] k by (metis not_None_eq option.simps(4) parse_digits_append)
  have frac: "fmt_frac ns = (if ?t = [] then [] else CHR ''.'' # ?t)"
    using pad_fixed[OF assms] by (simp add: fmt_frac_def Let_def)
  show ?thesis
  proof (cases "?t = []")
    case True
    then have "ns = 0" using val[of 0] by simp
    then show ?thesis using frac True by (simp add: parse_frac_none)
  next
    case False
    have "takeWhile is_digit (?t @ fmt_zone off) = ?t" "dropWhile is_digit (?t @ fmt_zone off) = fmt_zone off"
      using dig zone_not_digit(1)[of off] fmt_zone_hd[of off]
      by (cases "fmt_zone off"; simp add: takeWhile_append dropWhile_append)+
    moreover have "is_digit (hd (?t @ fmt_zone off))" using False dig by (cases ?t) auto
    moreover have "take 9 ?t = ?t" using len by simp
    ultimately show ?thesis
      using frac False val ex by (auto simp: parse_frac_def Let_def)
  qed
qed

lemma parse_format:
  assumes "0 \<le> year_of t" "year_of t < 10000" "zone_ok (t_off t)"
  shows "parse_time (format_time nano t) =
    Some \<lparr>t_ns = (if nano then t_ns t else t_ns t div nsec_per_sec * nsec_per_sec), t_off = t_off t\<rparr>"
proof -
  obtain y yday where y: "year_yday (day_of t) = (y, yday)" by (cases "year_yday (day_of t)")
  obtain m d where md: "month_day (is_leap y) yday = (m, d)" by (cases "month_day (is_leap y) yday")
  note inv = day_number_inverse[OF y md]
  have yr: "0 \<le> y" "y < 10000" using assms(1,2) y by (simp_all add: year_of_def)
  define s where "s = nat (sec_of_day t)"
  have sec: "0 \<le> sec_of_day t" "sec_of_day t < 86400" by (simp_all add: sec_of_day_def)
  then have s: "s < 86400" by (simp add: s_def)
  define ns where "ns = nat (t_ns t mod nsec_per_sec)"
  have ns: "ns < 10 ^ 9" by (simp add: ns_def nsec_per_sec_def nat_less_iff)
  let ?frac = "if nano then fmt_frac ns else []"
  have frac: "parse_frac (?frac @ fmt_zone (t_off t)) = (if nano then ns else 0, fmt_zone (t_off t))"
    using parse_frac_fmt[OF ns] parse_frac_none by simp
  have b: "m < 100" "nat d < 100" "s div 3600 < 100" "s div 60 mod 60 < 100" "s mod 60 < 100"
    "s div 3600 < 24" "s div 60 mod 60 < 60" "s mod 60 < 60" "Suc 0 \<le> nat d"
    using inv s by auto
  have f: "format_time nano t = fmt_year y @ CHR ''-'' # fmt2 m @ CHR ''-'' # fmt2 (nat d) @ CHR ''T'' #
       fmt2 (s div 3600) @ CHR '':'' # fmt2 (s div 60 mod 60) @ CHR '':'' # fmt2 (s mod 60) @
       ?frac @ fmt_zone (t_off t)"
    unfolding format_time_def Let_def y s_def ns_def by (simp add: md)
  have hms: "int (s div 3600) * 3600 + int (s div 60 mod 60) * 60 + int (s mod 60) = sec_of_day t"
  proof -
    have "s div 60 = s div 3600 * 60 + s div 60 mod 60"
      using div_mult_mod_eq[of "s div 60" 60] by (simp add: div_mult2_eq[symmetric])
    with div_mult_mod_eq[of s 60] have "s div 3600 * 3600 + s div 60 mod 60 * 60 + s mod 60 = s" by linarith
    then have "int (s div 3600 * 3600 + s div 60 mod 60 * 60 + s mod 60) = int s" by (rule arg_cong)
    then show ?thesis using sec(1) by (simp add: s_def)
  qed
  have secs: "(day_of t - unix_days) * 86400 + sec_of_day t - t_off t = t_ns t div nsec_per_sec"
    unfolding day_of_def sec_of_day_def by (simp add: mult.commute)
  have ns_int: "int ns = t_ns t mod nsec_per_sec" by (simp add: ns_def nsec_per_sec_def)
  have total: "(((day_number y m d - unix_days) * 86400 + int (s div 3600) * 3600
        + int (s div 60 mod 60) * 60 + int (s mod 60) - t_off t) * nsec_per_sec + int (if nano then ns else 0))
      = (if nano then t_ns t else t_ns t div nsec_per_sec * nsec_per_sec)"
  proof -
    have "(day_number y m d - unix_days) * 86400 + int (s div 3600) * 3600
        + int (s div 60 mod 60) * 60 + int (s mod 60) - t_off t = t_ns t div nsec_per_sec"
      using hms secs inv(1) by simp
    then show ?thesis using ns_int by simp
  qed
  have n1: "int (nat d) = d" "int (nat y) = y" using inv yr by simp_all
  show ?thesis
    unfolding parse_time_def f
    using fmt_year_parse[OF yr] b inv frac parse_zone_fmt[OF assms(3)] total n1
    by (simp add: check_def)
qed

lemma length_fmt_frac: "ns < 10 ^ 9 \<Longrightarrow> length (fmt_frac ns) \<le> 10"
proof -
  assume "ns < 10 ^ 9"
  then have "length (pad_zero 9 (fmt_d ns)) = 9" using pad_fixed[of ns 9] by simp
  moreover obtain k where "pad_zero 9 (fmt_d ns) = trim_zeros (pad_zero 9 (fmt_d ns)) @ replicate k CHR ''0''"
    using trim_zeros_split by blast
  ultimately have "length (trim_zeros (pad_zero 9 (fmt_d ns))) \<le> 9"
    by (metis le_add1 length_append)
  then show ?thesis by (simp add: fmt_frac_def Let_def)
qed

lemma marshal_round_trip:
  assumes "marshal_text t = Inr s" "zone_ok (t_off t)"
  shows "parse_time s = Some t"
  using assms parse_format[of t True] by (auto simp: marshal_text_def RFC3339Nano_def split: if_splits)

lemma length_fmt_zone: "zone_ok off \<Longrightarrow> length (fmt_zone off) \<le> 6"
proof -
  assume z: "zone_ok off"
  define a where "a = nat \<bar>if off < 0 then - ((- off) div 60) else off div 60\<bar>"
  have "a div 60 < 100 \<and> a mod 60 < 100" using z by (auto simp: a_def zone_ok_def)
  then show ?thesis by (auto simp: fmt_zone_def Let_def a_def[symmetric])
qed

lemma length_format_time:
  assumes "0 \<le> year_of t" "year_of t < 10000" "zone_ok (t_off t)"
  shows "length (format_time nano t) \<le> 35"
proof -
  obtain y yday where y: "year_yday (day_of t) = (y, yday)" by (cases "year_yday (day_of t)")
  obtain m d where md: "month_day (is_leap y) yday = (m, d)" by (cases "month_day (is_leap y) yday")
  note inv = day_number_inverse[OF y md]
  have yr: "0 \<le> y" "y < 10000" using assms(1,2) y by (simp_all add: year_of_def)
  define s where "s = nat (sec_of_day t)"
  have s: "s < 86400" by (simp add: s_def sec_of_day_def nat_less_iff)
  have ns: "nat (t_ns t mod nsec_per_sec) < 10 ^ 9" by (simp add: nsec_per_sec_def nat_less_iff)
  have "length (fmt2 m) = 2" "length (fmt2 (nat d)) = 2" "length (fmt2 (s div 3600)) = 2"
    "length (fmt2 (s div 60 mod 60)) = 2" "length (fmt2 (s mod 60)) = 2"
    using inv s by (auto intro!: length_fmt2)
  then show ?thesis
    using fmt_year_parse(1)[OF yr] length_fmt_frac[OF ns] length_fmt_zone[OF assms(3)]
    unfolding format_time_def Let_def y s_def[symmetric] by (simp add: md)
qed
text \<open>Days of the years 1 to 9999.\<close>

lemma year_range:
  assumes "0 \<le> n" "n < 365 * 9999" "year_yday n = (y, yday)"
  shows "1 \<le> y" "y \<le> 9999"
proof -
  define y0 where "y0 = y - 1"
  define n400 where "n400 = y0 div 400"
  define y1 where "y1 = y0 - 400 * n400"
  define n100 where "n100 = y1 div 100"
  define y2 where "y2 = y1 - 100 * n100"
  define n4 where "n4 = y2 div 4"
  define y3 where "y3 = y2 - 4 * n4"
  note yy = year_yday_correct[OF assms(3)]
  have D: "days_since_epoch y = 146097 * n400 + 36524 * n100 + 1461 * n4 + 365 * y3"
    by (simp add: days_since_epoch_def Let_def y0_def n400_def y1_def n100_def y2_def n4_def y3_def)
  have y1: "0 \<le> y1" "y1 < 400" by (simp_all add: y1_def n400_def)
  have n100: "0 \<le> n100" "n100 \<le> 3" using y1 by (auto simp: n100_def)
  have y2: "0 \<le> y2" "y2 < 100" by (simp_all add: y2_def n100_def)
  have n4: "0 \<le> n4" "n4 \<le> 24" using y2 by (auto simp: n4_def)
  have e: "y0 = 400 * n400 + 100 * n100 + 4 * n4 + y3" by (simp add: y1_def y2_def y3_def)
  have k: "yday \<le> 365" using yy(3) by (simp split: if_splits)
  have n: "days_since_epoch y + yday = n" by (rule yy(1))
  have pos: "0 \<le> y0"
  proof (rule ccontr)
    assume "\<not> 0 \<le> y0"
    then have "n400 \<le> -1" unfolding n400_def by simp
    then show False using D n k assms(1) n100 n4 e \<open>\<not> 0 \<le> y0\<close> by linarith
  qed
  then have "0 \<le> n400" by (simp add: n400_def)
  then have "365 * y0 \<le> n" using D e n n100 n4 yy(2) by linarith
  then show "1 \<le> y" "y \<le> 9999" using pos assms(2) by (simp_all add: y0_def)
qed

lemma format_time_nonempty [simp]: "format_time nano t \<noteq> []"
  by (simp add: format_time_def Let_def split: prod.split)

end
