(* ===== verification/World.thy ===== *)
theory World imports Bolt GoTime begin

text \<open>
  The mutable state of the process and the effects of its code.  The state
  proper is the database, the queue of the keyword-index channel (\<open>None\<close> while
  the channel is \<open>nil\<close>), the counters of the rate limiters and the mail sent so
  far.  The rest of \<open>world\<close> is what the code reads from outside: the readings
  \<open>time.Now()\<close> will give, in the order of the calls, the values of
  \<open>rand.Uint64()\<close>, the salts \<open>bcrypt\<close> will draw and the outcomes of sending mail.
  Reading one consumes it, so two calls of \<open>time.Now()\<close> in one handler are two
  readings, in any relation the clock gives them.

  A piece of Go code that may return an error or panic is a function of type
  \<open>'a go\<close>: \<open>Ok\<close> is a normal return, \<open>Fail\<close> the return of a non-nil error from
  a transaction body, \<open>Panic\<close> a run-time panic.  \<open>db_update\<close> and \<open>db_view\<close>
  are bbolt's managed transactions: a body that returns an error, or panics,
  leaves the database as it was, but what it sent on a channel stays sent.
  Committing is taken to succeed; I/O errors of the file system are outside the
  model, and so is what is written to the log.
\<close>

record kwindex =
  kw_author :: bytes
  kw_text :: bytes
  kw_id :: bytes
  kw_thread :: bytes

record email =
  em_From :: bytes
  em_To :: "bytes list"
  em_Subject :: bytes
  em_Text :: bytes

text \<open>A message as the SMTP client gets it: the way it is sent, the address, user,
  password and host of the authentication, and the name of the server.\<close>

record mail =
  ml_Via :: bytes
  ml_Address :: bytes
  ml_Auth :: "bytes \<times> bytes \<times> bytes"
  ml_Email :: email

record world =
  w_db :: bucket
  w_kw :: "kwindex list option"
  w_limits :: "(bytes \<times> int \<times> gtime) list"
  w_sent :: "mail list"
  w_clock :: "nat \<Rightarrow> gtime"
  w_rand :: "nat \<Rightarrow> 64 word"
  w_salt :: "nat \<Rightarrow> bytes"
  w_smtp :: "nat \<Rightarrow> err option"

datatype 'a res = Ok 'a | Fail err | Panic

type_synonym 'a go = "world \<Rightarrow> 'a res \<times> world"

type_synonym handle = "bytes list"

section \<open>Control\<close>

definition go_ret :: "'a \<Rightarrow> 'a go" where
  [go_simps]: "go_ret a w = (Ok a, w)"

definition go_fail :: "err \<Rightarrow> 'a go" where
  [go_simps]: "go_fail e w = (Fail e, w)"

definition go_panic :: "'a go" where
  [go_simps]: "go_panic w = (Panic, w)"

definition go_bind :: "'a go \<Rightarrow> ('a \<Rightarrow> 'b go) \<Rightarrow> 'b go" where
  [go_simps]: "go_bind m f w =
     (case m w of (Ok a, w') \<Rightarrow> f a w' | (Fail e, w') \<Rightarrow> (Fail e, w') | (Panic, w') \<Rightarrow> (Panic, w'))"

text \<open>\<open>x, err := m; if err != nil { return err }\<close>\<close>

definition go_try :: "(err + 'a) go \<Rightarrow> 'a go" where
  [go_simps]: "go_try m = go_bind m (\<lambda>r. case r of Inl e \<Rightarrow> go_fail e | Inr a \<Rightarrow> go_ret a)"

text \<open>A method call on a pointer that may be \<open>nil\<close>.\<close>

definition deref :: "'a option \<Rightarrow> 'a go" where
  [go_simps]: "deref p = (case p of None \<Rightarrow> go_panic | Some a \<Rightarrow> go_ret a)"

text \<open>\<open>if p == nil { return err }\<close>\<close>

definition or_fail :: "'a option \<Rightarrow> err \<Rightarrow> 'a go" where
  [go_simps]: "or_fail p e = (case p of None \<Rightarrow> go_fail e | Some a \<Rightarrow> go_ret a)"

definition lift_err :: "err + 'a \<Rightarrow> 'a go" where
  [go_simps]: "lift_err r = (case r of Inl e \<Rightarrow> go_fail e | Inr a \<Rightarrow> go_ret a)"

definition guard_err :: "bool \<Rightarrow> err \<Rightarrow> unit go" where
  [go_simps]: "guard_err b e = (if b then go_fail e else go_ret ())"

section \<open>Readings\<close>

definition time_now :: "gtime go" where
  [go_simps]: "time_now w = (Ok (w_clock w 0), w\<lparr>w_clock := \<lambda>n. w_clock w (Suc n)\<rparr>)"

definition rand_uint64 :: "64 word go" where
  [go_simps]: "rand_uint64 w = (Ok (w_rand w 0), w\<lparr>w_rand := \<lambda>n. w_rand w (Suc n)\<rparr>)"

definition read_salt :: "bytes go" where
  [go_simps]: "read_salt w = (Ok (w_salt w 0), w\<lparr>w_salt := \<lambda>n. w_salt w (Suc n)\<rparr>)"

section \<open>Bucket methods inside a transaction\<close>

definition tx_bucket :: "handle \<Rightarrow> bytes \<Rightarrow> handle option go" where
  "tx_bucket h k w = (Ok (if dbis (w_db w) (h @ [k]) then Some (h @ [k]) else None), w)"

definition tx_get :: "handle \<Rightarrow> bytes \<Rightarrow> bytes option go" where
  "tx_get h k w = (Ok (dbval (w_db w) h k), w)"

definition tx_cursor :: "handle \<Rightarrow> (bytes \<times> bytes option) list go" where
  "tx_cursor h w = (Ok (dbcur (w_db w) h), w)"

definition tx_apply :: "handle \<Rightarrow> (bucket \<Rightarrow> err + bucket) \<Rightarrow> err option go" where
  "tx_apply h f w =
     (case b_at (w_db w) h of
        None \<Rightarrow> (Panic, w)
      | Some c \<Rightarrow>
          (case f c of
             Inl e \<Rightarrow> (Ok (Some e), w)
           | Inr c' \<Rightarrow> (Ok None, w\<lparr>w_db := b_upd h (\<lambda>_. c') (w_db w)\<rparr>)))"

definition tx_put :: "handle \<Rightarrow> bytes \<Rightarrow> bytes \<Rightarrow> err option go" where
  "tx_put h k v = tx_apply h (b_put k v)"

definition tx_delete :: "handle \<Rightarrow> bytes \<Rightarrow> err option go" where
  "tx_delete h k = tx_apply h (b_delete k)"

definition tx_create_bucket :: "handle \<Rightarrow> bytes \<Rightarrow> (err + handle) go" where
  "tx_create_bucket h k =
     go_bind (tx_apply h (b_create_bucket k))
       (\<lambda>r. go_ret (case r of Some e \<Rightarrow> Inl e | None \<Rightarrow> Inr (h @ [k])))"

definition tx_create_bucket_if_not_exists :: "handle \<Rightarrow> bytes \<Rightarrow> (err + handle) go" where
  "tx_create_bucket_if_not_exists h k =
     go_bind (tx_create_bucket h k)
       (\<lambda>r. go_ret (if r = Inl ErrBucketExists then Inr (h @ [k]) else r))"

definition tx_next_sequence :: "handle \<Rightarrow> (err + 64 word) go" where
  "tx_next_sequence h w =
     (case b_at (w_db w) h of
        None \<Rightarrow> (Panic, w)
      | Some c \<Rightarrow> (case b_next_sequence c of (n, c') \<Rightarrow>
          (Ok (Inr n), w\<lparr>w_db := b_upd h (\<lambda>_. c') (w_db w)\<rparr>)))"

text \<open>\<open>return b.Put(...)\<close> and \<open>return b.Delete(...)\<close>: the error is the result.\<close>

definition return_err :: "err option go \<Rightarrow> unit go" where
  [go_simps]: "return_err m = go_bind m (\<lambda>r. case r of Some e \<Rightarrow> go_fail e | None \<Rightarrow> go_ret ())"

section \<open>Managed transactions\<close>

definition db_update :: "'a go \<Rightarrow> (err + 'a) go" where
  "db_update m w =
     (case m w of
        (Ok a, w') \<Rightarrow> (Ok (Inr a), w')
      | (Fail e, w') \<Rightarrow> (Ok (Inl e), w'\<lparr>w_db := w_db w\<rparr>)
      | (Panic, w') \<Rightarrow> (Panic, w'\<lparr>w_db := w_db w\<rparr>))"

definition db_view :: "'a go \<Rightarrow> (err + 'a) go" where
  "db_view m w =
     (case m w of
        (Ok a, w') \<Rightarrow> (Ok (Inr a), w'\<lparr>w_db := w_db w\<rparr>)
      | (Fail e, w') \<Rightarrow> (Ok (Inl e), w'\<lparr>w_db := w_db w\<rparr>)
      | (Panic, w') \<Rightarrow> (Panic, w'\<lparr>w_db := w_db w\<rparr>))"

text \<open>\<open>b.Bucket(k)\<close> whose result is used without a test.\<close>

definition tx_must :: "handle \<Rightarrow> bytes \<Rightarrow> handle go" where
  [go_simps]: "tx_must h k = go_bind (tx_bucket h k) deref"

text \<open>A call whose error result is dropped.\<close>

definition ignore_err :: "err option go \<Rightarrow> unit go" where
  [go_simps]: "ignore_err m = go_bind m (\<lambda>_. go_ret ())"

text \<open>\<open>string(b)\<close> of a possibly \<open>nil\<close> slice, and \<open>bytes.Equal(b, s)\<close>.\<close>

definition str_of :: "bytes option \<Rightarrow> bytes" where
  "str_of v = (case v of None \<Rightarrow> [] | Some s \<Rightarrow> s)"

definition bytes_equal :: "bytes option \<Rightarrow> bytes \<Rightarrow> bool" where
  "bytes_equal v s \<longleftrightarrow> str_of v = s"

lemma str_of_simps [simp]: "str_of None = []" "str_of (Some s) = s"
  by (simp_all add: str_of_def)

lemma bytes_equal_simps [simp]: "bytes_equal None s \<longleftrightarrow> s = []" "bytes_equal (Some t) s \<longleftrightarrow> t = s"
  by (auto simp: bytes_equal_def)

text \<open>Consecutive \<open>b.Put(k, v)\<close> on one bucket, the error results dropped.\<close>

fun put_fields :: "handle \<Rightarrow> (bytes \<times> bytes) list \<Rightarrow> unit go" where
  "put_fields h [] = go_ret ()"
| "put_fields h ((k, v) # kvs) = go_bind (ignore_err (tx_put h k v)) (\<lambda>_. put_fields h kvs)"

section \<open>Rules for the bucket methods\<close>

lemma b_upd_const: "b_at b h = Some c \<Longrightarrow> f c = c' \<Longrightarrow> b_upd h (\<lambda>_. c') b = b_upd h f b"
  by (induction h arbitrary: b) (auto split: option.splits)

lemma b_upd_same: "b_wf b \<Longrightarrow> b_at b h = Some c \<Longrightarrow> b_upd h (\<lambda>_. c) b = b"
proof (induction h arbitrary: b)
  case (Cons a h)
  then obtain d where d: "b_bucket b a = Some d" "b_at d h = Some c" by (auto split: option.splits)
  then have "map_of (bitems b) a = Some (Sub d)"
    by (auto simp: b_bucket_def split: option.splits bnode.splits)
  then have "al_put a (Sub d) (bitems b) = bitems b"
    by (rule al_put_get_id[OF b_wf_root[OF Cons.prems(1)]])
  moreover have "b_upd h (\<lambda>_. c) d = d" using Cons.IH d b_wf_sub[OF Cons.prems(1) d(1)] by blast
  ultimately show ?case using d(1) by (cases b) (simp add: b_insert_def)
qed simp

lemma tx_bucket_some [go_simps]: "dbis (w_db w) (h @ [k]) \<Longrightarrow> tx_bucket h k w = (Ok (Some (h @ [k])), w)"
  by (simp add: tx_bucket_def)

lemma tx_bucket_none [go_simps]: "\<not> dbis (w_db w) (h @ [k]) \<Longrightarrow> tx_bucket h k w = (Ok None, w)"
  by (simp add: tx_bucket_def)

lemmas tx_get_simp [go_simps] = tx_get_def
  and tx_cursor_simp [go_simps] = tx_cursor_def

lemma tx_put_ok [go_simps]:
  assumes "dbis (w_db w) h" "\<not> dbis (w_db w) (h @ [k])" "k \<noteq> []"
    "length k \<le> MaxKeySize" "length v \<le> MaxValueSize"
  shows "tx_put h k v w = (Ok None, w\<lparr>w_db := bput h k v (w_db w)\<rparr>)"
proof -
  obtain c where c: "b_at (w_db w) h = Some c" using assms(1) by (auto simp: dbis_def)
  have "b_put k v c = Inr (b_insert k (Leaf v) c)"
    using assms not_sub_at[OF assms(2) c] by (simp add: b_put_def)
  then show ?thesis using b_upd_const[OF c refl] c by (simp add: tx_put_def tx_apply_def bput_def)
qed

text \<open>A \<open>Put\<close> either stores the value or reports an error and changes nothing.\<close>

lemma tx_put_cases:
  assumes "dbis (w_db w) h" "\<not> dbis (w_db w) (h @ [k])"
  obtains "tx_put h k v w = (Ok None, w\<lparr>w_db := bput h k v (w_db w)\<rparr>)"
  | e where "tx_put h k v w = (Ok (Some e), w)"
proof -
  obtain c where c: "b_at (w_db w) h = Some c" using assms(1) by (auto simp: dbis_def)
  show ?thesis
  proof (cases "b_put k v c")
    case (Inl e)
    then show ?thesis using that(2) c by (simp add: tx_put_def tx_apply_def)
  next
    case (Inr c')
    then have "c' = b_insert k (Leaf v) c" by (auto simp: b_put_def split: if_splits)
    then show ?thesis using that(1) c Inr b_upd_const[OF c refl, of "b_insert k (Leaf v)"]
      by (simp add: tx_put_def tx_apply_def bput_def)
  qed
qed

lemma tx_delete_ok [go_simps]:
  assumes "b_wf (w_db w)" "dbis (w_db w) h" "\<not> dbis (w_db w) (h @ [k])"
  shows "tx_delete h k w =
    (Ok None, if dbval (w_db w) h k = None then w else w\<lparr>w_db := bdel h k (w_db w)\<rparr>)"
proof -
  obtain c where c: "b_at (w_db w) h = Some c" using assms(2) by (auto simp: dbis_def)
  have n: "b_bucket c k = None" using not_sub_at[OF assms(3) c] .
  show ?thesis
  proof (cases "map_of (bitems c) k")
    case None
    then show ?thesis
      using c b_upd_same[OF assms(1) c]
      by (simp add: tx_delete_def tx_apply_def b_delete_def dbval_def b_get_def)
  next
    case (Some x)
    then obtain v where "x = Leaf v" using n by (cases x) (auto simp: b_bucket_def)
    then show ?thesis
      using c Some b_upd_const[OF c, of "\<lambda>b. Bucket (bseq b) (al_del k (bitems b))"]
      by (simp add: tx_delete_def tx_apply_def b_delete_def dbval_def b_get_def bdel_def)
  qed
qed

lemma tx_create_bucket_ok [go_simps]:
  assumes "dbis (w_db w) h" "\<not> dbis (w_db w) (h @ [k])" "dbval (w_db w) h k = None" "k \<noteq> []"
  shows "tx_create_bucket h k w = (Ok (Inr (h @ [k])), w\<lparr>w_db := bcreate h k (w_db w)\<rparr>)"
proof -
  obtain c where c: "b_at (w_db w) h = Some c" using assms(1) by (auto simp: dbis_def)
  have "map_of (bitems c) k = None"
    using not_sub_at[OF assms(2) c] assms(3) c
    by (auto simp: b_bucket_def dbval_def b_get_def split: option.splits bnode.splits)
  then have "b_create_bucket k c = Inr (b_insert k (Sub empty_bucket) c)"
    using assms(4) by (simp add: b_create_bucket_def)
  then show ?thesis using b_upd_const[OF c refl] c
    by (simp add: tx_create_bucket_def tx_apply_def bcreate_def go_simps)
qed

lemma tx_create_bucket_exists:
  assumes "dbis (w_db w) (h @ [k])" "k \<noteq> []"
  shows "tx_create_bucket h k w = (Ok (Inl ErrBucketExists), w)"
proof -
  obtain c d where c: "b_at (w_db w) h = Some c" "b_bucket c k = Some d"
    using assms(1) by (auto simp: dbis_def b_at_append split: option.splits)
  then have "b_create_bucket k c = Inl ErrBucketExists"
    using assms(2) by (auto simp: b_create_bucket_def b_bucket_def split: option.splits bnode.splits)
  then show ?thesis using c by (simp add: tx_create_bucket_def tx_apply_def go_simps)
qed

lemma tx_create_if_ok [go_simps]:
  assumes "dbis (w_db w) h" "dbval (w_db w) h k = None" "k \<noteq> []"
  shows "tx_create_bucket_if_not_exists h k w =
    (Ok (Inr (h @ [k])),
     if dbis (w_db w) (h @ [k]) then w else w\<lparr>w_db := bcreate h k (w_db w)\<rparr>)"
proof (cases "dbis (w_db w) (h @ [k])")
  case True
  then show ?thesis
    using tx_create_bucket_exists[OF True assms(3)] by (simp add: tx_create_bucket_if_not_exists_def go_simps)
next
  case False
  then show ?thesis
    using tx_create_bucket_ok[OF assms(1) False assms(2,3)]
    by (simp add: tx_create_bucket_if_not_exists_def go_simps)
qed

lemma tx_next_sequence_ok [go_simps]:
  assumes "dbis (w_db w) h"
  shows "tx_next_sequence h w = (Ok (Inr (dbseq (w_db w) h + 1)), w\<lparr>w_db := bnext h (w_db w)\<rparr>)"
proof -
  obtain c where c: "b_at (w_db w) h = Some c" using assms(1) by (auto simp: dbis_def)
  then show ?thesis
    using b_upd_const[OF c, of "\<lambda>b. Bucket (bseq b + 1) (bitems b)"]
    by (simp add: tx_next_sequence_def b_next_sequence_def dbseq_def bnext_def)
qed

text \<open>The effect of \<open>put_fields\<close>.\<close>

definition put_all :: "handle \<Rightarrow> (bytes \<times> bytes) list \<Rightarrow> bucket \<Rightarrow> bucket" where
  "put_all h kvs b = foldl (\<lambda>b (k, v). bput h k v b) b kvs"

lemma put_all_simps:
  "put_all h [] b = b" "put_all h ((k, v) # kvs) b = put_all h kvs (bput h k v b)"
  by (simp_all add: put_all_def)

lemma put_all_flat:
  assumes "\<forall>k \<in> fst ` set kvs. \<not> dbis b (h @ [k])" "dbis b h"
  shows "dbis (put_all h kvs b) p = dbis b p \<and> dbseq (put_all h kvs b) p = dbseq b p \<and>
    dbval (put_all h kvs b) p k =
      (if p = h then (case map_of (rev kvs) k of Some v \<Rightarrow> Some v | None \<Rightarrow> dbval b p k) else dbval b p k)"
  using assms
proof (induction kvs arbitrary: b)
  case (Cons x kvs)
  obtain j v where x: "x = (j, v)" by fastforce
  then show ?case
    using Cons.IH[of "bput h j v b"] Cons.prems
    by (auto simp: put_all_simps split: option.split)
qed (simp add: put_all_simps)

lemmas dbis_put_all = put_all_flat[THEN conjunct1]
  and dbseq_put_all = put_all_flat[THEN conjunct2, THEN conjunct1]
  and dbval_put_all = put_all_flat[THEN conjunct2, THEN conjunct2]

lemma b_wf_put_all [simp]: "b_wf b \<Longrightarrow> b_wf (put_all h kvs b)"
  by (induction kvs arbitrary: b) (auto simp: put_all_simps)

text \<open>\<open>storable h b kvs\<close>: every one of these \<open>Put\<close> calls succeeds.\<close>

definition storable :: "handle \<Rightarrow> bucket \<Rightarrow> (bytes \<times> bytes) list \<Rightarrow> bool" where
  "storable h b kvs \<longleftrightarrow> dbis b h \<and>
     list_all (\<lambda>(k, v). \<not> dbis b (h @ [k]) \<and> k \<noteq> [] \<and> length k \<le> MaxKeySize \<and> length v \<le> MaxValueSize) kvs"

lemma put_fields_ok [go_simps]:
  "storable h (w_db w) kvs \<Longrightarrow> put_fields h kvs w = (Ok (), w\<lparr>w_db := put_all h kvs (w_db w)\<rparr>)"
proof (induction kvs arbitrary: w)
  case (Cons x kvs)
  obtain k v where x: "x = (k, v)" by fastforce
  have p: "tx_put h k v w = (Ok None, w\<lparr>w_db := bput h k v (w_db w)\<rparr>)"
    using Cons.prems x by (simp add: storable_def tx_put_ok)
  have "storable h (bput h k v (w_db w)) kvs"
    using Cons.prems x by (auto simp: storable_def list_all_iff)
  then show ?case using Cons.IH[of "w\<lparr>w_db := bput h k v (w_db w)\<rparr>"] x p
    by (simp add: go_simps put_all_simps)
qed (simp add: go_simps put_all_simps)

declare put_fields.simps [simp del]

section \<open>Transactions are atomic\<close>

lemma db_update_fail: "m w = (Fail e, w') \<Longrightarrow> db_update m w = (Ok (Inl e), w'\<lparr>w_db := w_db w\<rparr>)"
  by (simp add: db_update_def)

lemma db_update_cases:
  obtains (commit) a w' where "m w = (Ok a, w')" "db_update m w = (Ok (Inr a), w')"
  | (rollback) r w' where "\<And>a. r \<noteq> Ok (Inr a)" "db_update m w = (r, w')" "w_db w' = w_db w"
proof (cases "m w")
  case (Pair r w')
  then show ?thesis
    by (cases r) (use that in \<open>auto simp: db_update_def\<close>)
qed

lemma db_view_db [simp]: "w_db (snd (db_view m w)) = w_db w"
  by (auto simp: db_view_def split: prod.splits res.splits)

end
