(* ===== verification/GoText.thy ===== *)
theory GoText imports GoErr begin

text \<open>
  The text functions of Go's standard library the program calls, on bytes:
  UTF-8 decoding as \<open>range\<close> over a string and \<open>unicode/utf8\<close> do it (an invalid
  sequence is U+FFFD of width one), \<open>strings.TrimSpace\<close>, \<open>strings.Fields\<close>,
  \<open>strings.FieldsFunc\<close>, \<open>strings.Split\<close> and \<open>strings.Join\<close>, and the escaping
  functions of \<open>net/url\<close>.
\<close>

section \<open>UTF-8\<close>

definition RuneError :: nat where "RuneError = 65533"

definition in_range :: "nat \<Rightarrow> nat \<Rightarrow> char \<Rightarrow> bool" where
  "in_range lo hi c \<longleftrightarrow> lo \<le> byte c \<and> byte c \<le> hi"

text \<open>The two-, three- and four-byte forms, given the first byte's value and the bytes after it.\<close>

definition decode2 :: "nat \<Rightarrow> bytes \<Rightarrow> nat \<times> nat" where
  "decode2 b0 cs =
     (case cs of c1 # _ \<Rightarrow>
        if in_range 0x80 0xBF c1 then ((b0 - 0xC0) * 64 + (byte c1 - 0x80), 2) else (RuneError, 1)
      | _ \<Rightarrow> (RuneError, 1))"

definition decode3 :: "nat \<Rightarrow> bytes \<Rightarrow> nat \<times> nat" where
  "decode3 b0 cs =
     (case cs of c1 # c2 # _ \<Rightarrow>
        if in_range (if b0 = 0xE0 then 0xA0 else 0x80) (if b0 = 0xED then 0x9F else 0xBF) c1
           \<and> in_range 0x80 0xBF c2
        then ((b0 - 0xE0) * 4096 + (byte c1 - 0x80) * 64 + (byte c2 - 0x80), 3)
        else (RuneError, 1)
      | _ \<Rightarrow> (RuneError, 1))"

definition decode4 :: "nat \<Rightarrow> bytes \<Rightarrow> nat \<times> nat" where
  "decode4 b0 cs =
     (case cs of c1 # c2 # c3 # _ \<Rightarrow>
        if in_range (if b0 = 0xF0 then 0x90 else 0x80) (if b0 = 0xF4 then 0x8F else 0xBF) c1
           \<and> in_range 0x80 0xBF c2 \<and> in_range 0x80 0xBF c3
        then ((b0 - 0xF0) * 262144 + (byte c1 - 0x80) * 4096 + (byte c2 - 0x80) * 64 + (byte c3 - 0x80), 4)
        else (RuneError, 1)
      | _ \<Rightarrow> (RuneError, 1))"

fun decode_rune :: "bytes \<Rightarrow> nat \<times> nat" where
  "decode_rune [] = (RuneError, 0)"
| "decode_rune (c0 # cs) =
     (let b0 = byte c0 in
      if b0 < 0x80 then (b0, 1)
      else if b0 < 0xC2 then (RuneError, 1)
      else if b0 < 0xE0 then decode2 b0 cs
      else if b0 < 0xF0 then decode3 b0 cs
      else if b0 < 0xF5 then decode4 b0 cs
      else (RuneError, 1))"

lemma decode_width:
  "0 < snd (decode2 b cs) \<and> snd (decode2 b cs) \<le> Suc (length cs)"
  "0 < snd (decode3 b cs) \<and> snd (decode3 b cs) \<le> Suc (length cs)"
  "0 < snd (decode4 b cs) \<and> snd (decode4 b cs) \<le> Suc (length cs)"
  by (simp_all add: decode2_def decode3_def decode4_def split: list.split)

lemma decode2_high: "0xC2 \<le> b \<Longrightarrow> 0x80 \<le> fst (decode2 b cs)"
  by (cases cs) (auto simp: decode2_def RuneError_def)

lemma decode3_high:
  assumes "0xE0 \<le> b"
  shows "0x80 \<le> fst (decode3 b cs)"
proof (cases "b = 0xE0")
  case True
  then show ?thesis by (simp add: decode3_def RuneError_def in_range_def split: list.split) linarith
next
  case False
  then obtain j where "b = 225 + j" using assms le_Suc_ex[of 225 b] by auto
  then show ?thesis by (simp add: decode3_def RuneError_def split: list.split)
qed

lemma decode4_high:
  assumes "0xF0 \<le> b"
  shows "0x80 \<le> fst (decode4 b cs)"
proof (cases "b = 0xF0")
  case True
  then show ?thesis by (simp add: decode4_def RuneError_def in_range_def split: list.split) linarith
next
  case False
  then obtain j where "b = 241 + j" using assms le_Suc_ex[of 241 b] by auto
  then show ?thesis by (simp add: decode4_def RuneError_def split: list.split)
qed

lemma decode_rune_width: "s \<noteq> [] \<Longrightarrow> 0 < snd (decode_rune s)"
  by (cases s) (simp_all add: Let_def decode_width)

lemma decode_rune_fits: "snd (decode_rune s) \<le> length s"
  by (cases s) (simp_all add: Let_def decode_width)

lemma decode_rune_ascii: "byte c < 0x80 \<Longrightarrow> decode_rune (c # cs) = (byte c, 1)"
  by simp

lemma decode_rune_high: "0x80 \<le> byte c \<Longrightarrow> 0x80 \<le> fst (decode_rune (c # cs))"
  by (simp add: Let_def RuneError_def decode2_high decode3_high decode4_high)

declare decode_rune.simps [simp del]

function runes :: "bytes \<Rightarrow> nat list" where
  "runes s =
     (if s = [] then []
      else fst (decode_rune s) # runes (drop (snd (decode_rune s)) s))"
  by pat_completeness auto
termination
  by (relation "measure length") (use decode_rune_width in auto)

declare runes.simps [simp del]

lemma runes_Nil [simp]: "runes [] = []"
  by (subst runes.simps) simp

lemma runes_ascii: "byte c < 0x80 \<Longrightarrow> runes (c # s) = byte c # runes s"
  by (subst runes.simps) (simp add: decode_rune_ascii)

text \<open>\<open>utf8.DecodeLastRune\<close>: the start of the last rune is looked for at most four bytes back.\<close>

definition rune_start :: "char \<Rightarrow> bool" where
  "rune_start c \<longleftrightarrow> \<not> in_range 0x80 0xBF c"

definition decode_last_rune :: "bytes \<Rightarrow> nat \<times> nat" where
  "decode_last_rune s =
     (let n = length s in
      if n = 0 then (RuneError, 0)
      else if byte (s ! (n - 1)) < 0x80 then (byte (s ! (n - 1)), 1)
      else
        (let back = length (takeWhile (\<lambda>c. \<not> rune_start c) (take 3 (tl (rev s))));
             start = n - (2 + back);
             (r, size) = decode_rune (drop start s)
         in if start + size \<noteq> n then (RuneError, 1) else (r, size)))"

section \<open>White space, trimming and splitting\<close>

definition is_space :: "nat \<Rightarrow> bool" where
  "is_space r \<longleftrightarrow>
     r \<in> {9, 10, 11, 12, 13, 32, 0x85, 0xA0, 0x1680, 0x2028, 0x2029, 0x202F, 0x205F, 0x3000}
     \<or> (0x2000 \<le> r \<and> r \<le> 0x200A)"

lemma is_space_code [code]:
  "is_space r \<longleftrightarrow>
     list_ex (\<lambda>x. x = r) [9, 10, 11, 12, 13, 32, 0x85, 0xA0, 0x1680, 0x2028, 0x2029, 0x202F, 0x205F, 0x3000]
     \<or> (0x2000 \<le> r \<and> r \<le> 0x200A)"
  by (auto simp: is_space_def)

function trim_left :: "bytes \<Rightarrow> bytes" where
  "trim_left s =
     (if s \<noteq> [] \<and> is_space (fst (decode_rune s)) then trim_left (drop (snd (decode_rune s)) s) else s)"
  by pat_completeness auto
termination
  by (relation "measure length") (use decode_rune_width in auto)

function trim_right :: "bytes \<Rightarrow> bytes" where
  "trim_right s =
     (if s \<noteq> [] \<and> 0 < snd (decode_last_rune s) \<and> is_space (fst (decode_last_rune s))
      then trim_right (take (length s - snd (decode_last_rune s)) s) else s)"
  by pat_completeness auto
termination
  by (relation "measure length") auto

declare trim_left.simps [simp del] trim_right.simps [simp del]

definition trim_space :: "bytes \<Rightarrow> bytes" where
  "trim_space s = trim_right (trim_left s)"

text \<open>\<open>strings.FieldsFunc\<close>: the maximal runs of runes that do not satisfy the predicate.\<close>

function fields_acc :: "(nat \<Rightarrow> bool) \<Rightarrow> bytes \<Rightarrow> bytes \<Rightarrow> bytes list" where
  "fields_acc p acc s =
     (if s = [] then (if acc = [] then [] else [acc])
      else
        (let (r, n) = decode_rune s in
         if p r then (if acc = [] then [] else [acc]) @ fields_acc p [] (drop n s)
         else fields_acc p (acc @ take n s) (drop n s)))"
  by pat_completeness auto
termination
  by (relation "measure (\<lambda>(p, acc, s). length s)")
     (auto, (metis decode_rune_width diff_less length_greater_0_conv snd_conv)+)

declare fields_acc.simps [simp del]

definition fields_func :: "(nat \<Rightarrow> bool) \<Rightarrow> bytes \<Rightarrow> bytes list" where
  "fields_func p s = fields_acc p [] s"

definition strings_fields :: "bytes \<Rightarrow> bytes list" where
  "strings_fields s = fields_func is_space s"

text \<open>The path split of every handler: \<open>FieldsFunc(path, r == '/')\<close>.\<close>

definition path_parts :: "bytes \<Rightarrow> bytes list" where
  "path_parts s = fields_func (\<lambda>r. r = 47) s"

fun split_byte :: "char \<Rightarrow> bytes \<Rightarrow> bytes list" where
  "split_byte d [] = [[]]"
| "split_byte d (c # cs) =
     (if c = d then [] # split_byte d cs
      else case split_byte d cs of [] \<Rightarrow> [[c]] | x # xs \<Rightarrow> (c # x) # xs)"

fun join :: "bytes \<Rightarrow> bytes list \<Rightarrow> bytes" where
  "join sep [] = []"
| "join sep [x] = x"
| "join sep (x # y # xs) = x @ sep @ join sep (y # xs)"

lemma trim_left_suffix: "\<exists>p. s = p @ trim_left s"
proof (induction s rule: trim_left.induct)
  case (1 s)
  show ?case
  proof (cases "s \<noteq> [] \<and> is_space (fst (decode_rune s))")
    case True
    then obtain p where "drop (snd (decode_rune s)) s = p @ trim_left (drop (snd (decode_rune s)) s)"
      using 1 by blast
    moreover have "trim_left s = trim_left (drop (snd (decode_rune s)) s)"
      using True by (subst trim_left.simps) simp
    ultimately have "s = (take (snd (decode_rune s)) s @ p) @ trim_left s"
      by (metis append.assoc append_take_drop_id)
    then show ?thesis by blast
  qed (subst trim_left.simps, auto)
qed

lemma trim_right_prefix: "\<exists>q. s = trim_right s @ q"
proof (induction s rule: trim_right.induct)
  case (1 s)
  let ?t = "take (length s - snd (decode_last_rune s)) s"
  show ?case
  proof (cases "s \<noteq> [] \<and> 0 < snd (decode_last_rune s) \<and> is_space (fst (decode_last_rune s))")
    case True
    then obtain q where q: "?t = trim_right ?t @ q" using 1 by blast
    have "s = ?t @ drop (length s - snd (decode_last_rune s)) s" by simp
    also have "\<dots> = trim_right ?t @ q @ drop (length s - snd (decode_last_rune s)) s"
      using q by (metis append.assoc)
    finally show ?thesis using True by (metis trim_right.simps)
  qed (subst trim_right.simps, auto)
qed

lemma trim_space_sub: "\<exists>p q. s = p @ trim_space s @ q"
  by (metis append.assoc trim_left_suffix trim_right_prefix trim_space_def)

lemma set_trim_space: "set (trim_space s) \<subseteq> set s"
  using trim_space_sub[of s] by (metis Un_iff set_append subsetI)

lemma length_trim_space: "length (trim_space s) \<le> length s"
  using trim_space_sub[of s] by (metis le_add1 le_add2 le_trans length_append)

lemma fields_acc_nonempty: "[] \<notin> set (fields_acc p acc s)"
proof (induction p acc s rule: fields_acc.induct)
  case (1 p acc s)
  show ?case
    by (subst fields_acc.simps) (use 1 in \<open>auto split: prod.splits\<close>)
qed

lemma fields_func_nonempty [simp]: "[] \<notin> set (fields_func p s)"
  by (simp add: fields_func_def fields_acc_nonempty)

lemma path_parts_nonempty [simp]: "[] \<notin> set (path_parts s)"
  by (simp add: path_parts_def)

lemma fields_acc_length: "x \<in> set (fields_acc p acc s) \<Longrightarrow> length x \<le> length acc + length s"
proof (induction p acc s rule: fields_acc.induct)
  case (1 p acc s)
  show ?case
  proof (cases "s = []")
    case True
    then show ?thesis using 1(3) by (subst (asm) fields_acc.simps) (auto split: if_splits)
  next
    case False
    obtain r n where d: "decode_rune s = (r, n)" by fastforce
    have n: "n \<le> length s" using decode_rune_fits[of s] d by simp
    show ?thesis
    proof (cases "p r")
      case True
      then have "x = acc \<or> x \<in> set (fields_acc p [] (drop n s))"
        using 1(3) False d by (subst (asm) fields_acc.simps) (auto split: if_splits)
      then show ?thesis using 1(1)[OF False d[symmetric] refl True] by auto
    next
      case F: False
      then have "x \<in> set (fields_acc p (acc @ take n s) (drop n s))"
        using 1(3) False d by (subst (asm) fields_acc.simps) auto
      then show ?thesis using 1(2)[OF False d[symmetric] refl F] n by auto
    qed
  qed
qed

lemma path_parts_length: "x \<in> set (path_parts s) \<Longrightarrow> length x \<le> length s"
  using fields_acc_length[of x _ "[]" s] by (simp add: path_parts_def fields_func_def)

lemma decode_tail_high:
  "x \<in> set (take (snd (decode2 b cs) - 1) cs) \<Longrightarrow> 0x80 \<le> byte x"
  "x \<in> set (take (snd (decode3 b cs) - 1) cs) \<Longrightarrow> 0x80 \<le> byte x"
  "x \<in> set (take (snd (decode4 b cs) - 1) cs) \<Longrightarrow> 0x80 \<le> byte x"
  by (auto simp: decode2_def decode3_def decode4_def in_range_def split: list.splits if_splits)

lemma decode_taken_high:
  assumes "0x80 \<le> byte c" "x \<in> set (take (snd (decode_rune (c # cs))) (c # cs))"
  shows "0x80 \<le> byte x"
proof (cases "x = c")
  case False
  then have "x \<in> set (take (snd (decode_rune (c # cs)) - 1) cs)"
    using assms(2) by (cases "snd (decode_rune (c # cs))") auto
  then show ?thesis using assms(1) decode_tail_high[of x "byte c" cs]
    by (auto simp: decode_rune.simps Let_def split: if_splits)
qed (use assms in simp)

lemma decode_taken_ascii:
  assumes "x \<in> set (take (snd (decode_rune s)) s)" "byte x < 0x80"
  shows "fst (decode_rune s) = byte x"
proof (cases s)
  case (Cons c cs)
  show ?thesis
  proof (cases "byte c < 0x80")
    case True
    then show ?thesis using assms(1) Cons by (simp add: decode_rune_ascii)
  next
    case False
    then show ?thesis using decode_taken_high[of c x cs] assms Cons by simp
  qed
qed (use assms in simp)

text \<open>An ASCII separator does not occur in the pieces.\<close>

lemma fields_acc_free: "byte d < 0x80 \<Longrightarrow> p (byte d) \<Longrightarrow> d \<notin> set acc \<Longrightarrow> x \<in> set (fields_acc p acc s) \<Longrightarrow> d \<notin> set x"
proof (induction p acc s rule: fields_acc.induct)
  case (1 p acc s)
  show ?case
  proof (cases "s = []")
    case True
    then show ?thesis using 1(5,6) by (subst (asm) fields_acc.simps) (auto split: if_splits)
  next
    case False
    obtain r n where d: "decode_rune s = (r, n)" by fastforce
    show ?thesis
    proof (cases "p r")
      case True
      then have "x = acc \<or> x \<in> set (fields_acc p [] (drop n s))"
        using 1(6) False d by (subst (asm) fields_acc.simps) (auto split: if_splits)
      then show ?thesis using 1(1)[OF False d[symmetric] refl True] 1(3-5) by auto
    next
      case F: False
      have "d \<notin> set (take n s)" using decode_taken_ascii[of d s] d 1(3,4) F by auto
      moreover have "x \<in> set (fields_acc p (acc @ take n s) (drop n s))"
        using 1(6) False d F by (subst (asm) fields_acc.simps) auto
      ultimately show ?thesis using 1(2)[OF False d[symmetric] refl F] 1(3-5) by auto
    qed
  qed
qed

lemma fields_func_free: "byte d < 0x80 \<Longrightarrow> p (byte d) \<Longrightarrow> x \<in> set (fields_func p s) \<Longrightarrow> d \<notin> set x"
  using fields_acc_free[of d p "[]"] by (simp add: fields_func_def)

text \<open>Splitting at an ASCII byte needs no decoding: the pieces are those between the bytes.\<close>

lemma split_byte_not_Nil [simp]: "split_byte d s \<noteq> []"
  by (cases s) (auto split: list.splits)

lemma split_byte_prefix:
  "d \<notin> set u \<Longrightarrow> split_byte d (u @ v) = (u @ hd (split_byte d v)) # tl (split_byte d v)"
  by (induction u) (auto split: list.splits)

lemma fields_acc_split:
  assumes "byte d < 0x80"
  shows "p = (\<lambda>r. r = byte d) \<Longrightarrow>
    fields_acc p acc s = filter (\<lambda>x. x \<noteq> []) ((acc @ hd (split_byte d s)) # tl (split_byte d s))"
proof (induction p acc s rule: fields_acc.induct)
  case (1 p acc s)
  show ?case
  proof (cases "s = []")
    case True
    then show ?thesis by (subst fields_acc.simps) simp
  next
    case False
    obtain r n where dr: "decode_rune s = (r, n)" by fastforce
    obtain c cs where s: "s = c # cs" using False by (cases s) auto
    show ?thesis
    proof (cases "p r")
      case True
      then have r: "r = byte d" using 1(3) by simp
      have "byte c < 0x80" using decode_rune_high[of c cs] dr s r assms by (cases "byte c < 0x80") auto
      then have c: "c = d" "n = 1" using decode_rune_ascii[of c cs] dr s r byte_inj[of c d] by auto
      have "fields_acc p acc s = (if acc = [] then [] else [acc]) @ fields_acc p [] cs"
        using s dr True c by (subst fields_acc.simps) simp
      moreover have "fields_acc p [] cs = filter (\<lambda>x. x \<noteq> []) (split_byte d cs)"
        using 1(1)[OF False dr[symmetric] refl True 1(3)] s c(2) by simp
      ultimately show ?thesis using s c by simp
    next
      case F: False
      have n: "d \<notin> set (take n s)" using decode_taken_ascii[of d s] dr assms F 1(3) by auto
      have "split_byte d s = (take n s @ hd (split_byte d (drop n s))) # tl (split_byte d (drop n s))"
        using split_byte_prefix[OF n, of "drop n s"] by simp
      moreover have "fields_acc p acc s = fields_acc p (acc @ take n s) (drop n s)"
        using False dr F by (subst fields_acc.simps) simp
      ultimately show ?thesis using 1(2)[OF False dr[symmetric] refl F 1(3)] by simp
    qed
  qed
qed

lemma fields_func_split:
  assumes "byte d < 0x80"
  shows "fields_func (\<lambda>r. r = byte d) s = filter (\<lambda>x. x \<noteq> []) (split_byte d s)"
  using fields_acc_split[OF assms refl, of "[]" s] by (simp add: fields_func_def)

lemma path_parts_split: "path_parts s = filter (\<lambda>x. x \<noteq> []) (split_byte CHR ''/'' s)"
  using fields_func_split[of "CHR ''/''" s] by (simp add: path_parts_def byte_def)

lemma split_byte_join:
  "ps \<noteq> [] \<Longrightarrow> \<forall>p \<in> set ps. d \<notin> set p \<Longrightarrow> split_byte d (join [d] ps @ d # r) = ps @ split_byte d r"
proof (induction "[d]" ps rule: join.induct)
  case (2 x)
  then show ?case using split_byte_prefix[of d x "d # r"] by simp
next
  case (3 x y xs)
  then show ?case using split_byte_prefix[of d x "d # join [d] (y # xs) @ d # r"] by simp
qed simp

text \<open>Parts without slashes come back from the path they are joined to.\<close>

lemma path_parts_join:
  assumes "\<forall>p \<in> set ps. CHR ''/'' \<notin> set p \<and> p \<noteq> []" "ps \<noteq> []"
  shows "path_parts (''/'' @ join ''/'' ps @ ''/'') = ps"
  using assms split_byte_join[of ps "CHR ''/''" "[]"] by (simp add: path_parts_split filter_id_conv)

lemma path_parts_free: "p \<in> set (path_parts s) \<Longrightarrow> CHR ''/'' \<notin> set p \<and> p \<noteq> []"
  using fields_func_free[of "CHR ''/''" "\<lambda>r. r = 47" p s] path_parts_nonempty[of s]
  by (auto simp: path_parts_def byte_def)

section \<open>URL escaping\<close>

definition hex_val :: "char \<Rightarrow> nat option" where
  "hex_val c =
     (if 48 \<le> byte c \<and> byte c \<le> 57 then Some (byte c - 48)
      else if 97 \<le> byte c \<and> byte c \<le> 102 then Some (byte c - 87)
      else if 65 \<le> byte c \<and> byte c \<le> 70 then Some (byte c - 55)
      else None)"

text \<open>\<open>url.unescape\<close>; the flag says whether \<open>+\<close> is a space (query mode).\<close>

fun unescape :: "bool \<Rightarrow> bytes \<Rightarrow> err + bytes" where
  "unescape q [] = Inr []"
| "unescape q (c # s) =
     (if c = CHR ''%'' then
        (case s of
           a # b # r \<Rightarrow>
             (case (hex_val a, hex_val b) of
                (Some x, Some y) \<Rightarrow>
                  (case unescape q r of
                     Inl e \<Rightarrow> Inl e
                   | Inr t \<Rightarrow> Inr (char_of (16 * x + y) # t))
              | _ \<Rightarrow> Inl (EscapeError (take 3 (c # s))))
         | _ \<Rightarrow> Inl (EscapeError (take 3 (c # s))))
      else
        (case unescape q s of
           Inl e \<Rightarrow> Inl e
         | Inr t \<Rightarrow> Inr ((if c = CHR ''+'' \<and> q then CHR '' '' else c) # t)))"

definition query_unescape :: "bytes \<Rightarrow> err + bytes" where
  "query_unescape s = unescape True s"

definition path_unescape :: "bytes \<Rightarrow> err + bytes" where
  "path_unescape s = unescape False s"

definition is_alnum :: "char \<Rightarrow> bool" where
  "is_alnum c \<longleftrightarrow> (48 \<le> byte c \<and> byte c \<le> 57) \<or> (65 \<le> byte c \<and> byte c \<le> 90) \<or> (97 \<le> byte c \<and> byte c \<le> 122)"

definition path_keeps :: "char \<Rightarrow> bool" where
  "path_keeps c \<longleftrightarrow> is_alnum c \<or> c \<in> set ''-_.~$&+:=@''"

definition upper_hex :: "nat \<Rightarrow> char" where
  "upper_hex d = ''0123456789ABCDEF'' ! d"

definition path_escape :: "bytes \<Rightarrow> bytes" where
  "path_escape s = concat (map (\<lambda>c. if path_keeps c then [c]
      else [CHR ''%'', upper_hex (byte c div 16), upper_hex (byte c mod 16)]) s)"

lemma hex_val_upper: "d < 16 \<Longrightarrow> hex_val (upper_hex d) = Some d"
proof -
  have "\<forall>d \<in> set [0..<16]. hex_val (upper_hex d) = Some d" by code_simp
  then show "d < 16 \<Longrightarrow> hex_val (upper_hex d) = Some d" by simp
qed

lemma path_keeps_not_percent: "\<not> path_keeps CHR ''%''"
  by (simp add: path_keeps_def is_alnum_def byte_def)

lemma char_of_byte [simp]: "char_of (byte c) = c"
  by (simp add: byte_def)

lemma path_unescape_escape: "path_unescape (path_escape s) = Inr s"
  unfolding path_unescape_def path_escape_def
proof (induction s)
  case (Cons c s)
  have "16 * (byte c div 16) + byte c mod 16 = byte c" by presburger
  moreover have "byte c div 16 < 16" using byte_bound[of c] by (simp add: less_mult_imp_div_less)
  ultimately show ?case
    using Cons path_keeps_not_percent by (auto simp: hex_val_upper)
qed simp

lemma length_unescape: "unescape q s = Inr t \<Longrightarrow> length t \<le> length s"
proof (induction q s arbitrary: t rule: unescape.induct)
  case (2 q c s)
  show ?case
  proof (cases "c = CHR ''%''")
    case True
    then show ?thesis
      using 2 by (fastforce split: list.splits option.splits sum.splits)
  next
    case False
    then show ?thesis using 2 by (auto split: sum.splits)
  qed
qed simp

end
