(* ===== verification/Gemini.thy ===== *)
theory Gemini imports GoText begin

text \<open>
  The Gemini library's data the handlers build
  (\<open>vendor/codeberg.org/FiskFan1999/gemini\<close>): status codes, responses and their
  bytes on the wire, the line builders, and the path normalisation the server
  applies to a request before the handler sees it.
\<close>

datatype status =
    Input | SensitiveInput | Success | RedirectTemporary | RedirectPermanent
  | TemporaryFailure | ServerUnavailable | CGIError | ProxyError | SlowDown
  | PermanentFailure | NotFoundStatus | Gone | ProxyRequestRefused | BadRequest
  | ClientCertificateRequired | CertificateNotAuthorised | CertificateNotValid

fun status_code :: "status \<Rightarrow> nat" where
  "status_code Input = 10"
| "status_code SensitiveInput = 11"
| "status_code Success = 20"
| "status_code RedirectTemporary = 30"
| "status_code RedirectPermanent = 31"
| "status_code TemporaryFailure = 40"
| "status_code ServerUnavailable = 41"
| "status_code CGIError = 42"
| "status_code ProxyError = 43"
| "status_code SlowDown = 44"
| "status_code PermanentFailure = 50"
| "status_code NotFoundStatus = 51"
| "status_code Gone = 52"
| "status_code ProxyRequestRefused = 53"
| "status_code BadRequest = 59"
| "status_code ClientCertificateRequired = 60"
| "status_code CertificateNotAuthorised = 61"
| "status_code CertificateNotValid = 62"

type_synonym lines = "bytes list"

datatype response = ResponseFormat status bytes lines | ResponsePlain bytes

definition Response :: "status \<Rightarrow> bytes \<Rightarrow> response" where
  "Response s mime = ResponseFormat s mime []"

definition ErrorResponse :: "status \<Rightarrow> err \<Rightarrow> response" where
  "ErrorResponse s e = ResponseFormat s (err_msg e) []"

definition crlf :: bytes where "crlf = [CHR 0x0D, CHR 0x0A]"

fun response_bytes :: "response \<Rightarrow> bytes" where
  "response_bytes (ResponseFormat s mime ls) =
     fmt_d (status_code s) @ '' '' @ mime @ crlf @ concat (map (\<lambda>l. l @ crlf) ls)"
| "response_bytes (ResponsePlain b) = b"

fun resp_status :: "response \<Rightarrow> status option" where
  "resp_status (ResponseFormat s mime ls) = Some s"
| "resp_status (ResponsePlain b) = None"

section \<open>Line builders\<close>

definition LinkPrefix :: bytes where "LinkPrefix = ''=> ''"
definition HeaderPrefix :: bytes where "HeaderPrefix = ''# ''"
definition Header2Prefix :: bytes where "Header2Prefix = ''## ''"
definition Header3Prefix :: bytes where "Header3Prefix = ''### ''"
definition QuotePrefix :: bytes where "QuotePrefix = ''> ''"

definition line_header :: "nat \<Rightarrow> bytes \<Rightarrow> lines" where
  "line_header level s =
     [(if level = 2 then Header2Prefix else if level = 3 then Header3Prefix else HeaderPrefix) @ s]"

definition line_link :: "bytes \<Rightarrow> lines" where
  "line_link a = [LinkPrefix @ a]"

definition line_link_desc :: "bytes \<Rightarrow> bytes \<Rightarrow> lines" where
  "line_link_desc a d = [LinkPrefix @ a @ '' '' @ d]"

definition line_quote :: "bytes \<Rightarrow> lines" where
  "line_quote q = map (\<lambda>l. QuotePrefix @ trim_space l) (split_byte CHR 0x0A q)"

lemma split_byte_free: "\<forall>l \<in> set (split_byte d s). d \<notin> set l"
  by (induction d s rule: split_byte.induct) (auto split: list.splits)

text \<open>A quoted text is only ever quote lines: no line of it can start another element.\<close>

lemma line_quote_lines:
  assumes "l \<in> set (line_quote q)"
  shows "\<exists>t. l = QuotePrefix @ t \<and> CHR 0x0A \<notin> set t"
proof -
  obtain x where x: "x \<in> set (split_byte CHR 0x0A q)" "l = QuotePrefix @ trim_space x"
    using assms by (auto simp: line_quote_def)
  then have "CHR 0x0A \<notin> set x" using split_byte_free by blast
  then show ?thesis using x(2) set_trim_space by blast
qed

section \<open>Path normalisation\<close>

fun normalize_parts :: "bytes list \<Rightarrow> bytes list \<Rightarrow> bytes list" where
  "normalize_parts acc [] = acc"
| "normalize_parts acc (p # ps) =
     (if p = ''..'' then normalize_parts (if acc = [] then [] else butlast acc) ps
      else if p = ''.'' then normalize_parts acc ps
      else normalize_parts (acc @ [p]) ps)"

definition normalize_path :: "bytes \<Rightarrow> bytes" where
  "normalize_path path =
     (let ps = normalize_parts [] (path_parts path)
      in if ps = [] then ''/'' else ''/'' @ join ''/'' ps @ ''/'')"

lemma set_normalize_parts:
  "set (normalize_parts acc ps) \<subseteq> set acc \<union> {p \<in> set ps. p \<noteq> ''.'' \<and> p \<noteq> ''..''}"
proof (induction acc ps rule: normalize_parts.induct)
  case (2 acc p ps)
  have "set (butlast acc) \<subseteq> set acc" by (auto dest: in_set_butlastD)
  then show ?case using 2 by (cases "p = ''..''"; cases "p = ''.''"; cases "acc = []") auto
qed simp

lemma normalize_parts_clean:
  "''.'' \<notin> set (normalize_parts [] ps) \<and> ''..'' \<notin> set (normalize_parts [] ps)"
  using set_normalize_parts[of "[]" ps] by auto

text \<open>Normalising.\<close>

lemma normalize_parts_id: "\<forall>p \<in> set ps. p \<noteq> ''.'' \<and> p \<noteq> ''..'' \<Longrightarrow> normalize_parts acc ps = acc @ ps"
  by (induction acc ps rule: normalize_parts.induct) auto

text \<open>
  The path a handler is given is canonical: it has the parts of the request's path with \<open>.\<close> dropped and
  \<open>..\<close> taking back one part, begins and ends with one slash, and normalising it again changes nothing.
\<close>
theorem normalized_path:
  "let ps = normalize_parts [] (path_parts path) in
     path_parts (normalize_path path) = ps \<and> ''.'' \<notin> set ps \<and> ''..'' \<notin> set ps
     \<and> normalize_path (normalize_path path) = normalize_path path"
proof -
  let ?ps = "normalize_parts [] (path_parts path)"
  have np: "normalize_path path = (if ?ps = [] then ''/'' else ''/'' @ join ''/'' ?ps @ ''/'')"
    by (simp add: normalize_path_def Let_def)
  have c: "''.'' \<notin> set ?ps" "''..'' \<notin> set ?ps" using normalize_parts_clean by auto
  have "\<forall>p \<in> set ?ps. CHR ''/'' \<notin> set p \<and> p \<noteq> []"
    using set_normalize_parts[of "[]" "path_parts path"] path_parts_free by fastforce
  moreover have "path_parts ''/'' = []" by code_simp
  ultimately have parts: "path_parts (normalize_path path) = ?ps"
    unfolding np using path_parts_join[of ?ps] by (cases "?ps = []") simp_all
  have "normalize_parts [] ?ps = ?ps" using normalize_parts_id[of ?ps "[]"] c by fastforce
  then have "normalize_path (normalize_path path) = normalize_path path"
    unfolding normalize_path_def[of "normalize_path path"] parts by (simp add: np Let_def)
  then show ?thesis using c parts by (simp add: Let_def)
qed

end
