(* ===== verification/Priviledge.thy ===== *)
theory Priviledge imports GoNum begin

text \<open>
  \<open>userPriviledge.go\<close> and \<open>userpriviledge_string.go\<close>: priviledge levels as
  \<open>uint8\<close> values, their order, their database text and their printed names.
\<close>

type_synonym UserPriviledge = "8 word"

definition User :: UserPriviledge where "User = 0"
definition Mod :: UserPriviledge where "Mod = 1"
definition Admin :: UserPriviledge where "Admin = 2"

definition Is :: "UserPriviledge \<Rightarrow> UserPriviledge \<Rightarrow> bool" where
  "Is u i \<longleftrightarrow> i \<le> u"

definition Write :: "UserPriviledge \<Rightarrow> bytes" where
  "Write u = fmt_d (unat u)"

definition GetUserPriviledge :: "bytes \<Rightarrow> UserPriviledge" where
  "GetUserPriviledge u =
     (case parse_uint 8 u of None \<Rightarrow> 0 | Some ui \<Rightarrow> of_nat ui)"

definition UserPriviledge_name :: bytes where
  "UserPriviledge_name = ''UserModAdmin''"

definition UserPriviledge_index :: "nat list" where
  "UserPriviledge_index = [0, 4, 7, 12]"

definition priv_string :: "UserPriviledge \<Rightarrow> bytes" where
  "priv_string i =
     (if length UserPriviledge_index - 1 \<le> unat i
      then ''UserPriviledge('' @ fmt_int (int (unat i)) @ '')''
      else (let a = UserPriviledge_index ! unat i; b = UserPriviledge_index ! (unat i + 1)
            in take (b - a) (drop a UserPriviledge_name)))"

definition DisplayUsername :: "bytes \<Rightarrow> UserPriviledge \<Rightarrow> bytes" where
  "DisplayUsername username priv =
     (if priv \<noteq> User then ''['' @ priv_string priv @ '']'' else []) @ username"

lemma Is_refl [simp]: "Is u u"
  by (simp add: Is_def)

lemma Is_trans: "Is u v \<Longrightarrow> Is v x \<Longrightarrow> Is u x"
  by (simp add: Is_def)

lemma Is_User [simp]: "Is u User"
  by (simp add: Is_def User_def)

lemma priv_string_names: "priv_string User = ''User'' \<and> priv_string Mod = ''Mod'' \<and> priv_string Admin = ''Admin''"
  by (simp add: priv_string_def UserPriviledge_index_def UserPriviledge_name_def User_def Mod_def Admin_def)

lemma length_priv_string: "length (priv_string p) \<le> 20"
proof -
  have "unat p < 2 ^ LENGTH(8)" by (rule unsigned_less)
  then have "unat p < 10 ^ 3" by simp
  then have "length (fmt_int (int (unat p))) \<le> 3" using length_fmt_d[of "unat p" 3] by (simp add: fmt_int_def)
  moreover have "length (take m (drop n UserPriviledge_name)) \<le> 20" for m n by (simp add: UserPriviledge_name_def)
  ultimately show ?thesis
    unfolding priv_string_def Let_def by (cases "length UserPriviledge_index - 1 \<le> unat p") simp_all
qed

end
