(* ===== verification/Config.thy ===== *)
theory Config imports Priviledge GoErr begin

text \<open>
  \<open>forums.go\<close>, \<open>config.go\<close> and the configuration look-ups of \<open>threads.go\<close> and
  \<open>subforumIndex.go\<close>.  Reading the file and parsing TOML are outside the
  model: \<open>LoadConfig\<close> takes the reader and the parser as arguments, and \<open>check_config\<close>
  is what it does with the parsed structure.
\<close>

record subforum =
  sf_Name :: bytes
  sf_ID :: bytes
  sf_ThreadPriviledge :: UserPriviledge
  sf_ReplyPriviledge :: UserPriviledge

record forum =
  f_Name :: bytes
  f_Subforum :: "subforum list"

record config_smtp =
  smtp_Enabled :: bool
  smtp_Type :: bytes
  smtp_From :: bytes
  smtp_Address :: bytes
  smtp_Port :: bytes
  smtp_User :: bytes
  smtp_Pass :: bytes

record config_file_saver =
  fs_Enabled :: bool
  fs_Prefix :: bytes

record config_backup =
  backup_File :: config_file_saver

record config_admin =
  admin_Email :: "bytes list"

text \<open>
  \<open>c_Page\<close> and \<open>c_Priviledges\<close> list the entries of a map in an iteration order; the
  two limits are \<open>int64\<close> values.
\<close>

record config =
  c_ForumName :: bytes
  c_Hostname :: bytes
  c_OnionAddress :: bytes
  c_Listen :: bytes
  c_Priviledges :: "(bytes \<times> UserPriviledge) list"
  c_Cert :: bytes
  c_Key :: bytes
  c_Database :: bytes
  c_Keywords :: bytes
  c_Backup :: config_backup
  c_LimitConnections :: int
  c_LimitWindow :: int
  c_Log :: bytes
  c_Page :: "(bytes \<times> bytes) list"
  c_Admin :: config_admin
  c_Smtp :: config_smtp
  c_Forum :: "forum list"

definition config_priv :: "config \<Rightarrow> bytes \<Rightarrow> UserPriviledge" where
  "config_priv cfg u = (case map_of (c_Priviledges cfg) u of None \<Rightarrow> 0 | Some p \<Rightarrow> p)"

section \<open>Loading\<close>

fun check_subforums :: "bytes list \<Rightarrow> subforum list \<Rightarrow> err + bytes list" where
  "check_subforums seen [] = Inr seen"
| "check_subforums seen (s # ss) =
     (if sf_ID s \<in> set seen then Inl ErrDuplicateSubforumName
      else check_subforums (sf_ID s # seen) ss)"

fun check_forums :: "bytes list \<Rightarrow> bytes list \<Rightarrow> forum list \<Rightarrow> err option" where
  "check_forums names ids [] = None"
| "check_forums names ids (f # fs) =
     (if f_Name f \<in> set names then Some ErrDuplicateForumName
      else (case check_subforums ids (f_Subforum f) of
              Inl e \<Rightarrow> Some e
            | Inr ids' \<Rightarrow> check_forums (f_Name f # names) ids' fs))"

definition check_config :: "config \<Rightarrow> err + config" where
  "check_config cfg =
     (let cfg' = (if c_Listen cfg = [] then cfg\<lparr>c_Listen := '':1965''\<rparr> else cfg)
      in case check_forums [] [] (c_Forum cfg') of Some e \<Rightarrow> Inl e | None \<Rightarrow> Inr cfg')"

text \<open>The configuration and the prefix given to the backup receiver.\<close>

definition LoadConfig :: "(bytes \<Rightarrow> err + bytes) \<Rightarrow> (bytes \<Rightarrow> err + config) \<Rightarrow> bytes \<Rightarrow> err + config \<times> bytes" where
  "LoadConfig read_file toml path =
     (case read_file path of
        Inl e \<Rightarrow> Inl e
      | Inr f \<Rightarrow>
          (case toml f of
             Inl e \<Rightarrow> Inl e
           | Inr cfg \<Rightarrow>
               (case check_config cfg of
                  Inl e \<Rightarrow> Inl e
                | Inr cfg' \<Rightarrow> Inr (cfg', fs_Prefix (backup_File (c_Backup cfg'))))))"

section \<open>Look-ups\<close>

definition GetAllSubforumIDs :: "config \<Rightarrow> bytes list" where
  "GetAllSubforumIDs cfg = concat (map (\<lambda>f. map sf_ID (f_Subforum f)) (c_Forum cfg))"

fun find_sub :: "bytes \<Rightarrow> subforum list \<Rightarrow> subforum option" where
  "find_sub i [] = None"
| "find_sub i (s # ss) = (if sf_ID s = i then Some s else find_sub i ss)"

fun SubforumExists :: "forum list \<Rightarrow> bytes \<Rightarrow> bytes \<times> bool" where
  "SubforumExists [] i = ([], False)"
| "SubforumExists (f # fs) i =
     (case find_sub i (f_Subforum f) of
        Some s \<Rightarrow> (sf_Name s, True)
      | None \<Rightarrow> SubforumExists fs i)"

fun subforum_priv :: "forum list \<Rightarrow> bytes \<Rightarrow> err + UserPriviledge \<times> UserPriviledge" where
  "subforum_priv [] i = Inl SubforumNotFound"
| "subforum_priv (f # fs) i =
     (case find_sub i (f_Subforum f) of
        Some s \<Rightarrow> Inr (sf_ThreadPriviledge s, sf_ReplyPriviledge s)
      | None \<Rightarrow> subforum_priv fs i)"

definition GetSubforumPrivFromID :: "config \<Rightarrow> bytes \<Rightarrow> err + UserPriviledge \<times> UserPriviledge" where
  "GetSubforumPrivFromID cfg i = subforum_priv (c_Forum cfg) i"

definition DisplayUsernameAuto :: "config \<Rightarrow> bytes \<Rightarrow> bytes" where
  "DisplayUsernameAuto cfg username = DisplayUsername username (config_priv cfg username)"

section \<open>Facts\<close>

definition all_subs :: "forum list \<Rightarrow> subforum list" where
  "all_subs fs = concat (map f_Subforum fs)"

lemma ids_all_subs: "GetAllSubforumIDs cfg = map sf_ID (all_subs (c_Forum cfg))"
  by (simp add: GetAllSubforumIDs_def all_subs_def map_concat comp_def)

lemma check_subforums_ok:
  "check_subforums seen ss = Inr r \<longleftrightarrow>
     distinct (map sf_ID ss) \<and> set (map sf_ID ss) \<inter> set seen = {} \<and> r = rev (map sf_ID ss) @ seen"
proof (induction seen ss rule: check_subforums.induct)
  case (2 seen s ss)
  then show ?case
    by (cases "sf_ID s \<in> set seen") (simp_all del: set_map, blast)
qed auto

lemma all_subs_Cons: "map sf_ID (all_subs (f # fs)) = map sf_ID (f_Subforum f) @ map sf_ID (all_subs fs)"
  by (simp add: all_subs_def)

lemma check_forums_None:
  "check_forums names ids fs = None \<longleftrightarrow>
     distinct (map f_Name fs) \<and> set (map f_Name fs) \<inter> set names = {} \<and>
     distinct (map sf_ID (all_subs fs)) \<and> set (map sf_ID (all_subs fs)) \<inter> set ids = {}"
proof (induction names ids fs rule: check_forums.induct)
  case (2 names ids f fs)
  let ?xs = "map sf_ID (f_Subforum f)"
  let ?ys = "map sf_ID (all_subs fs)"
  show ?case
  proof (cases "check_subforums ids (f_Subforum f)")
    case (Inl e)
    then have "\<not> (distinct ?xs \<and> set ?xs \<inter> set ids = {})"
      using check_subforums_ok[of ids "f_Subforum f"] by (metis Inl_Inr_False)
    with Inl show ?thesis unfolding all_subs_Cons by (simp del: set_map) blast
  next
    case (Inr ids')
    then have ok: "distinct ?xs" "set ?xs \<inter> set ids = {}" and ids': "set ids' = set ?xs \<union> set ids"
      by (simp_all add: check_subforums_ok)
    show ?thesis
    proof (cases "f_Name f \<in> set names")
      case True
      then show ?thesis by simp
    next
      case False
      then have "check_forums names ids (f # fs) = None \<longleftrightarrow>
        distinct (map f_Name fs) \<and> set (map f_Name fs) \<inter> set (f_Name f # names) = {} \<and>
        distinct ?ys \<and> set ?ys \<inter> (set ?xs \<union> set ids) = {}"
        using 2[OF False Inr] Inr ids' by (simp del: set_map)
      then show ?thesis using ok False unfolding all_subs_Cons by (simp del: set_map) blast
    qed
  qed
qed (simp add: all_subs_def)

lemma find_sub_Some: "find_sub i ss = Some s \<Longrightarrow> s \<in> set ss \<and> sf_ID s = i"
  by (induction ss) (auto split: if_splits)

lemma find_sub_None: "find_sub i ss = None \<longleftrightarrow> i \<notin> sf_ID ` set ss"
  by (induction ss) auto

lemma subforum_priv_error: "subforum_priv fs i = Inl e \<Longrightarrow> e = SubforumNotFound \<and> i \<notin> sf_ID ` set (all_subs fs)"
  by (induction fs i rule: subforum_priv.induct)
     (auto simp: all_subs_def find_sub_None split: option.splits)

lemma subforum_priv_found: "subforum_priv fs i = Inr r \<Longrightarrow> i \<in> sf_ID ` set (all_subs fs)"
  by (induction fs i rule: subforum_priv.induct)
     (auto simp: all_subs_def split: option.splits dest: find_sub_Some)

lemma find_sub_unique:
  "distinct (map sf_ID ss) \<Longrightarrow> s \<in> set ss \<Longrightarrow> find_sub (sf_ID s) ss = Some s"
  by (induction ss) auto

lemma subforum_lookup:
  assumes "distinct (map sf_ID (all_subs fs))" "s \<in> set (all_subs fs)"
  shows "subforum_priv fs (sf_ID s) = Inr (sf_ThreadPriviledge s, sf_ReplyPriviledge s)
    \<and> SubforumExists fs (sf_ID s) = (sf_Name s, True)"
  using assms
proof (induction fs)
  case (Cons f fs)
  show ?case
  proof (cases "s \<in> set (f_Subforum f)")
    case True
    then show ?thesis using Cons.prems find_sub_unique[of "f_Subforum f" s] by (simp add: all_subs_def)
  next
    case False
    then have s: "s \<in> set (all_subs fs)" using Cons.prems by (auto simp: all_subs_def)
    have "find_sub (sf_ID s) (f_Subforum f) = None"
      using Cons.prems(1) s by (auto simp: find_sub_None all_subs_def)
    then show ?thesis using Cons s by (simp add: all_subs_def)
  qed
qed (simp add: all_subs_def)

lemma subforum_exists_iff: "snd (SubforumExists fs i) \<longleftrightarrow> i \<in> sf_ID ` set (all_subs fs)"
  by (induction fs i rule: SubforumExists.induct)
     (auto simp: all_subs_def find_sub_None split: option.splits dest: find_sub_Some)

end
