(* ===== verification/Sha256.thy ===== *)
theory Sha256 imports Prelude begin

text \<open>
  \<open>crypto/sha256.Sum256\<close> and \<open>encoding/base64.StdEncoding\<close>, the two functions of
  the standard library that turn a client certificate into the key of its
  session (\<open>CertFP\<close>, \<open>certfp.go\<close>).  Both are executable; the lemmas fix the length of
  the digest and of its encoding.
\<close>

unbundle bit_operations_syntax

section \<open>SHA-256\<close>

text \<open>The round constants and the initial state, in decimal.\<close>

definition sha_k :: "32 word list" where
  "sha_k =
    [1116352408, 1899447441, 3049323471, 3921009573, 961987163, 1508970993, 2453635748, 2870763221,
     3624381080, 310598401, 607225278, 1426881987, 1925078388, 2162078206, 2614888103, 3248222580,
     3835390401, 4022224774, 264347078, 604807628, 770255983, 1249150122, 1555081692, 1996064986,
     2554220882, 2821834349, 2952996808, 3210313671, 3336571891, 3584528711, 113926993, 338241895,
     666307205, 773529912, 1294757372, 1396182291, 1695183700, 1986661051, 2177026350, 2456956037,
     2730485921, 2820302411, 3259730800, 3345764771, 3516065817, 3600352804, 4094571909, 275423344,
     430227734, 506948616, 659060556, 883997877, 958139571, 1322822218, 1537002063, 1747873779,
     1955562222, 2024104815, 2227730452, 2361852424, 2428436474, 2756734187, 3204031479, 3329325298]"

definition sha_init :: "32 word list" where
  "sha_init = [1779033703, 3144134277, 1013904242, 2773480762, 1359893119, 2600822924, 528734635, 1541459225]"

definition rotr :: "nat \<Rightarrow> 32 word \<Rightarrow> 32 word" where
  "rotr n x = (drop_bit n x) OR (push_bit (32 - n) x)"

text \<open>The message schedule is kept newest first.\<close>

definition sha_expand :: "32 word list \<Rightarrow> 32 word list" where
  "sha_expand w =
     (let w2 = w ! 1; w7 = w ! 6; w15 = w ! 14; w16 = w ! 15;
          s0 = rotr 7 w15 XOR rotr 18 w15 XOR drop_bit 3 w15;
          s1 = rotr 17 w2 XOR rotr 19 w2 XOR drop_bit 10 w2
      in (s1 + w7 + s0 + w16) # w)"

definition sha_schedule :: "32 word list \<Rightarrow> 32 word list" where
  "sha_schedule block = rev ((sha_expand ^^ 48) (rev block))"

type_synonym sha_state = "32 word \<times> 32 word \<times> 32 word \<times> 32 word \<times> 32 word \<times> 32 word \<times> 32 word \<times> 32 word"

fun sha_round :: "sha_state \<Rightarrow> 32 word \<times> 32 word \<Rightarrow> sha_state" where
  "sha_round (a, b, c, d, e, f, g, h) (k, w) =
     (let t1 = h + (rotr 6 e XOR rotr 11 e XOR rotr 25 e) + ((e AND f) XOR (NOT e AND g)) + k + w;
          t2 = (rotr 2 a XOR rotr 13 a XOR rotr 22 a) + ((a AND b) XOR (a AND c) XOR (b AND c))
      in (t1 + t2, a, b, c, d + t1, e, f, g))"

fun sha_add :: "sha_state \<Rightarrow> sha_state \<Rightarrow> sha_state" where
  "sha_add (a, b, c, d, e, f, g, h) (a', b', c', d', e', f', g', h') =
     (a + a', b + b', c + c', d + d', e + e', f + f', g + g', h + h')"

definition sha_block :: "sha_state \<Rightarrow> 32 word list \<Rightarrow> sha_state" where
  "sha_block st block = sha_add st (foldl sha_round st (zip sha_k (sha_schedule block)))"

fun sha_words :: "nat list \<Rightarrow> 32 word list" where
  "sha_words (a # b # c # d # r) =
     of_nat (((a * 256 + b) * 256 + c) * 256 + d) # sha_words r"
| "sha_words _ = []"

definition be_bytes :: "nat \<Rightarrow> nat \<Rightarrow> nat list" where
  "be_bytes k n = map (\<lambda>i. n div 256 ^ (k - 1 - i) mod 256) [0..<k]"

definition sha_pad :: "nat list \<Rightarrow> nat list" where
  "sha_pad m = m @ [128] @ replicate ((119 - length m mod 64) mod 64) 0 @ be_bytes 8 (8 * length m)"

fun sha_blocks :: "sha_state \<Rightarrow> 32 word list \<Rightarrow> nat \<Rightarrow> sha_state" where
  "sha_blocks st ws 0 = st"
| "sha_blocks st ws (Suc n) = sha_blocks (sha_block st (take 16 ws)) (drop 16 ws) n"

fun sha_out :: "sha_state \<Rightarrow> nat list" where
  "sha_out (a, b, c, d, e, f, g, h) = concat (map (\<lambda>x. be_bytes 4 (unat x)) [a, b, c, d, e, f, g, h])"

definition sha_start :: sha_state where
  "sha_start = (sha_init ! 0, sha_init ! 1, sha_init ! 2, sha_init ! 3,
                sha_init ! 4, sha_init ! 5, sha_init ! 6, sha_init ! 7)"

definition sha256 :: "nat list \<Rightarrow> nat list" where
  "sha256 m = (let p = sha_words (sha_pad m) in sha_out (sha_blocks sha_start p (length p div 16)))"

section \<open>Base64\<close>

definition b64_char :: "nat \<Rightarrow> char" where
  "b64_char i = ''ABCDEFGHIJKLMNOPQRSTUVWXYZabcdefghijklmnopqrstuvwxyz0123456789+/'' ! i"

fun base64 :: "nat list \<Rightarrow> bytes" where
  "base64 (a # b # c # r) =
     [b64_char (a div 4), b64_char (a mod 4 * 16 + b div 16),
      b64_char (b mod 16 * 4 + c div 64), b64_char (c mod 64)] @ base64 r"
| "base64 [a, b] =
     [b64_char (a div 4), b64_char (a mod 4 * 16 + b div 16), b64_char (b mod 16 * 4), CHR ''='']"
| "base64 [a] = [b64_char (a div 4), b64_char (a mod 4 * 16), CHR ''='', CHR ''='']"
| "base64 [] = []"

lemma length_be_bytes [simp]: "length (be_bytes k n) = k"
  by (simp add: be_bytes_def)

lemma length_sha256 [simp]: "length (sha256 m) = 32"
proof -
  have "length (sha_out st) = 32" for st by (cases st rule: sha_out.cases) simp
  then show ?thesis by (simp add: sha256_def Let_def)
qed

lemma length_base64: "length (base64 m) = 4 * ((length m + 2) div 3)"
proof (induction m rule: base64.induct)
  case (1 a b c r)
  have "(5 + length r) div 3 = Suc ((2 + length r) div 3)" by presburger
  then show ?case using 1 by simp
qed simp_all

end
