(* ===== verification/Env.thy ===== *)
theory Env imports World Gemini Config Sha256 begin

text \<open>
  What the handlers take from outside the database: the request (\<open>url.URL\<close> and
  \<open>tls.Conn\<close>), the globals \<open>main\<close> sets once, and the functions of packages the
  model does not open.  They are the fields of \<open>env\<close>, an argument of every
  definition that uses them: the \<open>unicode\<close> tables beyond Latin-1, bcrypt, the
  keyword index (bleve), the resolver, the file system, the zone abbreviations of
  \<open>Time.String\<close>, the text of a \<open>time.ParseError\<close>, and the algorithm of \<open>sort.Sort\<close>,
  which is given the length and the \<open>Less\<close> of two positions and returns the
  positions in their new order.  The Latin-1 part of the tables is written out.
\<close>

record url =
  u_path :: bytes
  u_query :: bytes
  u_force :: bool

text \<open>\<open>url.RequestURI()\<close> of a URL without an opaque part.\<close>

definition RequestURI :: "url \<Rightarrow> bytes" where
  "RequestURI u =
     (let p = (if u_path u = [] then ''/'' else u_path u)
      in if u_force u \<or> u_query u \<noteq> [] then p @ ''?'' @ u_query u else p)"

text \<open>The raw bytes of the peer's certificates, and \<open>RemoteAddr().String()\<close>.\<close>

record conn =
  cn_certs :: "bytes list"
  cn_remote :: bytes

record env =
  e_cfg :: config
  e_db :: bool
  e_limiter :: "(int \<times> int) option"
  e_report_limiter :: "(int \<times> int) option"
  e_letter :: "nat \<Rightarrow> bool"
  e_number :: "nat \<Rightarrow> bool"
  e_latin :: "nat \<Rightarrow> bool"
  e_separator :: "nat \<Rightarrow> bool"
  e_punct :: "nat \<Rightarrow> bool"
  e_fold :: "nat \<Rightarrow> nat \<Rightarrow> bool"
  e_hash :: "bytes \<Rightarrow> bytes \<Rightarrow> err + bytes"
  e_compare :: "bytes \<Rightarrow> bytes \<Rightarrow> err option"
  e_search :: "bytes \<Rightarrow> err + bytes list"
  e_lookup_addr :: "bytes \<Rightarrow> err + bytes list"
  e_read_file :: "bytes \<Rightarrow> err + bytes"
  e_time_string :: "gtime \<Rightarrow> bytes"
  e_parse_error :: "bytes \<Rightarrow> bytes"
  e_sort :: "(nat \<Rightarrow> nat \<Rightarrow> bool) \<Rightarrow> nat \<Rightarrow> nat list"

section \<open>Character classes\<close>

definition ascii_letter :: "nat \<Rightarrow> bool" where
  "ascii_letter r \<longleftrightarrow> (65 \<le> r \<and> r \<le> 90) \<or> (97 \<le> r \<and> r \<le> 122)"

definition latin1_letter :: "nat \<Rightarrow> bool" where
  "latin1_letter r \<longleftrightarrow> ascii_letter r \<or> r = 0xAA \<or> r = 0xBA
     \<or> (0xC0 \<le> r \<and> r \<le> 0xFF \<and> r \<noteq> 0xD7 \<and> r \<noteq> 0xF7)"

text \<open>\<open>unicode.IsLetter\<close>, \<open>unicode.IsNumber\<close>.\<close>

definition is_letter :: "env \<Rightarrow> nat \<Rightarrow> bool" where
  "is_letter E r \<longleftrightarrow> (if r \<le> 0xFF then latin1_letter r \<or> r = 0xB5 else e_letter E r)"

definition is_number :: "env \<Rightarrow> nat \<Rightarrow> bool" where
  "is_number E r \<longleftrightarrow>
     (if r \<le> 0xFF then (48 \<le> r \<and> r \<le> 57) \<or> r = 0xB2 \<or> r = 0xB3 \<or> r = 0xB9 \<or> (0xBC \<le> r \<and> r \<le> 0xBE)
      else e_number E r)"

text \<open>The range tables \<open>unicode.Latin\<close>, \<open>unicode.Space\<close> and \<open>unicode.P\<close>.\<close>

definition in_Latin :: "env \<Rightarrow> nat \<Rightarrow> bool" where
  "in_Latin E r \<longleftrightarrow> (if r \<le> 0xFF then latin1_letter r else e_latin E r)"

definition in_Space :: "env \<Rightarrow> nat \<Rightarrow> bool" where
  "in_Space E r \<longleftrightarrow> (if r \<le> 0xFF then r = 0x20 \<or> r = 0xA0 else e_separator E r)"

definition in_P :: "env \<Rightarrow> nat \<Rightarrow> bool" where
  "in_P E r \<longleftrightarrow>
     (if r \<le> 0xFF then
        (0x21 \<le> r \<and> r \<le> 0x23) \<or> (0x25 \<le> r \<and> r \<le> 0x2A) \<or> (0x2C \<le> r \<and> r \<le> 0x2F)
        \<or> r = 0x3A \<or> r = 0x3B \<or> r = 0x3F \<or> r = 0x40 \<or> (0x5B \<le> r \<and> r \<le> 0x5D) \<or> r = 0x5F
        \<or> r = 0x7B \<or> r = 0x7D \<or> r = 0xA1 \<or> r = 0xA7 \<or> r = 0xAB \<or> r = 0xB6 \<or> r = 0xB7 \<or> r = 0xBB \<or> r = 0xBF
      else e_punct E r)"

text \<open>\<open>strings.EqualFold\<close>.  \<open>e_fold\<close> says whether two different runes, one of them
  beyond ASCII, are in the same case-folding orbit.\<close>

definition fold_rune :: "env \<Rightarrow> nat \<Rightarrow> nat \<Rightarrow> bool" where
  "fold_rune E a b \<longleftrightarrow>
     (let lo = min a b; hi = max a b
      in lo = hi
         \<or> (if hi < 0x80 then 65 \<le> lo \<and> lo \<le> 90 \<and> hi = lo + 32 else e_fold E lo hi))"

definition equal_fold :: "env \<Rightarrow> bytes \<Rightarrow> bytes \<Rightarrow> bool" where
  "equal_fold E s t \<longleftrightarrow> list_all2 (fold_rune E) (runes s) (runes t)"

lemma fold_rune_refl [simp]: "fold_rune E r r"
  by (simp add: fold_rune_def Let_def)

lemma fold_rune_sym: "fold_rune E a b = fold_rune E b a"
  by (simp add: fold_rune_def Let_def min.commute max.commute)

lemma equal_fold_refl [simp]: "equal_fold E s s"
  by (simp add: equal_fold_def list.rel_refl)

lemma equal_fold_sym: "equal_fold E s t \<longleftrightarrow> equal_fold E t s"
proof -
  have "list_all2 (fold_rune E) xs ys \<Longrightarrow> list_all2 (fold_rune E) ys xs" for xs ys
    by (induction rule: list_all2_induct) (simp_all add: fold_rune_sym)
  then show ?thesis by (auto simp: equal_fold_def)
qed

section \<open>Network addresses\<close>

text \<open>\<open>net.SplitHostPort\<close>, whose callers use the host only.\<close>

definition last_colon :: "bytes \<Rightarrow> nat option" where
  "last_colon s =
     (if CHR '':'' \<in> set s then Some (length s - 1 - length (takeWhile (\<lambda>c. c \<noteq> CHR '':'') (rev s))) else None)"

definition addr_err :: "bytes \<Rightarrow> bytes \<Rightarrow> err" where
  "addr_err a why = ErrExternal (''address '' @ a @ '': '' @ why)"

definition split_host_port :: "bytes \<Rightarrow> err + bytes" where
  "split_host_port s =
     (let miss = Inl (addr_err s ''missing port in address'');
          many = Inl (addr_err s ''too many colons in address'');
          brk = (\<lambda>j k host.
            if CHR ''['' \<in> set (drop j s) then Inl (addr_err s ''unexpected '[' in address'')
            else if CHR '']'' \<in> set (drop k s) then Inl (addr_err s ''unexpected ']' in address'')
            else Inr host)
      in case last_colon s of
           None \<Rightarrow> miss
         | Some i \<Rightarrow>
             (if hd s = CHR ''['' then
                (let e = length (takeWhile (\<lambda>c. c \<noteq> CHR '']'') s)
                 in if e = length s then Inl (addr_err s ''missing ']' in address'')
                    else if e + 1 = length s then miss
                    else if e + 1 = i then brk 1 (e + 1) (take (e - 1) (drop 1 s))
                    else if s ! (e + 1) = CHR '':'' then many else miss)
              else
                (let host = take i s
                 in if CHR '':'' \<in> set host then many else brk 0 0 host)))"

end
