(* ===== verification/Itob.thy ===== *)
theory Itob imports GoNum begin

text \<open>
  \<open>itob.go\<close>: the key encoding of every sequence-numbered bucket.  The lemmas
  show it has constant length 16, is injective and order preserving on
  \<open>uint64\<close>, so the cursor order of a bucket whose keys are \<open>itob\<close> of its
  sequence numbers is the order of insertion; the locale \<open>key_encoding\<close> states
  that contract for any encoding of counters and derives the append law.
\<close>

definition itob :: "64 word \<Rightarrow> bytes" where
  "itob v = fmt_hex_pad 16 (unat v)"

lemma unat_lt_16: "unat (v :: 64 word) < 16 ^ 16"
  using unsigned_less[of v] by simp

lemma itob_fixed_width: "itob v = fixed_width 16 16 (unat v)"
  using pad_fixed_width[OF _ unat_lt_16] by (simp add: itob_def fmt_hex_pad_def)

lemma length_itob [simp]: "length (itob v) = 16"
  by (simp add: itob_fixed_width)

lemma itob_not_Nil [simp]: "itob v \<noteq> []"
  by (metis length_itob list.size(3) zero_neq_numeral)

lemma itob_less [simp]: "itob v < itob w \<longleftrightarrow> v < w"
  using fixed_width_less[OF _ _ unat_lt_16 unat_lt_16] by (simp add: itob_fixed_width word_less_nat_alt)

lemma itob_eq [simp]: "itob v = itob w \<longleftrightarrow> v = w"
  by (metis itob_less not_less_iff_gr_or_eq)

section \<open>Encodings of a counter as ordered keys\<close>

locale key_encoding =
  fixes enc :: "64 word \<Rightarrow> 'k::linorder"
  assumes enc_less: "v < w \<Longrightarrow> enc v < enc w"
begin

lemma enc_inj: "enc v = enc w \<longleftrightarrow> v = w"
  by (metis enc_less less_irrefl not_less_iff_gr_or_eq)

definition counted :: "64 word \<Rightarrow> ('k \<times> 'v) list \<Rightarrow> bool" where
  "counted n xs \<longleftrightarrow> (\<forall>k \<in> fst ` set xs. \<exists>v. k = enc v \<and> 0 < v \<and> v \<le> n)"

lemma counted_fresh: "counted n xs \<Longrightarrow> n < m \<Longrightarrow> map_of xs (enc m) = None"
  by (fastforce simp: counted_def enc_inj map_of_eq_None_iff)

lemma counted_append:
  assumes "counted n xs" "n < m"
  shows "al_put (enc m) v xs = xs @ [(enc m, v)]"
proof (rule al_put_above)
  fix a assume "a \<in> fst ` set xs"
  then obtain w where "a = enc w" "w \<le> n" using assms(1) by (auto simp: counted_def)
  then show "a < enc m" using assms(2) enc_less by auto
qed

lemma counted_put:
  assumes "counted n xs" "n < m"
  shows "counted m (al_put (enc m) v xs)"
  using assms unfolding counted_def fst_set_al_put
  by (metis (no_types, lifting) insertE less_le_trans less_imp_le order_le_less word_gt_0 word_not_simps(1))

end

interpretation itob: key_encoding itob
  by unfold_locales simp

end
