(* ===== verification/Database.thy ===== *)
theory Database imports Env Itob begin

text \<open>
  \<open>database.go\<close>: the names of the top-level buckets and their creation when the
  database is opened.  \<open>db_ready\<close> is what the handlers rely on afterwards, the
  ten buckets and one bucket per configured subforum; it is established here
  and kept by every transaction.
\<close>

definition PERMANENTLYMUTED :: bytes where "PERMANENTLYMUTED = ''permanent''"

definition DBUSERS :: bytes where "DBUSERS = ''users''"
definition DBVALIDATION :: bytes where "DBVALIDATION = ''validation''"
definition DBFP :: bytes where "DBFP = ''certfp''"
definition DBSUBFORUMS :: bytes where "DBSUBFORUMS = ''subforums''"
definition DBALLTHREADS :: bytes where "DBALLTHREADS = ''allthreads''"
definition DBTHREADTOSF :: bytes where "DBTHREADTOSF = ''threadtosubforum''"
definition DBUSERTHREADS :: bytes where "DBUSERTHREADS = ''userthreads''"
definition DBALLPOSTS :: bytes where "DBALLPOSTS = ''posts''"
definition DBUSERPOSTS :: bytes where "DBUSERPOSTS = ''userposts''"
definition DBCONSOLELOG :: bytes where "DBCONSOLELOG = ''console''"

definition db_buckets :: "bytes list" where
  "db_buckets = [DBUSERS, DBVALIDATION, DBFP, DBSUBFORUMS, DBALLTHREADS, DBUSERTHREADS, DBALLPOSTS,
     DBUSERPOSTS, DBTHREADTOSF, DBCONSOLELOG]"

text \<open>The loops over bucket names: the first error ends the transaction.\<close>

fun create_all :: "handle \<Rightarrow> bytes list \<Rightarrow> unit go" where
  "create_all h [] = go_ret ()"
| "create_all h (k # ks) = go_bind (go_try (tx_create_bucket_if_not_exists h k)) (\<lambda>_. create_all h ks)"

definition dbCreateBuckets :: "env \<Rightarrow> (err + unit) go" where
  "dbCreateBuckets E = db_update (
     go_bind (create_all [] db_buckets) (\<lambda>_.
     go_bind (tx_must [] DBSUBFORUMS) (\<lambda>sf.
     create_all sf (GetAllSubforumIDs (e_cfg E)))))"

section \<open>Names\<close>

lemmas db_name_defs = DBUSERS_def DBVALIDATION_def DBFP_def DBSUBFORUMS_def DBALLTHREADS_def
  DBTHREADTOSF_def DBUSERTHREADS_def DBALLPOSTS_def DBUSERPOSTS_def DBCONSOLELOG_def

lemma db_names_aux: "distinct (db_buckets @ [[]]) \<and> distinct ([] # rev db_buckets)"
  by (simp add: db_buckets_def db_name_defs)

lemmas db_names [simp] = db_names_aux[unfolded db_buckets_def, simplified]

lemma length_db_names: "k \<in> set db_buckets \<Longrightarrow> length k \<le> MaxKeySize"
  by (auto simp: db_buckets_def db_name_defs MaxKeySize_def)

section \<open>The layout the handlers rely on\<close>

definition db_ready :: "env \<Rightarrow> bucket \<Rightarrow> bool" where
  "db_ready E b \<longleftrightarrow> b_wf b \<and> (\<forall>k \<in> set db_buckets. dbis b [k])
     \<and> (\<forall>i \<in> set (GetAllSubforumIDs (e_cfg E)). dbis b [DBSUBFORUMS, i])"

lemma db_ready_wf: "db_ready E b \<Longrightarrow> b_wf b"
  by (simp add: db_ready_def)

lemma db_ready_top:
  assumes "db_ready E b"
  shows "dbis b [DBUSERS]" "dbis b [DBVALIDATION]" "dbis b [DBFP]" "dbis b [DBSUBFORUMS]"
    "dbis b [DBALLTHREADS]" "dbis b [DBUSERTHREADS]" "dbis b [DBALLPOSTS]" "dbis b [DBUSERPOSTS]"
    "dbis b [DBTHREADTOSF]" "dbis b [DBCONSOLELOG]"
  using assms by (simp_all add: db_ready_def db_buckets_def)

text \<open>\<open>grows b b'\<close>: no bucket of \<open>b\<close> is missing from \<open>b'\<close>.\<close>

definition grows :: "bucket \<Rightarrow> bucket \<Rightarrow> bool" where
  "grows b b' \<longleftrightarrow> (\<forall>p. dbis b p \<longrightarrow> dbis b' p)"

lemma db_ready_grows: "db_ready E b \<Longrightarrow> b_wf b' \<Longrightarrow> grows b b' \<Longrightarrow> db_ready E b'"
  by (auto simp: db_ready_def grows_def)

section \<open>Creation\<close>

text \<open>
  What creating missing buckets in \<open>h\<close> does: the names are buckets, all else
  is as before.
\<close>

definition created :: "handle \<Rightarrow> bytes set \<Rightarrow> bucket \<Rightarrow> bucket \<Rightarrow> bool" where
  "created h K b b' \<longleftrightarrow> b_wf b' \<and> (\<forall>p k. dbval b' p k = dbval b p k) \<and> (\<forall>p. dbseq b' p = dbseq b p)
     \<and> (\<forall>p. dbis b' p \<longleftrightarrow> dbis b p \<or> (\<exists>k \<in> K. p = h @ [k]))"

lemma create_all_ok:
  assumes "b_wf (w_db w)" "dbis (w_db w) h" "\<forall>k \<in> set ks. dbval (w_db w) h k = None \<and> k \<noteq> []"
  shows "\<exists>b'. create_all h ks w = (Ok (), w\<lparr>w_db := b'\<rparr>) \<and> created h (set ks) (w_db w) b'"
  using assms
proof (induction ks arbitrary: w)
  case Nil
  then show ?case by (auto simp: created_def go_simps intro: exI[of _ "w_db w"])
next
  case (Cons k ks)
  let ?b = "if dbis (w_db w) (h @ [k]) then w_db w else bcreate h k (w_db w)"
  have flat: "b_wf ?b" "\<And>p. dbis ?b p \<longleftrightarrow> dbis (w_db w) p \<or> p = h @ [k]"
    "\<And>p j. dbval ?b p j = dbval (w_db w) p j" "\<And>p. dbseq ?b p = dbseq (w_db w) p"
    using Cons.prems by auto
  have step: "tx_create_bucket_if_not_exists h k w = (Ok (Inr (h @ [k])), w\<lparr>w_db := ?b\<rparr>)"
    using Cons.prems by (simp add: tx_create_if_ok)
  obtain b' where b': "create_all h ks (w\<lparr>w_db := ?b\<rparr>) = (Ok (), w\<lparr>w_db := b'\<rparr>)"
    "created h (set ks) ?b b'"
    using Cons.IH[of "w\<lparr>w_db := ?b\<rparr>"] Cons.prems flat by auto
  show ?case
    using b' flat by (intro exI[of _ b']) (auto simp: step go_simps created_def)
qed

text \<open>
  Opening a database: on an empty one and on one that already has the layout
  (no top-level or subforum name is taken by a value) every bucket ends up
  there, and no value or counter is touched.
\<close>

definition db_openable :: "env \<Rightarrow> bucket \<Rightarrow> bool" where
  "db_openable E b \<longleftrightarrow> b_wf b \<and> (\<forall>k \<in> set db_buckets. dbval b [] k = None)
     \<and> (\<forall>i \<in> set (GetAllSubforumIDs (e_cfg E)). dbval b [DBSUBFORUMS] i = None \<and> i \<noteq> [])"

lemma dbCreateBuckets_ok:
  assumes "db_openable E (w_db w)"
  obtains b' where "dbCreateBuckets E w = (Ok (Inr ()), w\<lparr>w_db := b'\<rparr>)" "db_ready E b'"
    "\<And>p k. dbval b' p k = dbval (w_db w) p k" "\<And>p. dbseq b' p = dbseq (w_db w) p"
    "\<And>p. dbis b' p \<longleftrightarrow> dbis (w_db w) p \<or> (\<exists>k \<in> set db_buckets. p = [k])
            \<or> (\<exists>i \<in> set (GetAllSubforumIDs (e_cfg E)). p = [DBSUBFORUMS, i])"
proof -
  have "\<forall>k \<in> set db_buckets. k \<noteq> []" by (simp add: db_buckets_def)
  then obtain b1 where b1: "create_all [] db_buckets w = (Ok (), w\<lparr>w_db := b1\<rparr>)"
    "created [] (set db_buckets) (w_db w) b1"
    using create_all_ok[of w "[]" db_buckets] assms by (auto simp: db_openable_def)
  have sf: "dbis b1 [DBSUBFORUMS]" "b_wf b1"
    using b1(2) by (auto simp: created_def db_buckets_def)
  obtain b2 where b2: "create_all [DBSUBFORUMS] (GetAllSubforumIDs (e_cfg E)) (w\<lparr>w_db := b1\<rparr>) = (Ok (), w\<lparr>w_db := b2\<rparr>)"
    "created [DBSUBFORUMS] (set (GetAllSubforumIDs (e_cfg E))) b1 b2"
    using create_all_ok[of "w\<lparr>w_db := b1\<rparr>" "[DBSUBFORUMS]" "GetAllSubforumIDs (e_cfg E)"] assms sf b1(2)
    by (auto simp: db_openable_def created_def)
  have "dbCreateBuckets E w = (Ok (Inr ()), w\<lparr>w_db := b2\<rparr>)"
    using b1(1) b2(1) sf by (simp add: dbCreateBuckets_def db_update_def go_simps)
  then show ?thesis
    using b1(2) b2(2) by (intro that[of b2]) (auto simp: created_def db_ready_def)
qed

lemma db_openable_empty:
  assumes "\<forall>i \<in> set (GetAllSubforumIDs (e_cfg E)). i \<noteq> []"
  shows "db_openable E empty_bucket"
  proof -
  have "b_bucket empty_bucket k = None" for k by (simp add: empty_bucket_def b_bucket_def)
  then have "dbval empty_bucket p k = None" for p k by (cases p) (simp_all add: dbval_def)
  then show ?thesis using assms by (simp add: db_openable_def)
qed

lemma db_openable_ready:
  assumes "db_ready E b" "\<forall>i \<in> set (GetAllSubforumIDs (e_cfg E)). i \<noteq> []"
  shows "db_openable E b"
proof -
  have "dbval b p k = None" if "dbis b (p @ [k])" for p k
    using that dbval_not_sub by (cases "dbval b p k") auto
  from this[of "[]"] this[of "[DBSUBFORUMS]"] show ?thesis
    using assms by (auto simp: db_openable_def db_ready_def)
qed

end
