(* ===== verification/Durafmt.thy ===== *)
theory Durafmt imports GoText GoTime begin

text \<open>
  \<open>durafmt.ParseShort(d).String()\<close> (\<open>vendor/github.com/hako/durafmt\<close>): a
  duration written with its largest non-zero unit.  \<open>dura_values\<close> is the chain of
  divisions of \<open>Format\<close> with no unit limit, from years to microseconds.
\<close>

record unit_name =
  Singular :: bytes
  Plural :: bytes

text \<open>\<open>DefaultUnitsCoder.Decode\<close>: a unit without its own plural gets an \<open>s\<close>.\<close>

fun decode_unit :: "bytes list \<Rightarrow> unit_name option" where
  "decode_unit [s] = Some \<lparr>Singular = s, Plural = s @ ''s''\<rparr>"
| "decode_unit [s, p] = Some \<lparr>Singular = s, Plural = p\<rparr>"
| "decode_unit _ = None"

definition decode_units :: "bytes \<Rightarrow> unit_name list option" where
  "decode_units s =
     (let parts = split_byte CHR '','' s
      in if length parts \<noteq> 8 then None
         else those (map (\<lambda>p. decode_unit (split_byte CHR '':'' p)) parts))"

definition dura_units :: "unit_name list" where
  "dura_units = the (decode_units ''year,week,day,hour,minute,second,millisecond,microsecond'')"

definition unitsShort :: "bytes list" where
  "unitsShort = [''y'', ''w'', ''d'', ''h'', ''m'', ''s'', ''ms'', [CHR 0xC2, CHR 0xB5, CHR ''s'']]"

text \<open>Go's integer division truncates towards zero.\<close>

definition tquot :: "int \<Rightarrow> int \<Rightarrow> int" where
  "tquot a b = (if 0 \<le> a then a div b else - ((- a) div b))"

text \<open>Microseconds in the units from years down to milliseconds.\<close>

definition unit_sizes :: "int list" where
  "unit_sizes = [365 * 24 * 3600 * 1000000, 7 * 24 * 3600 * 1000000, 24 * 3600 * 1000000,
     3600 * 1000000, 60 * 1000000, 1000000, 1000]"

fun dura_values :: "int list \<Rightarrow> int \<Rightarrow> int list" where
  "dura_values [] r = [r]"
| "dura_values (z # zs) r = tquot r z # dura_values zs (r - tquot r z * z)"

text \<open>
  One unit of the output.  A zero duration prints as \<open>0s\<close> in \<open>Duration.String\<close>,
  which only the pattern of the second matches.
\<close>

definition dura_piece :: "int \<Rightarrow> int \<times> unit_name \<times> bytes \<Rightarrow> bytes" where
  "dura_piece d x =
     (case x of (v, u, short) \<Rightarrow>
        if 1 < v then fmt_int v @ '' '' @ Plural u @ '' ''
        else if v = 1 then fmt_int v @ '' '' @ Singular u @ '' ''
        else if d = 0 \<and> short = ''s'' then fmt_int v @ '' '' @ Plural u
        else [])"

definition dura_string :: "int \<Rightarrow> int \<Rightarrow> bytes" where
  "dura_string limitN d0 =
     (let neg = d0 < 0; d = (if neg then wrap64 (- d0) else d0);
          vs = dura_values unit_sizes (tquot d 1000);
          s = trim_space ((if neg then ''-'' else []) @
                concat (map (dura_piece d) (zip vs (zip dura_units unitsShort))))
      in if 0 < limitN then
           (let parts = split_byte CHR '' '' s
            in if limitN * 2 < int (length parts) then join '' '' (take (nat (limitN * 2)) parts) else s)
         else s)"

definition ParseShort :: "int \<Rightarrow> bytes" where
  "ParseShort d = dura_string 1 d"

end
