(* ===== verification/CertFp.thy ===== *)
theory CertFp imports Database Durafmt begin

text \<open>
  \<open>certfp.go\<close>: the fingerprint of a client certificate, the user it is logged in
  as, and whether that user is muted now.
\<close>

definition CertRequired :: response where
  "CertRequired = ResponseFormat ClientCertificateRequired ''Client certificate required'' []"

definition CertFP :: "bytes \<Rightarrow> bytes" where
  "CertFP raw = base64 (sha256 (map byte raw))"

definition GetFingerprint :: "conn option \<Rightarrow> bytes option" where
  "GetFingerprint c =
     (case c of
        None \<Rightarrow> None
      | Some k \<Rightarrow> (case cn_certs k of [] \<Rightarrow> None | cert # _ \<Rightarrow> Some (CertFP cert)))"

record MutedStatus =
  IsPermanent :: bool
  Remaining :: int

definition MutedStatus_String :: "MutedStatus \<Rightarrow> bytes" where
  "MutedStatus_String m =
     (if IsPermanent m then ''permanently muted''
      else ''temporarily muted ('' @ ParseShort (Remaining m) @ '')'')"

definition no_status :: MutedStatus where
  "no_status = \<lparr>IsPermanent = False, Remaining = 0\<rparr>"

definition IsUserCurrentlyMuted :: "bytes option \<Rightarrow> (bool \<times> MutedStatus) go" where
  "IsUserCurrentlyMuted mutedValue =
     (if mutedValue = None \<or> bytes_equal mutedValue [] then go_ret (False, no_status)
      else if bytes_equal mutedValue PERMANENTLYMUTED
      then go_ret (True, \<lparr>IsPermanent = True, Remaining = 0\<rparr>)
      else (case parse_time (str_of mutedValue) of
              None \<Rightarrow> go_ret (False, no_status)
            | Some unmuteTime \<Rightarrow>
                go_bind time_now (\<lambda>now.
                  (let remaining = t_sub unmuteTime now
                   in go_ret (0 < remaining, \<lparr>IsPermanent = False, Remaining = remaining\<rparr>)))))"

record session =
  s_username :: bytes
  s_priv :: UserPriviledge
  s_muted :: bool
  s_status :: MutedStatus

definition GetUsernameFromFP :: "env \<Rightarrow> bytes \<Rightarrow> session go" where
  "GetUsernameFromFP E fp =
     go_bind (db_view (
       go_bind (tx_must [] DBFP) (\<lambda>fpbucket.
       go_bind (tx_get fpbucket fp) (\<lambda>usernameBytes.
       case usernameBytes of
         None \<Rightarrow> go_ret ([], False, no_status)
       | Some username \<Rightarrow>
           go_bind (tx_must [] DBUSERS) (\<lambda>allusers.
           go_bind (tx_bucket allusers username) (\<lambda>user.
           case user of
             None \<Rightarrow> go_ret ([], False, no_status)
           | Some user \<Rightarrow>
               go_bind (tx_get user ''muted'') (\<lambda>m.
               go_bind (IsUserCurrentlyMuted m) (\<lambda>(b, s). go_ret (username, b, s))))))))) (\<lambda>r.
     case r of
       Inl _ \<Rightarrow> go_ret \<lparr>s_username = [], s_priv = config_priv (e_cfg E) [], s_muted = False, s_status = no_status\<rparr>
     | Inr (username, b, s) \<Rightarrow>
         go_ret \<lparr>s_username = username, s_priv = config_priv (e_cfg E) username, s_muted = b, s_status = s\<rparr>)"

section \<open>Facts\<close>

text \<open>What a stored \<open>muted\<close> value means at an instant.\<close>

definition muted_at :: "bytes option \<Rightarrow> gtime \<Rightarrow> bool" where
  "muted_at m now \<longleftrightarrow>
     (case m of
        None \<Rightarrow> False
      | Some s \<Rightarrow> s = PERMANENTLYMUTED \<or> (\<exists>t. parse_time s = Some t \<and> t_ns now < t_ns t))"

lemma parse_time_Nil [simp]: "parse_time [] = None"
  by (simp add: parse_time_def check_def)

lemma parse_time_permanent [simp]: "parse_time PERMANENTLYMUTED = None"
  by code_simp

lemma IsUserCurrentlyMuted_eq:
  obtains st c where "IsUserCurrentlyMuted m w = (Ok (muted_at m (w_clock w 0), st), w\<lparr>w_clock := c\<rparr>)"
proof -
  have w: "w = w\<lparr>w_clock := w_clock w\<rparr>" by simp
  show ?thesis
  proof (cases m)
    case None
    then show ?thesis
      using that[of no_status "w_clock w"] by (simp add: IsUserCurrentlyMuted_def muted_at_def go_simps)
  next
    case (Some s)
    consider "s = []" | "s = PERMANENTLYMUTED" | "s \<noteq> []" "s \<noteq> PERMANENTLYMUTED" "parse_time s = None"
      | t where "s \<noteq> []" "s \<noteq> PERMANENTLYMUTED" "parse_time s = Some t" by fastforce
    then show ?thesis
    proof cases
      case 1
      moreover have "[] \<noteq> PERMANENTLYMUTED" by (simp add: PERMANENTLYMUTED_def)
      ultimately show ?thesis
        using that[of no_status "w_clock w"] Some by (simp add: IsUserCurrentlyMuted_def muted_at_def go_simps)
    next
      case 2
      moreover have "PERMANENTLYMUTED \<noteq> []" by (simp add: PERMANENTLYMUTED_def)
      ultimately show ?thesis
        using that[of _ "w_clock w"] Some by (simp add: IsUserCurrentlyMuted_def muted_at_def go_simps)
    next
      case 3
      then show ?thesis
        using that[of no_status "w_clock w"] Some by (simp add: IsUserCurrentlyMuted_def muted_at_def go_simps)
    next
      case 4
      have "(0 < t_sub t (w_clock w 0)) = (t_ns (w_clock w 0) < t_ns t)"
        by (auto simp: t_sub_def)
      then show ?thesis
        using that Some 4 by (simp add: IsUserCurrentlyMuted_def muted_at_def go_simps Let_def)
    qed
  qed
qed

text \<open>The user a fingerprint is logged in as: the empty name means nobody.\<close>

definition session_user :: "bucket \<Rightarrow> bytes \<Rightarrow> bytes" where
  "session_user b fp =
     (case dbval b [DBFP] fp of
        None \<Rightarrow> []
      | Some u \<Rightarrow> if dbis b [DBUSERS, u] then u else [])"

definition session_muted :: "bucket \<Rightarrow> bytes \<Rightarrow> gtime \<Rightarrow> bool" where
  "session_muted b fp now \<longleftrightarrow>
     (case dbval b [DBFP] fp of
        None \<Rightarrow> False
      | Some u \<Rightarrow> dbis b [DBUSERS, u] \<and> muted_at (dbval b [DBUSERS, u] ''muted'') now)"

lemma GetUsernameFromFP_eq:
  assumes ready: "db_ready E (w_db w)"
  obtains st c where "GetUsernameFromFP E fp w =
    (Ok \<lparr>s_username = session_user (w_db w) fp, s_priv = config_priv (e_cfg E) (session_user (w_db w) fp),
         s_muted = session_muted (w_db w) fp (w_clock w 0), s_status = st\<rparr>, w\<lparr>w_clock := c\<rparr>)"
proof -
  have "\<exists>st c. IsUserCurrentlyMuted m w = (Ok (muted_at m (w_clock w 0), st), w\<lparr>w_clock := c\<rparr>)" for m
    by (rule IsUserCurrentlyMuted_eq) blast
  then obtain st c where m: "IsUserCurrentlyMuted m w = (Ok (muted_at m (w_clock w 0), st m), w\<lparr>w_clock := c m\<rparr>)" for m
    by metis
  show ?thesis
  proof (cases "dbval (w_db w) [DBFP] fp")
    case None
    then show ?thesis
      using that[of no_status "w_clock w"] db_ready_top[OF ready]
      by (simp add: GetUsernameFromFP_def db_view_def go_simps session_user_def session_muted_def)
  next
    case (Some u)
    then show ?thesis
      using that[of no_status "w_clock w"] that[of "st (dbval (w_db w) [DBUSERS, u] ''muted'')"] db_ready_top[OF ready]
      by (cases "dbis (w_db w) [DBUSERS, u]") (simp_all add: GetUsernameFromFP_def db_view_def go_simps session_user_def session_muted_def m)
  qed
qed

end
