(* ===== verification/Effects.thy ===== *)
theory Effects imports World begin

text \<open>
  What a handler may do to the world, composed from its parts.  \<open>clocked\<close> is for
  a property of the clock readings still to come, \<open>go_invariant\<close> for a property
  of the database as well: the rules say it survives every construct of the
  embedding, so a handler keeps it when each of its transactions does, and a
  transaction needs to restore it only when it commits.
\<close>

locale clocked =
  fixes K :: "(nat \<Rightarrow> gtime) \<Rightarrow> bool"
  assumes K_shift: "K f \<Longrightarrow> K (\<lambda>n. f (Suc n))"
begin

definition ticks :: "'a go \<Rightarrow> bool" where
  "ticks m \<longleftrightarrow> (\<forall>w. K (w_clock w) \<longrightarrow> K (w_clock (snd (m w))))"

lemma ticks_ret [intro, simp]: "ticks (go_ret a)" "ticks (go_fail e)" "ticks go_panic"
  by (simp_all add: ticks_def go_simps)

lemma ticks_bind [intro]: "ticks m \<Longrightarrow> (\<And>a. ticks (f a)) \<Longrightarrow> ticks (go_bind m f)"
  unfolding ticks_def go_bind_def by (fastforce split: prod.split res.split)

lemma ticks_reads [intro, simp]: "ticks time_now" "ticks rand_uint64" "ticks read_salt"
  by (simp_all add: ticks_def go_simps K_shift)

lemma ticks_bucket [intro, simp]:
  "ticks (tx_bucket h k)" "ticks (tx_get h k)" "ticks (tx_cursor h)" "ticks (tx_apply h g)"
  "ticks (tx_next_sequence h)" "ticks (tx_put h k v)" "ticks (tx_delete h k)"
  by (simp_all add: ticks_def tx_bucket_def tx_get_def tx_cursor_def tx_apply_def tx_next_sequence_def
      tx_put_def tx_delete_def split: option.split sum.split prod.split)

lemma ticks_derived [intro, simp]:
  "ticks (deref p)" "ticks (or_fail p e)" "ticks (lift_err r)" "ticks (guard_err b e)"
  "ticks (tx_must h k)" "ticks (tx_create_bucket h k)" "ticks (tx_create_bucket_if_not_exists h k)"
  by (auto simp: deref_def or_fail_def lift_err_def guard_err_def tx_must_def tx_create_bucket_def
      tx_create_bucket_if_not_exists_def split: option.split sum.split)

lemma ticks_wrap [intro]:
  "ticks m \<Longrightarrow> ticks (go_try m)" "ticks n \<Longrightarrow> ticks (return_err n)" "ticks n \<Longrightarrow> ticks (ignore_err n)"
  by (auto simp: go_try_def return_err_def ignore_err_def split: option.split sum.split)

lemma ticks_put_fields [intro, simp]: "ticks (put_fields h kvs)"
  by (induction h kvs rule: put_fields.induct) (auto simp: put_fields.simps intro!: ticks_bind ticks_wrap)

lemma ticks_cases [intro]:
  "(\<And>a. ticks (f a)) \<Longrightarrow> ticks m \<Longrightarrow> ticks (case x of None \<Rightarrow> m | Some a \<Rightarrow> f a)"
  "(\<And>e. ticks (g e)) \<Longrightarrow> (\<And>a. ticks (h a)) \<Longrightarrow> ticks (case y of Inl e \<Rightarrow> g e | Inr a \<Rightarrow> h a)"
  "(\<And>a b. ticks (j a b)) \<Longrightarrow> ticks (case z of (a, b) \<Rightarrow> j a b)"
  "ticks m \<Longrightarrow> ticks n \<Longrightarrow> ticks (if c then m else n)"
  "ticks (k v) \<Longrightarrow> ticks (Let v k)"
  by (simp_all split: option.split sum.split prod.split)

lemma ticks_db [intro]: "ticks m \<Longrightarrow> ticks (db_update m)" "ticks m \<Longrightarrow> ticks (db_view m)"
  by (auto simp: ticks_def db_update_def db_view_def split: prod.splits res.splits)

end

locale go_invariant = clocked +
  fixes J :: "bucket \<Rightarrow> bool"
begin

definition keeps :: "'a go \<Rightarrow> bool" where
  "keeps m \<longleftrightarrow> (\<forall>w. J (w_db w) \<longrightarrow> K (w_clock w) \<longrightarrow> J (w_db (snd (m w))) \<and> K (w_clock (snd (m w))))"

lemma keepsD: "keeps m \<Longrightarrow> m w = (r, w') \<Longrightarrow> J (w_db w) \<Longrightarrow> K (w_clock w) \<Longrightarrow> J (w_db w') \<and> K (w_clock w')"
  unfolding keeps_def by (metis snd_conv)

lemma keeps_bind [intro]: "keeps m \<Longrightarrow> (\<And>a. keeps (f a)) \<Longrightarrow> keeps (go_bind m f)"
  unfolding keeps_def go_bind_def by (fastforce split: prod.split res.split)

lemma keeps_bind_res:
  assumes "keeps m" "\<And>a w w'. J (w_db w) \<Longrightarrow> m w = (Ok a, w') \<Longrightarrow> keeps (f a)"
  shows "keeps (go_bind m f)"
  using assms unfolding keeps_def go_bind_def by (fastforce split: prod.split res.split)

text \<open>Code outside a transaction does not touch the database.\<close>

lemma keeps_quiet: "ticks m \<Longrightarrow> (\<And>w. w_db (snd (m w)) = w_db w) \<Longrightarrow> keeps m"
  by (simp add: keeps_def ticks_def)

lemma keeps_ret [intro, simp]: "keeps (go_ret a)" "keeps (go_fail e)" "keeps go_panic"
  by (simp_all add: keeps_def go_simps)

lemma keeps_reads [intro, simp]: "keeps time_now" "keeps rand_uint64" "keeps read_salt"
  by (simp_all add: keeps_def go_simps K_shift)

lemma keeps_cases [intro]:
  "(\<And>a. keeps (f a)) \<Longrightarrow> keeps m \<Longrightarrow> keeps (case x of None \<Rightarrow> m | Some a \<Rightarrow> f a)"
  "(\<And>e. keeps (g e)) \<Longrightarrow> (\<And>a. keeps (h a)) \<Longrightarrow> keeps (case y of Inl e \<Rightarrow> g e | Inr a \<Rightarrow> h a)"
  "(\<And>a b. keeps (j a b)) \<Longrightarrow> keeps (case z of (a, b) \<Rightarrow> j a b)"
  "keeps m \<Longrightarrow> keeps n \<Longrightarrow> keeps (if c then m else n)"
  "keeps (k v) \<Longrightarrow> keeps (Let v k)"
  by (simp_all split: option.split sum.split prod.split)

lemma keeps_view [intro]: "ticks m \<Longrightarrow> keeps (db_view m)"
  unfolding keeps_def using ticks_db(2)[of m] by (simp add: ticks_def)

lemma keeps_update:
  assumes "ticks m" "\<And>w a w'. J (w_db w) \<Longrightarrow> K (w_clock w) \<Longrightarrow> m w = (Ok a, w') \<Longrightarrow> J (w_db w')"
  shows "keeps (db_update m)"
proof -
  have "J (w_db (snd (db_update m w)))" if "J (w_db w)" "K (w_clock w)" for w
    using assms(2)[OF that] that(1) by (auto simp: db_update_def split: prod.splits res.splits)
  moreover have "K (w_clock (snd (db_update m w)))" if "K (w_clock w)" for w
    using ticks_db(1)[OF assms(1)] that by (simp add: ticks_def)
  ultimately show ?thesis by (simp add: keeps_def)
qed

text \<open>
  \<open>leads J' m\<close>: from \<open>J\<close> the code ends in \<open>J'\<close>, for the handlers that may
  consume a sequence number.
\<close>

definition leads :: "(bucket \<Rightarrow> bool) \<Rightarrow> 'a go \<Rightarrow> bool" where
  "leads J' m \<longleftrightarrow> (\<forall>w. J (w_db w) \<longrightarrow> K (w_clock w) \<longrightarrow> J' (w_db (snd (m w))) \<and> K (w_clock (snd (m w))))"

lemma leads_keeps: "keeps m \<Longrightarrow> (\<And>b. J b \<Longrightarrow> J' b) \<Longrightarrow> leads J' m"
  by (simp add: leads_def keeps_def)

lemma leads_bind:
  assumes "keeps m" "\<And>a. leads J' (f a)" "\<And>b. J b \<Longrightarrow> J' b"
  shows "leads J' (go_bind m f)"
  using assms unfolding leads_def keeps_def go_bind_def by (fastforce split: prod.split res.split)

lemma leads_bind_res:
  assumes "keeps m" "\<And>a w w'. J (w_db w) \<Longrightarrow> m w = (Ok a, w') \<Longrightarrow> leads J' (f a)" "\<And>b. J b \<Longrightarrow> J' b"
  shows "leads J' (go_bind m f)"
  using assms unfolding leads_def keeps_def go_bind_def by (fastforce split: prod.split res.split)

lemma leads_then:
  assumes "leads J' m" "\<And>a. ticks (f a)" "\<And>a w. w_db (snd (f a w)) = w_db w"
  shows "leads J' (go_bind m f)"
  using assms unfolding leads_def ticks_def go_bind_def by (fastforce split: prod.split res.split)

lemma leads_cases:
  "(\<And>a. leads J' (f a)) \<Longrightarrow> leads J' m \<Longrightarrow> leads J' (case x of None \<Rightarrow> m | Some a \<Rightarrow> f a)"
  "(\<And>e. leads J' (g e)) \<Longrightarrow> (\<And>a. leads J' (h a)) \<Longrightarrow> leads J' (case y of Inl e \<Rightarrow> g e | Inr a \<Rightarrow> h a)"
  "(\<And>a b. leads J' (j a b)) \<Longrightarrow> leads J' (case z of (a, b) \<Rightarrow> j a b)"
  "leads J' m \<Longrightarrow> leads J' n \<Longrightarrow> leads J' (if c then m else n)"
  "leads J' (k v) \<Longrightarrow> leads J' (Let v k)"
  by (simp_all split: option.split sum.split prod.split)

lemma leads_update:
  assumes "ticks m" "\<And>b. J b \<Longrightarrow> J' b"
    and "\<And>w a w'. J (w_db w) \<Longrightarrow> K (w_clock w) \<Longrightarrow> m w = (Ok a, w') \<Longrightarrow> J' (w_db w')"
  shows "leads J' (db_update m)"
proof -
  have "J' (w_db (snd (db_update m w)))" if "J (w_db w)" "K (w_clock w)" for w
    using assms(3)[OF that] assms(2) that(1) by (auto simp: db_update_def split: prod.splits res.splits)
  moreover have "K (w_clock (snd (db_update m w)))" if "K (w_clock w)" for w
    using ticks_db(1)[OF assms(1)] that by (simp add: ticks_def)
  ultimately show ?thesis by (simp add: leads_def)
qed

end

end
