(* ===== verification/Schema.thy ===== *)
theory Schema imports CertFp Effects begin

text \<open>
  The schema of the database: which buckets exist, which values they hold and
  how records refer to each other.  \<open>shape_ok\<close> is the layout, the other parts
  of \<open>schema\<close> are one predicate per kind of record.  The transactions of the
  handlers keep \<open>schema\<close>; \<open>inv\<close> is the instance of \<open>go_invariant\<close> that carries it
  through their code.
\<close>

section \<open>Layout\<close>

inductive bucket_path :: "handle \<Rightarrow> bool" where
  root: "bucket_path []"
| top: "k \<in> set db_buckets \<Longrightarrow> bucket_path [k]"
| user: "bucket_path [DBUSERS, u]"
| subforum: "bucket_path [DBSUBFORUMS, s]"
| thread: "bucket_path [DBALLTHREADS, t]"
| posts: "bucket_path [DBALLTHREADS, t, ''posts'']"
| post: "bucket_path [DBALLPOSTS, p]"
| userposts: "bucket_path [DBUSERPOSTS, u]"
| userthreads: "bucket_path [DBUSERTHREADS, u]"

inductive_simps bucket_path_simps [simp]:
  "bucket_path []" "bucket_path [k]" "bucket_path [a, k]" "bucket_path [a, b, k]" "bucket_path (a # b # c # d # p)"

text \<open>The buckets that hold other buckets and no values.\<close>

definition dirs :: "handle set" where
  "dirs = {[], [DBUSERS], [DBSUBFORUMS], [DBALLTHREADS], [DBALLPOSTS], [DBUSERPOSTS], [DBUSERTHREADS]}"

definition shape_ok :: "bucket \<Rightarrow> bool" where
  "shape_ok b \<longleftrightarrow> (\<forall>p. dbis b p \<longrightarrow> bucket_path p) \<and> (\<forall>p \<in> dirs. \<forall>k. dbval b p k = None)"

lemma shape_path: "shape_ok b \<Longrightarrow> \<not> bucket_path p \<Longrightarrow> \<not> dbis b p"
  by (auto simp: shape_ok_def)

lemma shape_flat [simp]:
  assumes "shape_ok b"
  shows "\<not> dbis b [DBFP, k]" "\<not> dbis b [DBVALIDATION, k]" "\<not> dbis b [DBTHREADTOSF, k]" "\<not> dbis b [DBCONSOLELOG, k]"
    "\<not> dbis b [DBUSERS, u, k]" "\<not> dbis b [DBSUBFORUMS, u, k]" "\<not> dbis b [DBALLPOSTS, u, k]"
    "\<not> dbis b [DBUSERPOSTS, u, k]" "\<not> dbis b [DBUSERTHREADS, u, k]"
    "k \<noteq> ''posts'' \<Longrightarrow> \<not> dbis b [DBALLTHREADS, u, k]" "\<not> dbis b [DBALLTHREADS, u, v, k]"
  by (rule shape_path[OF assms], simp)+

lemma shape_dirs [simp]:
  assumes "shape_ok b"
  shows "dbval b [] k = None" "dbval b [DBUSERS] k = None" "dbval b [DBSUBFORUMS] k = None"
    "dbval b [DBALLTHREADS] k = None" "dbval b [DBALLPOSTS] k = None" "dbval b [DBUSERPOSTS] k = None"
    "dbval b [DBUSERTHREADS] k = None"
  using assms by (simp_all add: shape_ok_def dirs_def)

lemma not_dirs [simp]:
  "[DBFP] \<notin> dirs" "[DBVALIDATION] \<notin> dirs" "[DBTHREADTOSF] \<notin> dirs" "[DBCONSOLELOG] \<notin> dirs" "a # c # p \<notin> dirs"
  by (auto simp: dirs_def)

lemma shape_step:
  assumes "shape_ok b" "\<And>p. dbis b' p \<Longrightarrow> dbis b p \<or> bucket_path p"
    and "\<And>p k. p \<in> dirs \<Longrightarrow> dbval b' p k = dbval b p k"
  shows "shape_ok b'"
  using assms by (fastforce simp: shape_ok_def)

section \<open>Records\<close>

definition flag_ok :: "bytes option \<Rightarrow> bool" where
  "flag_ok v \<longleftrightarrow> v = Some ''0'' \<or> v = Some ''1''"

definition muted_ok :: "bytes \<Rightarrow> bool" where
  "muted_ok m \<longleftrightarrow> m = [] \<or> m = PERMANENTLYMUTED \<or> parse_time m \<noteq> None"

definition time_ok :: "bytes option \<Rightarrow> bool" where
  "time_ok v \<longleftrightarrow> (\<exists>s. v = Some s \<and> parse_time s \<noteq> None)"

text \<open>A key handed out by the counter of the bucket \<open>p\<close>.\<close>

definition counted :: "bucket \<Rightarrow> handle \<Rightarrow> bytes \<Rightarrow> bool" where
  "counted b p k \<longleftrightarrow> (\<exists>n. k = itob n \<and> 0 < n \<and> n \<le> dbseq b p)"

definition user_ok :: "bucket \<Rightarrow> bytes \<Rightarrow> bool" where
  "user_ok b u \<longleftrightarrow> u \<noteq> [] \<and> length u \<le> 24 \<and> flag_ok (dbval b [DBUSERS, u] ''verified'')
     \<and> flag_ok (dbval b [DBUSERS, u] ''postnudge'')
     \<and> dbval b [DBUSERS, u] ''password'' \<noteq> None \<and> dbval b [DBUSERS, u] ''email'' \<noteq> None
     \<and> (\<exists>m. dbval b [DBUSERS, u] ''muted'' = Some m \<and> muted_ok m)"

definition users_ok :: "bucket \<Rightarrow> bool" where
  "users_ok b \<longleftrightarrow> (\<forall>u. dbis b [DBUSERS, u] \<longrightarrow> user_ok b u)
     \<and> (\<forall>fp u. dbval b [DBFP] fp = Some u \<longrightarrow> dbis b [DBUSERS, u])
     \<and> (\<forall>c u. dbval b [DBVALIDATION] c = Some u \<longrightarrow> dbis b [DBUSERS, u])"

definition thread_ok :: "bucket \<Rightarrow> bytes \<Rightarrow> bool" where
  "thread_ok b t \<longleftrightarrow> counted b [DBALLTHREADS] t
     \<and> dbval b [DBALLTHREADS, t] ''title'' \<noteq> None
     \<and> (\<exists>u. dbval b [DBALLTHREADS, t] ''user'' = Some u \<and> (\<exists>k. dbval b [DBUSERTHREADS, u] k = Some t))
     \<and> flag_ok (dbval b [DBALLTHREADS, t] ''locked'')
     \<and> dbval b [DBALLTHREADS, t] ''archived'' = Some ''0''
     \<and> time_ok (dbval b [DBALLTHREADS, t] ''lastmodified'')
     \<and> dbis b [DBALLTHREADS, t, ''posts''] \<and> dbval b [DBALLTHREADS, t, ''posts''] (itob 1) \<noteq> None
     \<and> (\<exists>s. dbval b [DBTHREADTOSF] t = Some s \<and> (\<exists>k. dbval b [DBSUBFORUMS, s] k = Some t))"

definition post_ok :: "bucket \<Rightarrow> bytes \<Rightarrow> bool" where
  "post_ok b p \<longleftrightarrow> counted b [DBALLPOSTS] p
     \<and> dbval b [DBALLPOSTS, p] ''text'' \<noteq> None
     \<and> (\<exists>u. dbval b [DBALLPOSTS, p] ''user'' = Some u \<and> (\<exists>k. dbval b [DBUSERPOSTS, u] k = Some p))
     \<and> time_ok (dbval b [DBALLPOSTS, p] ''time'')
     \<and> dbval b [DBALLPOSTS, p] ''archived'' = Some ''0''
     \<and> flag_ok (dbval b [DBALLPOSTS, p] ''reports'')
     \<and> (\<exists>t k. dbval b [DBALLPOSTS, p] ''thread'' = Some t \<and> dbval b [DBALLPOSTS, p] ''index'' = Some k
          \<and> dbval b [DBALLTHREADS, t, ''posts''] k = Some p)"

text \<open>The four kinds of references, each a list keyed by a counter.\<close>

definition refs_ok :: "bucket \<Rightarrow> bool" where
  "refs_ok b \<longleftrightarrow>
     (\<forall>t k p. dbval b [DBALLTHREADS, t, ''posts''] k = Some p \<longrightarrow>
        counted b [DBALLTHREADS, t, ''posts''] k \<and> dbis b [DBALLPOSTS, p]
        \<and> dbval b [DBALLPOSTS, p] ''thread'' = Some t \<and> dbval b [DBALLPOSTS, p] ''index'' = Some k)
   \<and> (\<forall>u k p. dbval b [DBUSERPOSTS, u] k = Some p \<longrightarrow>
        counted b [DBUSERPOSTS, u] k \<and> dbis b [DBALLPOSTS, p] \<and> dbval b [DBALLPOSTS, p] ''user'' = Some u)
   \<and> (\<forall>u k t. dbval b [DBUSERTHREADS, u] k = Some t \<longrightarrow>
        counted b [DBUSERTHREADS, u] k \<and> dbis b [DBALLTHREADS, t] \<and> dbval b [DBALLTHREADS, t] ''user'' = Some u)
   \<and> (\<forall>s k t. dbval b [DBSUBFORUMS, s] k = Some t \<longrightarrow>
        counted b [DBSUBFORUMS, s] k \<and> dbval b [DBTHREADTOSF] t = Some s)
   \<and> (\<forall>t s. dbval b [DBTHREADTOSF] t = Some s \<longrightarrow> dbis b [DBALLTHREADS, t])"

definition threads_ok :: "bucket \<Rightarrow> bool" where
  "threads_ok b \<longleftrightarrow> (\<forall>t. dbis b [DBALLTHREADS, t] \<longrightarrow> thread_ok b t)"

definition posts_ok :: "bucket \<Rightarrow> bool" where
  "posts_ok b \<longleftrightarrow> (\<forall>p. dbis b [DBALLPOSTS, p] \<longrightarrow> post_ok b p)"

definition schema :: "env \<Rightarrow> bucket \<Rightarrow> bool" where
  "schema E b \<longleftrightarrow> db_ready E b \<and> shape_ok b \<and> users_ok b \<and> threads_ok b \<and> posts_ok b \<and> refs_ok b"

lemma schemaD:
  assumes "schema E b"
  shows "db_ready E b" "shape_ok b" "users_ok b" "threads_ok b" "posts_ok b" "refs_ok b"
  using assms by (simp_all add: schema_def)

text \<open>What symbolic execution of a transaction needs to know of the start.\<close>

lemma schema_top:
  assumes "schema E b"
  shows "b_wf b" "shape_ok b" "dbis b [DBUSERS]" "dbis b [DBVALIDATION]" "dbis b [DBFP]" "dbis b [DBSUBFORUMS]"
    "dbis b [DBALLTHREADS]" "dbis b [DBUSERTHREADS]" "dbis b [DBALLPOSTS]" "dbis b [DBUSERPOSTS]"
    "dbis b [DBTHREADTOSF]" "dbis b [DBCONSOLELOG]"
  using db_ready_top[OF schemaD(1)[OF assms]] db_ready_wf[OF schemaD(1)[OF assms]] schemaD(2)[OF assms]
  by simp_all

text \<open>
  The account records and the content live in different top-level buckets; a
  transaction that leaves one part alone keeps what the schema says of it.
\<close>

definition account_buckets :: "bytes list" where
  "account_buckets = [DBUSERS, DBFP, DBVALIDATION]"

definition content_buckets :: "bytes list" where
  "content_buckets = [DBALLTHREADS, DBALLPOSTS, DBUSERPOSTS, DBUSERTHREADS, DBSUBFORUMS, DBTHREADTOSF]"

definition same_in :: "bytes list \<Rightarrow> bucket \<Rightarrow> bucket \<Rightarrow> bool" where
  "same_in K b b' \<longleftrightarrow> (\<forall>a \<in> set K. \<forall>p. dbis b' (a # p) = dbis b (a # p)
     \<and> dbseq b' (a # p) = dbseq b (a # p) \<and> (\<forall>k. dbval b' (a # p) k = dbval b (a # p) k))"

lemma same_inD:
  assumes "same_in K b b'" "a \<in> set K"
  shows "dbis b' (a # p) = dbis b (a # p)" "dbseq b' (a # p) = dbseq b (a # p)"
    "dbval b' (a # p) k = dbval b (a # p) k"
  using assms by (simp_all add: same_in_def)

lemma same_content:
  assumes "same_in content_buckets b b'"
  shows "threads_ok b' = threads_ok b" "posts_ok b' = posts_ok b" "refs_ok b' = refs_ok b"
proof -
  have m: "DBALLTHREADS \<in> set content_buckets" "DBALLPOSTS \<in> set content_buckets" "DBUSERPOSTS \<in> set content_buckets"
    "DBUSERTHREADS \<in> set content_buckets" "DBSUBFORUMS \<in> set content_buckets" "DBTHREADTOSF \<in> set content_buckets"
    by (simp_all add: content_buckets_def)
  note eq = m[THEN same_inD(1)[OF assms]] m[THEN same_inD(2)[OF assms]] m[THEN same_inD(3)[OF assms]]
  show "threads_ok b' = threads_ok b" by (simp only: threads_ok_def thread_ok_def counted_def eq)
  show "posts_ok b' = posts_ok b" by (simp only: posts_ok_def post_ok_def counted_def eq)
  show "refs_ok b' = refs_ok b" by (simp only: refs_ok_def counted_def eq)
qed

lemma same_accounts:
  assumes "same_in account_buckets b b'"
  shows "users_ok b' = users_ok b"
proof -
  have m: "DBUSERS \<in> set account_buckets" "DBFP \<in> set account_buckets" "DBVALIDATION \<in> set account_buckets"
    by (simp_all add: account_buckets_def)
  note eq = m[THEN same_inD(1)[OF assms]] m[THEN same_inD(3)[OF assms]]
  show ?thesis by (simp only: users_ok_def user_ok_def eq)
qed

section \<open>Counters\<close>

definition counters_below :: "nat \<Rightarrow> bucket \<Rightarrow> bool" where
  "counters_below n b \<longleftrightarrow> (\<forall>p. unat (dbseq b p) < n)"

definition counters_free :: "bucket \<Rightarrow> bool" where
  "counters_free b \<longleftrightarrow> counters_below (2 ^ 64 - 1) b"

lemma unat_Suc: "unat (n :: 64 word) < 2 ^ 64 - 1 \<Longrightarrow> unat (n + 1) = Suc (unat n)"
  by (simp add: unat_word_ariths unat_add_lem[THEN iffD1])

lemma counters_free_next:
  assumes "counters_free b"
  shows "0 < dbseq b p + 1" "n \<le> dbseq b p \<Longrightarrow> n \<le> dbseq b p + 1" "dbseq b p < dbseq b p + 1"
proof -
  have *: "unat (dbseq b p + 1) = Suc (unat (dbseq b p))"
    using assms unat_Suc by (simp add: counters_free_def counters_below_def)
  show "0 < dbseq b p + 1" "n \<le> dbseq b p \<Longrightarrow> n \<le> dbseq b p + 1" "dbseq b p < dbseq b p + 1"
    using * by (simp_all add: word_less_nat_alt word_le_nat_alt)
qed

text \<open>The key the next \<open>NextSequence\<close> gives is not in use.\<close>

lemma counted_next_fresh:
  assumes "counters_free b" "counted b p k"
  shows "k \<noteq> itob (dbseq b p + 1)"
  using assms counters_free_next(3)[OF assms(1), of p] by (auto simp: counted_def)

text \<open>The next post or thread number is free as long as no counter is exhausted.\<close>

lemma schema_fresh:
  assumes "schema E b" "counters_free b"
  shows "\<not> dbis b [DBALLPOSTS, itob (dbseq b [DBALLPOSTS] + 1)]"
    "\<not> dbis b [DBALLTHREADS, itob (dbseq b [DBALLTHREADS] + 1)]"
  using counted_next_fresh[OF assms(2)] schemaD(4,5)[OF assms(1)]
  by (auto simp: posts_ok_def post_ok_def threads_ok_def thread_ok_def)

lemma refsD:
  assumes "refs_ok b"
  shows "dbval b [DBALLTHREADS, t, ''posts''] k = Some p \<Longrightarrow> counted b [DBALLTHREADS, t, ''posts''] k \<and> dbis b [DBALLPOSTS, p]
      \<and> dbval b [DBALLPOSTS, p] ''thread'' = Some t \<and> dbval b [DBALLPOSTS, p] ''index'' = Some k"
    "dbval b [DBUSERPOSTS, u] k = Some p \<Longrightarrow>
      counted b [DBUSERPOSTS, u] k \<and> dbis b [DBALLPOSTS, p] \<and> dbval b [DBALLPOSTS, p] ''user'' = Some u"
    "dbval b [DBUSERTHREADS, u] k = Some t \<Longrightarrow>
      counted b [DBUSERTHREADS, u] k \<and> dbis b [DBALLTHREADS, t] \<and> dbval b [DBALLTHREADS, t] ''user'' = Some u"
    "dbval b [DBSUBFORUMS, s] k = Some t \<Longrightarrow> counted b [DBSUBFORUMS, s] k \<and> dbval b [DBTHREADTOSF] t = Some s"
    "dbval b [DBTHREADTOSF] t = Some s \<Longrightarrow> dbis b [DBALLTHREADS, t]"
  using assms by (simp_all add: refs_ok_def)

lemma next_ref_free:
  assumes "schema E b" "counters_free b"
  shows "dbval b [DBALLTHREADS, t, ''posts''] (itob (dbseq b [DBALLTHREADS, t, ''posts''] + 1)) = None"
    "dbval b [DBUSERPOSTS, u] (itob (dbseq b [DBUSERPOSTS, u] + 1)) = None"
    "dbval b [DBUSERTHREADS, u] (itob (dbseq b [DBUSERTHREADS, u] + 1)) = None"
    "dbval b [DBSUBFORUMS, s] (itob (dbseq b [DBSUBFORUMS, s] + 1)) = None"
proof -
  note r = refsD[OF schemaD(6)[OF assms(1)]] and n = counted_next_fresh[OF assms(2)]
  have *: "dbval b q (itob (dbseq b q + 1)) = None" if "\<And>k v. dbval b q k = Some v \<Longrightarrow> counted b q k" for q
    using that n by (cases "dbval b q (itob (dbseq b q + 1))") blast+
  show "dbval b [DBALLTHREADS, t, ''posts''] (itob (dbseq b [DBALLTHREADS, t, ''posts''] + 1)) = None"
    by (rule *) (use r(1) in blast)
  show "dbval b [DBUSERPOSTS, u] (itob (dbseq b [DBUSERPOSTS, u] + 1)) = None"
    by (rule *) (use r(2) in blast)
  show "dbval b [DBUSERTHREADS, u] (itob (dbseq b [DBUSERTHREADS, u] + 1)) = None"
    by (rule *) (use r(3) in blast)
  show "dbval b [DBSUBFORUMS, s] (itob (dbseq b [DBSUBFORUMS, s] + 1)) = None"
    by (rule *) (use r(4) in blast)
qed

lemma counted_next: "counters_free b \<Longrightarrow> dbseq b' q = dbseq b q + 1 \<Longrightarrow> counted b' q (itob (dbseq b q + 1))"
  using counters_free_next(1) by (auto simp: counted_def)

text \<open>
  \<open>extends b b'\<close>: nothing of \<open>b\<close> is lost in \<open>b'\<close> except the fields that change over
  the life of a record, the sessions, the validation codes and the log.  What the
  schema says of the threads and posts of \<open>b\<close> carries over, so only the new records
  are left to check; and what was written stays as it was.
\<close>

definition mutable_at :: "handle \<Rightarrow> bytes \<Rightarrow> bool" where
  "mutable_at q k \<longleftrightarrow> (\<exists>t. q = [DBALLTHREADS, t]) \<and> (k = ''locked'' \<or> k = ''lastmodified'')
     \<or> (\<exists>p. q = [DBALLPOSTS, p]) \<and> k = ''reports''
     \<or> (\<exists>u. q = [DBUSERS, u]) \<and> (k = ''verified'' \<or> k = ''postnudge'' \<or> k = ''muted'')
     \<or> q = [DBFP] \<or> q = [DBVALIDATION] \<or> q = [DBCONSOLELOG]"

definition extends :: "bucket \<Rightarrow> bucket \<Rightarrow> bool" where
  "extends b b' \<longleftrightarrow> (\<forall>q. dbis b q \<longrightarrow> dbis b' q) \<and> (\<forall>q n. n \<le> dbseq b q \<longrightarrow> n \<le> dbseq b' q)
     \<and> (\<forall>q k v. dbval b q k = Some v \<longrightarrow> \<not> mutable_at q k \<longrightarrow> dbval b' q k = Some v)"

lemma extendsD:
  assumes "extends b b'"
  shows "dbis b q \<Longrightarrow> dbis b' q" "counted b q k \<Longrightarrow> counted b' q k"
    "dbval b q k = Some v \<Longrightarrow> \<not> mutable_at q k \<Longrightarrow> dbval b' q k = Some v"
  using assms by (auto simp: extends_def counted_def)

lemma extends_refl [simp]: "extends b b"
  by (simp add: extends_def)

lemma extends_trans: "extends a b \<Longrightarrow> extends b c \<Longrightarrow> extends a c"
  by (simp add: extends_def)

lemma not_mutable [simp]:
  "\<not> mutable_at (a # c # d # p) k" "\<not> mutable_at [DBTHREADTOSF] k"
  "a \<noteq> DBALLTHREADS \<Longrightarrow> a \<noteq> DBALLPOSTS \<Longrightarrow> a \<noteq> DBUSERS \<Longrightarrow> \<not> mutable_at [a, c] k"
  "k \<noteq> ''locked'' \<Longrightarrow> k \<noteq> ''lastmodified'' \<Longrightarrow> \<not> mutable_at [DBALLTHREADS, c] k"
  "k \<noteq> ''reports'' \<Longrightarrow> \<not> mutable_at [DBALLPOSTS, c] k"
  by (auto simp: mutable_at_def)

lemma mutable [simp]:
  "mutable_at [DBFP] k" "mutable_at [DBVALIDATION] k" "mutable_at [DBCONSOLELOG] k"
  "mutable_at [DBALLTHREADS, c] ''locked''" "mutable_at [DBALLTHREADS, c] ''lastmodified''"
  "mutable_at [DBALLPOSTS, c] ''reports''"
  "mutable_at [DBUSERS, c] ''verified''" "mutable_at [DBUSERS, c] ''postnudge''" "mutable_at [DBUSERS, c] ''muted''"
  by (simp_all add: mutable_at_def)

lemma extends_put [intro, simp]: "mutable_at h k \<Longrightarrow> dbis b h \<Longrightarrow> \<not> dbis b (h @ [k]) \<Longrightarrow> extends b (bput h k v b)"
  by (auto simp: extends_def)

lemma extends_del [intro, simp]: "mutable_at h k \<Longrightarrow> \<not> dbis b (h @ [k]) \<Longrightarrow> extends b (bdel h k b)"
  by (auto simp: extends_def)

text \<open>
  \<open>good E n\<close>: the schema holds and no counter has reached \<open>n\<close>.  Only the creation
  of a post or a thread takes numbers, one from each counter it touches.
\<close>

definition good :: "env \<Rightarrow> nat \<Rightarrow> bucket \<Rightarrow> bool" where
  "good E n b \<longleftrightarrow> schema E b \<and> counters_below n b"

lemma goodD: "good E n b \<Longrightarrow> schema E b" "good E n b \<Longrightarrow> counters_below n b"
  by (simp_all add: good_def)

lemma good_free: "good E n b \<Longrightarrow> n \<le> 2 ^ 64 - 1 \<Longrightarrow> counters_free b"
  unfolding good_def counters_free_def counters_below_def by (meson less_le_trans)

lemma good_step: "good E n b \<Longrightarrow> schema E b' \<Longrightarrow> (\<And>p. dbseq b' p = dbseq b p) \<Longrightarrow> good E n b'"
  by (simp add: good_def counters_below_def)

lemma good_mono: "good E n b \<Longrightarrow> good E (Suc n) b"
  by (auto simp: good_def counters_below_def less_SucI)

text \<open>The invariant of the handlers, with the content of an earlier database \<open>b0\<close>.\<close>

definition kept :: "env \<Rightarrow> nat \<Rightarrow> bucket \<Rightarrow> bucket \<Rightarrow> bool" where
  "kept E n b0 b \<longleftrightarrow> good E n b \<and> extends b0 b"

lemma keptD: "kept E n b0 b \<Longrightarrow> good E n b" "kept E n b0 b \<Longrightarrow> extends b0 b"
  by (simp_all add: kept_def)

lemma kept_step: "kept E n b0 b \<Longrightarrow> good E m b' \<Longrightarrow> extends b b' \<Longrightarrow> kept E m b0 b'"
  using extends_trans by (auto simp: kept_def)

lemma kept_mono: "kept E n b0 b \<Longrightarrow> kept E (Suc n) b0 b"
  using good_mono by (simp add: kept_def)

section \<open>Single-field updates\<close>

text \<open>
  Most transactions change one field of one record; each lemma says which values
  the schema allows there.
\<close>

lemma put_layout:
  assumes "schema E b" "dbis b h" "\<not> dbis b (h @ [k])" "h \<notin> dirs"
  shows "db_ready E (bput h k v b)" "shape_ok (bput h k v b)"
proof -
  show "db_ready E (bput h k v b)"
    using schemaD(1)[OF assms(1)] assms(3) by (auto simp: db_ready_def)
  show "shape_ok (bput h k v b)"
    by (rule shape_step[OF schemaD(2)[OF assms(1)]]) (use assms in auto)
qed

lemma put_user_field:
  assumes s: "schema E b" "dbis b [DBUSERS, u]"
    and v: "k = ''verified'' \<and> flag_ok (Some v) \<or> k = ''postnudge'' \<and> flag_ok (Some v) \<or> k = ''muted'' \<and> muted_ok v"
  shows "schema E (bput [DBUSERS, u] k v b)"
proof -
  have n: "\<not> dbis b [DBUSERS, u, k]" using schemaD(2)[OF s(1)] by simp
  have "users_ok (bput [DBUSERS, u] k v b)"
    using schemaD(3)[OF s(1)] s(2) n v by (auto simp: users_ok_def user_ok_def)
  moreover have "same_in content_buckets b (bput [DBUSERS, u] k v b)"
    using n s(2) by (simp add: same_in_def content_buckets_def)
  ultimately show ?thesis
    using put_layout[OF s(1,2)] n schemaD(4-6)[OF s(1)] by (simp add: schema_def same_content)
qed

lemma put_session:
  assumes s: "schema E b" "dbis b [DBUSERS, u]"
  shows "schema E (bput [DBFP] fp u b)"
proof -
  have n: "\<not> dbis b [DBFP, fp]" "dbis b [DBFP]" using schema_top[OF s(1)] by simp_all
  have "users_ok (bput [DBFP] fp u b)"
    using schemaD(3)[OF s(1)] s(2) n by (auto simp: users_ok_def user_ok_def)
  moreover have "same_in content_buckets b (bput [DBFP] fp u b)"
    using n by (simp add: same_in_def content_buckets_def)
  ultimately show ?thesis
    using put_layout[OF s(1) n(2)] n schemaD(4-6)[OF s(1)] by (simp add: schema_def same_content)
qed

lemma delete_keeps:
  assumes s: "schema E b" and h: "h = [DBFP] \<or> h = [DBVALIDATION]"
  shows "schema E (bdel h k b)"
proof -
  have n: "\<not> dbis b (h @ [k])" using h schemaD(2)[OF s] by auto
  have "shape_ok (bdel h k b)"
    by (rule shape_step[OF schemaD(2)[OF s]]) (use n h in auto)
  moreover have "users_ok (bdel h k b)"
    using schemaD(3)[OF s] n h by (auto simp: users_ok_def user_ok_def)
  moreover have "db_ready E (bdel h k b)"
    using schemaD(1)[OF s] n by (auto simp: db_ready_def)
  moreover have "same_in content_buckets b (bdel h k b)"
    using n h by (auto simp: same_in_def content_buckets_def)
  ultimately show ?thesis
    using schemaD(4-6)[OF s] by (simp add: schema_def same_content)
qed

lemma put_log:
  assumes s: "schema E b"
  shows "schema E (bput [DBCONSOLELOG] k v b)"
proof -
  have n: "\<not> dbis b [DBCONSOLELOG, k]" "dbis b [DBCONSOLELOG]" using schema_top[OF s] by simp_all
  have "same_in content_buckets b (bput [DBCONSOLELOG] k v b)" "same_in account_buckets b (bput [DBCONSOLELOG] k v b)"
    using n by (simp_all add: same_in_def content_buckets_def account_buckets_def)
  then show ?thesis
    using put_layout[OF s n(2)] n schemaD(3-6)[OF s] by (simp add: schema_def same_content same_accounts)
qed

lemma put_thread_lock:
  assumes s: "schema E b" "dbis b [DBALLTHREADS, t]" "flag_ok (Some v)"
  shows "schema E (bput [DBALLTHREADS, t] ''locked'' v b)"
proof -
  let ?b = "bput [DBALLTHREADS, t] ''locked'' v b"
  have n: "\<not> dbis b [DBALLTHREADS, t, ''locked'']" using schema_top[OF s(1)] by simp
  have "same_in account_buckets b ?b"
    using n s(2) by (simp add: same_in_def account_buckets_def)
  moreover have "threads_ok ?b"
    using schemaD(4)[OF s(1)] s(2,3) n by (simp add: threads_ok_def thread_ok_def counted_def)
  moreover have "posts_ok ?b"
    using schemaD(5)[OF s(1)] s(2,3) n by (simp add: posts_ok_def post_ok_def counted_def)
  moreover have "refs_ok ?b"
    using schemaD(6)[OF s(1)] s(2,3) n by (simp add: refs_ok_def counted_def)
  ultimately show ?thesis
    using put_layout[OF s(1,2)] n schemaD(3)[OF s(1)] by (simp add: schema_def same_accounts)
qed

lemma put_post_reports:
  assumes s: "schema E b" "dbis b [DBALLPOSTS, p]" "flag_ok (Some v)"
  shows "schema E (bput [DBALLPOSTS, p] ''reports'' v b)"
proof -
  let ?b = "bput [DBALLPOSTS, p] ''reports'' v b"
  have n: "\<not> dbis b [DBALLPOSTS, p, ''reports'']" using schema_top[OF s(1)] by simp
  have "same_in account_buckets b ?b"
    using n s(2) by (simp add: same_in_def account_buckets_def)
  moreover have "threads_ok ?b"
    using schemaD(4)[OF s(1)] s(2,3) n by (simp add: threads_ok_def thread_ok_def counted_def)
  moreover have "posts_ok ?b"
    using schemaD(5)[OF s(1)] s(2,3) n by (simp add: posts_ok_def post_ok_def counted_def)
  moreover have "refs_ok ?b"
    using schemaD(6)[OF s(1)] s(2,3) n by (simp add: refs_ok_def counted_def)
  ultimately show ?thesis
    using put_layout[OF s(1,2)] n schemaD(3)[OF s(1)] by (simp add: schema_def same_accounts)
qed
section \<open>The session of a certificate\<close>

lemma session_db [simp]: "w_db (snd (GetUsernameFromFP E fp w)) = w_db w"
proof -
  have "w_db (snd (go_bind (db_view m) f w)) = w_db w"
    if "\<And>r w'. w_db (snd (f r w')) = w_db w'" for m :: "'b go" and f :: "err + 'b \<Rightarrow> 'c go"
  proof (cases "db_view m w")
    case (Pair r w2)
    then have "w_db w2 = w_db w" using db_view_db[of m w] by simp
    then show ?thesis using Pair that by (simp add: go_bind_def split: res.split)
  qed
  then show ?thesis
    unfolding GetUsernameFromFP_def by (rule) (auto simp: go_ret_def split: sum.split)
qed

context clocked begin

lemma ticks_session [intro, simp]: "ticks (IsUserCurrentlyMuted m)" "ticks (GetUsernameFromFP E fp)"
proof -
  show *: "ticks (IsUserCurrentlyMuted m)" for m
    unfolding IsUserCurrentlyMuted_def by (intro ticks_bind ticks_cases; simp)
  show "ticks (GetUsernameFromFP E fp)"
    unfolding GetUsernameFromFP_def by (intro ticks_bind ticks_cases ticks_db *; simp)
qed

end

context go_invariant begin

lemma keeps_session [intro, simp]: "keeps (GetUsernameFromFP E fp)"
  by (rule keeps_quiet) simp_all

end

section \<open>The invariant of the handlers\<close>

text \<open>
  The clock is assumed to show an instant of the years 1970 to 8300 or so in a zone
  of whole minutes (less than a hundred hours), so that every time the program
  writes, this instant or one an \<open>int64\<close> of nanoseconds away, can be read back.
\<close>

definition clock_time :: "gtime \<Rightarrow> bool" where
  "clock_time t \<longleftrightarrow> zone_ok (t_off t) \<and> 0 \<le> t_ns t \<and> t_ns t < 2 * 10 ^ 20"

lemma clock_year:
  assumes "clock_time t" "\<bar>d\<bar> \<le> 2 ^ 63"
  shows "0 \<le> year_of (t_add t d)" "year_of (t_add t d) < 10000" "zone_ok (t_off (t_add t d))"
proof -
  let ?n = "day_of (t_add t d)"
  have ns: "- (2 ^ 63) \<le> t_ns t + d" "t_ns t + d < 2 * 10 ^ 20 + 2 ^ 63 + 1"
    using assms by (auto simp: clock_time_def)
  have o: "\<bar>t_off t\<bar> < 360000" using assms(1) by (simp add: clock_time_def zone_ok_def)
  have s: "- 9223372037 \<le> (t_ns t + d) div nsec_per_sec" "(t_ns t + d) div nsec_per_sec \<le> 209223372037"
    using ns by (simp_all add: nsec_per_sec_def)
  have b: "- 9223732037 \<le> (t_ns t + d) div nsec_per_sec + t_off t" "(t_ns t + d) div nsec_per_sec + t_off t \<le> 209223732037"
    using s o by linarith+
  then have "0 \<le> ?n" "?n < 365 * 9999"
    unfolding day_of_def t_add_def unix_days_def by simp_all
  then show "0 \<le> year_of (t_add t d)" "year_of (t_add t d) < 10000"
    using year_range[of ?n] by (cases "year_yday ?n"; fastforce simp: year_of_def)+
  show "zone_ok (t_off (t_add t d))" using assms(1) by (simp add: clock_time_def t_add_def)
qed

lemma clock_year_now:
  assumes "clock_time t"
  shows "0 \<le> year_of t" "year_of t < 10000" "zone_ok (t_off t)"
  using clock_year[OF assms, of 0] by (simp_all add: t_add_def)

definition clock_ok :: "(nat \<Rightarrow> gtime) \<Rightarrow> bool" where
  "clock_ok f \<longleftrightarrow> (\<forall>n. clock_time (f n))"

lemma RFC3339Nano_key:
  assumes "clock_time t"
  shows "length (RFC3339Nano t) \<le> 35" "RFC3339Nano t \<noteq> []"
  using length_format_time[OF clock_year_now[OF assms]] by (simp_all add: RFC3339Nano_def)

lemma clock_marshal:
  assumes "clock_time t"
  obtains now where "marshal_text t = Inr now" "length now \<le> 35" "parse_time now = Some t"
proof -
  note y = clock_year_now[OF assms]
  then have "marshal_text t = Inr (RFC3339Nano t)" by (simp add: marshal_text_def)
  then show ?thesis
    using that[of "RFC3339Nano t"] length_format_time[OF y] marshal_round_trip[OF _ y(3)]
    by (simp add: RFC3339Nano_def)
qed

interpretation inv: go_invariant clock_ok "kept E n b0" for E n b0
  by unfold_locales (simp add: clock_ok_def)

text \<open>A transaction that takes no sequence number.\<close>

lemma keeps_tx:
  assumes "inv.ticks m"
    and "\<And>w a w'. schema E (w_db w) \<Longrightarrow> clock_ok (w_clock w) \<Longrightarrow> m w = (Ok a, w') \<Longrightarrow>
           schema E (w_db w') \<and> (\<forall>p. dbseq (w_db w') p = dbseq (w_db w) p) \<and> extends (w_db w) (w_db w')"
  shows "inv.keeps E n b0 (db_update m)"
  by (rule inv.keeps_update[OF assms(1)]) (use assms(2) goodD good_step keptD kept_step in meson)

end
