(* ===== verification/Email.thy ===== *)
theory Email imports Env begin

text \<open>
  \<open>email.go\<close>: the mail sent on registration and its transport.  The SMTP client
  is outside the model: handing it a message records the message in \<open>w_sent\<close>
  and returns the next outcome of \<open>w_smtp\<close>.
\<close>

text \<open>
  \<open>strings.ToLower\<close> as far as a comparison with ASCII text can see it: besides the
  capital letters, U+0130 and U+212A are the only runes with an ASCII lower case.
\<close>

definition lower_rune :: "nat \<Rightarrow> nat" where
  "lower_rune r = (if 65 \<le> r \<and> r \<le> 90 then r + 32 else if r = 0x130 then 105 else if r = 0x212A then 107 else r)"

definition lower_is :: "bytes \<Rightarrow> bytes \<Rightarrow> bool" where
  "lower_is s t \<longleftrightarrow> map lower_rune (runes s) = map byte t"

definition smtp_deliver :: "mail \<Rightarrow> err option go" where
  "smtp_deliver m w =
     (Ok (w_smtp w 0), w\<lparr>w_sent := w_sent w @ [m], w_smtp := \<lambda>n. w_smtp w (Suc n)\<rparr>)"

text \<open>The credentials \<open>main\<close> sets once.\<close>

definition InitEmailAuth :: "config \<Rightarrow> bytes \<times> bytes \<times> bytes" where
  "InitEmailAuth cfg = (smtp_User (c_Smtp cfg), smtp_Pass (c_Smtp cfg), smtp_Address (c_Smtp cfg))"

definition sendEmail :: "env \<Rightarrow> email \<Rightarrow> err option go" where
  "sendEmail E em =
     (let s = c_Smtp (e_cfg E); t = smtp_Type s;
          send = (\<lambda>via. smtp_deliver \<lparr>ml_Via = via, ml_Address = smtp_Address s @ '':'' @ smtp_Port s,
            ml_Auth = InitEmailAuth (e_cfg E), ml_Email = em\<rparr>)
      in if lower_is t ''plain'' then send ''plain''
         else if lower_is t ''tls'' then send ''tls''
         else if lower_is t ''starttls'' then send ''starttls''
         else go_ret (Some (ErrNew ''Invalid config.Smtp.Type. Allowed values: plain/tls/starttls'')))"

definition nl :: bytes where "nl = [CHR 0x0A]"

definition registration_email :: "env \<Rightarrow> bytes \<Rightarrow> bytes \<Rightarrow> email" where
  "registration_email E emailAddr validation =
     \<lparr>em_From = smtp_From (c_Smtp (e_cfg E)), em_To = [emailAddr], em_Subject = ''larigot: new user'',
      em_Text = ''Welcome to '' @ c_ForumName (e_cfg E)
        @ ''! Go verify your account, go to the following link:'' @ nl @ nl
        @ ''gemini://'' @ c_Hostname (e_cfg E) @ ''/verify/'' @ validation @ ''/''\<rparr>"

definition SendEmailOnRegistration :: "env \<Rightarrow> bytes \<Rightarrow> bytes \<Rightarrow> bytes \<Rightarrow> err option go" where
  "SendEmailOnRegistration E username emailAddr validation =
     (if \<not> smtp_Enabled (c_Smtp (e_cfg E)) then go_ret None
      else sendEmail E (registration_email E emailAddr validation))"

lemma sendEmail_db [simp]: "w_db (snd (sendEmail E em w)) = w_db w"
  by (simp add: sendEmail_def smtp_deliver_def go_ret_def Let_def)

lemma SendEmailOnRegistration_db [simp]: "w_db (snd (SendEmailOnRegistration E u e v w)) = w_db w"
  by (simp add: SendEmailOnRegistration_def go_ret_def)

lemma sendEmail_ok: "\<exists>r w'. sendEmail E em w = (Ok r, w')"
  by (simp add: sendEmail_def smtp_deliver_def go_ret_def Let_def)

lemma sendEmail_sent: "\<exists>r w'. sendEmail E em w = (Ok r, w') \<and> w_db w' = w_db w
    \<and> (r = None \<longrightarrow> (\<exists>m. w_sent w' = w_sent w @ [m] \<and> ml_Email m = em))"
  by (auto simp: sendEmail_def smtp_deliver_def go_ret_def Let_def)

end
