(* ===== verification/Users.thy ===== *)
theory Users imports Schema Email begin

text \<open>
  \<open>users.go\<close>: validation of names and passwords, registration, verification of
  an account, log in and log out.  Each transaction is a definition of its own
  (\<open>register_tx\<close>, \<open>verify_tx\<close>, \<open>login_view\<close>, \<open>login_tx\<close>, \<open>logout_tx\<close>) with its effect
  on the database; the handlers compose them as the source does.
\<close>

section \<open>Names and passwords\<close>

definition MinimumPasswordLength :: nat where "MinimumPasswordLength = 8"
definition UsernameMaxLength :: nat where "UsernameMaxLength = 24"

definition validatePassword :: "bytes \<Rightarrow> err option" where
  "validatePassword password = (if length password < MinimumPasswordLength then Some ErrPasswordTooShort else None)"

definition username_rune :: "env \<Rightarrow> nat \<Rightarrow> bool" where
  "username_rune E c \<longleftrightarrow> is_letter E c \<or> is_number E c \<or> c = 95"

definition name_taken_view :: "env \<Rightarrow> bytes \<Rightarrow> unit go" where
  "name_taken_view E username =
     go_bind (tx_must [] DBUSERS) (\<lambda>usersbucket.
     go_bind (tx_cursor usersbucket) (\<lambda>kvs.
     if list_ex (\<lambda>(k, v). equal_fold E k username) kvs then go_fail ErrUserAlreadyExists else go_ret ()))"

definition validateUsername :: "env \<Rightarrow> bytes \<Rightarrow> err option go" where
  "validateUsername E u =
     (let username = trim_space u
      in if length username = 0 then go_ret (Some ErrUsernameTooShort)
         else if UsernameMaxLength < length username then go_ret (Some ErrUsernameTooLong)
         else if \<not> list_all (username_rune E) (runes username) then go_ret (Some ErrUnallowedChar)
         else if \<not> e_db E then go_ret None
         else go_bind (db_view (name_taken_view E username)) (\<lambda>r.
                case r of Inl e \<Rightarrow> go_ret (Some e) | Inr _ \<Rightarrow> go_ret None))"

section \<open>Registration\<close>

definition register_tx :: "env \<Rightarrow> bytes \<Rightarrow> bytes \<Rightarrow> bytes \<Rightarrow> bytes \<Rightarrow> unit go" where
  "register_tx E username email phash validation =
     go_bind (tx_must [] DBUSERS) (\<lambda>usersbucket.
     go_bind (tx_bucket usersbucket username) (\<lambda>alreadyExists.
     if alreadyExists \<noteq> None then go_fail ErrUserAlreadyExists
     else
       go_bind (go_try (tx_create_bucket usersbucket username)) (\<lambda>thisUser.
       go_bind (put_fields thisUser ([(''verified'', ''0'')]
                @ (if \<not> smtp_Enabled (c_Smtp (e_cfg E)) then [(''verified'', ''1'')] else [])
                @ [(''password'', phash), (''postnudge'', ''1''), (''email'', email), (''muted'', [])])) (\<lambda>_.
       go_bind (tx_must [] DBVALIDATION) (\<lambda>valid.
       ignore_err (tx_put valid validation username))))))"

definition OnRegister :: "env \<Rightarrow> bytes \<Rightarrow> bytes \<Rightarrow> bytes \<Rightarrow> err option go" where
  "OnRegister E username email password =
     go_bind read_salt (\<lambda>salt.
     case e_hash E salt password of
       Inl e \<Rightarrow> go_ret (Some e)
     | Inr phash \<Rightarrow>
         go_bind rand_uint64 (\<lambda>r.
         let validation = itob r in
         go_bind (db_update (register_tx E username email phash validation)) (\<lambda>res.
         case res of
           Inl e \<Rightarrow> go_ret (Some e)
         | Inr _ \<Rightarrow> SendEmailOnRegistration E username email validation)))"

definition RegisterUserHandler :: "env \<Rightarrow> url \<Rightarrow> conn option \<Rightarrow> response go" where
  "RegisterUserHandler E u c =
     (let parts = path_parts (u_path u)
      in if length parts = 1 then
           (if u_query u = [] then go_ret (Response Input ''Please enter your username.'')
            else (case query_unescape (u_query u) of
                    Inl e \<Rightarrow> go_ret (ErrorResponse BadRequest e)
                  | Inr user \<Rightarrow>
                      go_bind (validateUsername E user) (\<lambda>r.
                      case r of
                        Some e \<Rightarrow> go_ret (ErrorResponse BadRequest e)
                      | None \<Rightarrow> go_ret (Response RedirectTemporary (''/register/'' @ u_query u @ ''/'')))))
         else if length parts = 2 then
           (if u_query u = [] then go_ret (Response Input ''Please enter your email address.'')
            else go_ret (Response RedirectTemporary (''/'' @ join ''/'' parts @ ''/'' @ u_query u @ ''/'')))
         else if length parts = 3 then
           (if u_query u = [] then go_ret (Response SensitiveInput ''Please enter your password.'')
            else (case query_unescape (u_query u) of
                    Inl e \<Rightarrow> go_ret (ErrorResponse BadRequest e)
                  | Inr p \<Rightarrow>
                      (case validatePassword p of
                         Some e \<Rightarrow> go_ret (ErrorResponse BadRequest e)
                       | None \<Rightarrow>
                           (case query_unescape (parts ! 1) of
                              Inl e \<Rightarrow> go_ret (ErrorResponse BadRequest e)
                            | Inr name \<Rightarrow>
                                go_bind (validateUsername E name) (\<lambda>r.
                                case r of
                                  Some e \<Rightarrow> go_ret (ErrorResponse BadRequest e)
                                | None \<Rightarrow>
                                    (case query_unescape (parts ! 2) of
                                       Inl e \<Rightarrow> go_ret (ErrorResponse BadRequest e)
                                     | Inr em \<Rightarrow>
                                         go_bind (OnRegister E (trim_space name) (trim_space em) (trim_space p)) (\<lambda>r.
                                         case r of
                                           Some e \<Rightarrow> go_ret (ErrorResponse BadRequest e)
                                         | None \<Rightarrow> go_ret (Response RedirectTemporary ''/''))))))))
         else go_ret (Response BadRequest ''illegal path''))"

section \<open>Verification\<close>

definition verify_tx :: "bytes \<Rightarrow> unit go" where
  "verify_tx code =
     go_bind (tx_must [] DBVALIDATION) (\<lambda>validateBucket.
     go_bind (tx_get validateBucket code) (\<lambda>username.
     case username of
       None \<Rightarrow> go_fail UserNotFound
     | Some username \<Rightarrow>
         go_bind (tx_must [] DBUSERS) (\<lambda>allUsers.
         go_bind (tx_bucket allUsers username) (\<lambda>user.
         case user of
           None \<Rightarrow> go_fail UserNotFound
         | Some user \<Rightarrow>
             go_bind (ignore_err (tx_put user ''verified'' ''1'')) (\<lambda>_.
             ignore_err (tx_delete validateBucket code))))))"

definition VerifyUserHandler :: "env \<Rightarrow> url \<Rightarrow> conn option \<Rightarrow> response go" where
  "VerifyUserHandler E u c =
     (let parts = path_parts (u_path u)
      in if length parts \<noteq> 2 then go_ret (Response BadRequest ''Bad Request'')
         else go_bind (db_update (verify_tx (parts ! 1))) (\<lambda>r.
                case r of
                  Inl e \<Rightarrow> go_ret (ErrorResponse BadRequest e)
                | Inr _ \<Rightarrow> go_ret (Response RedirectTemporary ''/'')))"

section \<open>Log in and log out\<close>

definition logout_tx :: "bytes \<Rightarrow> unit go" where
  "logout_tx fp = go_bind (tx_must [] DBFP) (\<lambda>fpbucket. return_err (tx_delete fpbucket fp))"

definition LogoutUserHandler :: "env \<Rightarrow> url \<Rightarrow> conn option \<Rightarrow> response go" where
  "LogoutUserHandler E u c =
     (case GetFingerprint c of
        None \<Rightarrow> go_ret (Response RedirectTemporary ''/'')
      | Some fp \<Rightarrow>
          go_bind (db_update (logout_tx fp)) (\<lambda>r.
          case r of
            Inl e \<Rightarrow> go_ret (ErrorResponse TemporaryFailure e)
          | Inr _ \<Rightarrow> go_ret (Response RedirectTemporary ''/'')))"

definition user_found_view :: "bytes \<Rightarrow> bool go" where
  "user_found_view username =
     go_bind (tx_must [] DBUSERS) (\<lambda>users.
     go_bind (tx_bucket users username) (\<lambda>b. go_ret (b \<noteq> None)))"

definition login_view :: "bytes \<Rightarrow> bytes go" where
  "login_view user =
     go_bind (tx_must [] DBUSERS) (\<lambda>userbucket.
     go_bind (tx_bucket userbucket user) (\<lambda>thisUser.
     case thisUser of
       None \<Rightarrow> go_fail UserNotFound
     | Some thisUser \<Rightarrow>
         go_bind (tx_get thisUser ''verified'') (\<lambda>v.
         if \<not> bytes_equal v ''1'' then go_fail (ErrNew ''User not verified'')
         else go_bind (tx_get thisUser ''password'') (\<lambda>p. go_ret (str_of p)))))"

definition login_tx :: "bytes \<Rightarrow> bytes \<Rightarrow> unit go" where
  "login_tx fp user = go_bind (tx_must [] DBFP) (\<lambda>fpbucket. return_err (tx_put fpbucket fp user))"

definition LoginUserHandler :: "env \<Rightarrow> url \<Rightarrow> conn option \<Rightarrow> response go" where
  "LoginUserHandler E u c =
     (case GetFingerprint c of
        None \<Rightarrow> go_ret CertRequired
      | Some fp \<Rightarrow>
          (let parts = path_parts (u_path u)
           in if length parts = 1 then
                (if u_query u = [] then go_ret (Response Input ''Username'')
                 else (case query_unescape (u_query u) of
                         Inl e \<Rightarrow> go_ret (ErrorResponse BadRequest e)
                       | Inr username \<Rightarrow>
                           go_bind (db_view (user_found_view username)) (\<lambda>r.
                           case r of
                             Inl e \<Rightarrow> go_ret (ErrorResponse TemporaryFailure e)
                           | Inr userFound \<Rightarrow>
                               go_ret (if userFound then Response RedirectTemporary (''/login/'' @ u_query u @ ''/'')
                                       else Response BadRequest ''Username not found''))))
              else if length parts = 2 then
                (if u_query u = [] then go_ret (Response SensitiveInput ''Password'')
                 else (case query_unescape (parts ! 1) of
                         Inl e \<Rightarrow> go_ret (ErrorResponse BadRequest e)
                       | Inr user \<Rightarrow>
                           (case query_unescape (u_query u) of
                              Inl e \<Rightarrow> go_ret (ErrorResponse BadRequest e)
                            | Inr pass \<Rightarrow>
                                go_bind (db_view (login_view user)) (\<lambda>r.
                                case r of
                                  Inl e \<Rightarrow> go_ret (ErrorResponse BadRequest e)
                                | Inr hash \<Rightarrow>
                                    (case e_compare E hash pass of
                                       Some e \<Rightarrow> go_ret (Response BadRequest ''Login unsuccessful'')
                                     | None \<Rightarrow>
                                         go_bind (db_update (login_tx fp user)) (\<lambda>r.
                                         case r of
                                           Inl e \<Rightarrow> go_ret (ErrorResponse TemporaryFailure e)
                                         | Inr _ \<Rightarrow> go_ret (Response RedirectTemporary ''/'')))))))
              else go_ret (Response Success ''text/gemini'')))"

section \<open>Effects on the database\<close>

text \<open>
  \<open>register_db\<close> is what a committed registration does to the database, as the
  code's sequence of writes; \<open>register_db_flat\<close> is the same effect as one change:
  a new record, a new validation code, nothing else.
\<close>

definition user_record :: "env \<Rightarrow> bytes \<Rightarrow> bytes \<Rightarrow> (bytes \<times> bytes) list" where
  "user_record E email phash =
     [(''verified'', if smtp_Enabled (c_Smtp (e_cfg E)) then ''0'' else ''1''), (''password'', phash),
      (''postnudge'', ''1''), (''email'', email), (''muted'', [])]"

definition register_db :: "env \<Rightarrow> bytes \<Rightarrow> bytes \<Rightarrow> bytes \<Rightarrow> bytes \<Rightarrow> bucket \<Rightarrow> bucket" where
  "register_db E u email phash code b =
     bput [DBVALIDATION] code u (put_all [DBUSERS, u] ([(''verified'', ''0'')]
       @ (if \<not> smtp_Enabled (c_Smtp (e_cfg E)) then [(''verified'', ''1'')] else [])
       @ [(''password'', phash), (''postnudge'', ''1''), (''email'', email), (''muted'', [])])
       (bcreate [DBUSERS] u b))"

lemma register_tx_eq:
  assumes "schema E (w_db w)" "\<not> dbis (w_db w) [DBUSERS, u]" "u \<noteq> []" "length u \<le> UsernameMaxLength"
    "length email \<le> MaxValueSize" "length phash \<le> MaxValueSize"
  shows "register_tx E u email phash (itob r) w =
     (Ok (), w\<lparr>w_db := register_db E u email phash (itob r) (w_db w)\<rparr>)"
  using assms(2-) schema_top[OF assms(1)]
  by (cases "smtp_Enabled (c_Smtp (e_cfg E))")
     (simp_all add: register_tx_def go_simps MaxKeySize_def MaxValueSize_def UsernameMaxLength_def
       register_db_def storable_def dbis_put_all)

lemma register_tx_exists:
  assumes "schema E (w_db w)" "dbis (w_db w) [DBUSERS, u]"
  shows "register_tx E u email phash code w = (Fail ErrUserAlreadyExists, w)"
  using assms(2) schema_top[OF assms(1)] by (simp add: register_tx_def go_simps)

lemma register_db_flat:
  assumes "schema E b" "\<not> dbis b [DBUSERS, u]"
  shows "b_wf (register_db E u email phash code b)"
    "dbis (register_db E u email phash code b) p \<longleftrightarrow> dbis b p \<or> p = [DBUSERS, u]"
    "dbval (register_db E u email phash code b) p k =
       (if p = [DBUSERS, u] then map_of (user_record E email phash) k
        else if p = [DBVALIDATION] \<and> k = code then Some u else dbval b p k)"
    "dbseq (register_db E u email phash code b) p = dbseq b p"
  using assms(2) schema_top[OF assms(1)] 
  by (simp_all add: register_db_def user_record_def not_dbis_val dbis_put_all dbval_put_all dbseq_put_all)

lemma register_keeps:
  assumes s: "schema E b" and n: "\<not> dbis b [DBUSERS, u]" and u: "u \<noteq> []" "length u \<le> UsernameMaxLength"
  shows "schema E (register_db E u email phash code b)"
proof -
  note flat = register_db_flat[OF s n]
  have "db_ready E (register_db E u email phash code b)"
    using schemaD(1)[OF s] by (auto simp: db_ready_def flat)
  moreover have "shape_ok (register_db E u email phash code b)"
    by (rule shape_step[OF schemaD(2)[OF s]]) (auto simp: flat)
  moreover have "users_ok (register_db E u email phash code b)"
    using schemaD(3)[OF s] n u
    by (auto simp: users_ok_def user_ok_def flat flag_ok_def muted_ok_def user_record_def UsernameMaxLength_def)
  moreover have "same_in content_buckets b (register_db E u email phash code b)"
    by (simp add: same_in_def content_buckets_def flat)
  ultimately show ?thesis using schemaD(4-6)[OF s] by (simp add: schema_def same_content)
qed

lemma register_extends:
  assumes s: "schema E b" and n: "\<not> dbis b [DBUSERS, u]"
  shows "extends b (register_db E u email phash code b)"
  using not_dbis_val[OF n] by (auto simp: extends_def register_db_flat[OF s n])

lemma verify_tx_eq:
  assumes "schema E (w_db w)"
  shows "verify_tx code w =
    (case dbval (w_db w) [DBVALIDATION] code of
       None \<Rightarrow> (Fail UserNotFound, w)
     | Some u \<Rightarrow> (Ok (), w\<lparr>w_db := bdel [DBVALIDATION] code (bput [DBUSERS, u] ''verified'' ''1'' (w_db w))\<rparr>))"
proof (cases "dbval (w_db w) [DBVALIDATION] code")
  case (Some u)
  then have "dbis (w_db w) [DBUSERS, u]" using schemaD(3)[OF assms] by (simp add: users_ok_def)
  then show ?thesis
    using Some schema_top[OF assms]
    by (simp add: verify_tx_def go_simps MaxKeySize_def MaxValueSize_def)
qed (use schema_top[OF assms] in \<open>simp add: verify_tx_def go_simps\<close>)

lemma logout_tx_eq:
  assumes "schema E (w_db w)"
  shows "logout_tx fp w =
    (Ok (), if dbval (w_db w) [DBFP] fp = None then w else w\<lparr>w_db := bdel [DBFP] fp (w_db w)\<rparr>)"
  using schema_top[OF assms] by (simp add: logout_tx_def go_simps)

lemma login_tx_eq:
  assumes "schema E (w_db w)" "fp \<noteq> []" "length fp \<le> 100" "length u \<le> UsernameMaxLength"
  shows "login_tx fp u w = (Ok (), w\<lparr>w_db := bput [DBFP] fp u (w_db w)\<rparr>)"
  using assms(2-) schema_top[OF assms(1)]
  by (simp add: login_tx_def go_simps MaxKeySize_def MaxValueSize_def UsernameMaxLength_def)

text \<open>Log in reads the hash of a verified user.\<close>

lemma login_view_eq:
  assumes "schema E (w_db w)"
  shows "login_view u w =
    (if \<not> dbis (w_db w) [DBUSERS, u] then (Fail UserNotFound, w)
     else if dbval (w_db w) [DBUSERS, u] ''verified'' \<noteq> Some ''1'' then (Fail (ErrNew ''User not verified''), w)
     else (Ok (str_of (dbval (w_db w) [DBUSERS, u] ''password'')), w))"
  using schema_top[OF assms]
  by (auto simp: login_view_def go_simps bytes_equal_def str_of_def split: option.split)

lemma fingerprint_form: "GetFingerprint c = Some fp \<Longrightarrow> fp \<noteq> [] \<and> length fp = 44"
proof -
  have l: "length (CertFP raw) = 44" for raw by (simp add: CertFP_def length_base64)
  then have "CertFP raw \<noteq> []" for raw by (metis list.size(3) zero_neq_numeral)
  with l show "GetFingerprint c = Some fp \<Longrightarrow> fp \<noteq> [] \<and> length fp = 44"
    by (auto simp: GetFingerprint_def split: option.splits list.splits)
qed

section \<open>The handlers keep the schema\<close>

text \<open>
  \<open>request_ok\<close>: the server reads at most 1027 bytes of a request (\<open>Server.ReadLimit\<close>
  and 3), reading a byte at most triples it (U+FFFD), and so does escaping.
  \<open>hash_ok\<close>: a bcrypt hash has 60 bytes.
\<close>

definition request_ok :: "url \<Rightarrow> bool" where
  "request_ok u \<longleftrightarrow> length (u_path u) \<le> 16384 \<and> length (u_query u) \<le> 16384"

definition hash_ok :: "env \<Rightarrow> bool" where
  "hash_ok E \<longleftrightarrow> (\<forall>s p h. e_hash E s p = Inr h \<longrightarrow> length h = 60)"

lemma validateUsername_None:
  assumes "validateUsername E u w = (Ok None, w')"
  shows "trim_space u \<noteq> []" "length (trim_space u) \<le> UsernameMaxLength"
    "list_all (username_rune E) (runes (trim_space u))"
  using assms by (auto simp: validateUsername_def Let_def go_ret_def split: if_splits)

lemma ticks_name_taken [intro, simp]: "inv.ticks (name_taken_view E u)"
  unfolding name_taken_view_def by (intro inv.ticks_bind inv.ticks_cases) simp_all

lemma ticks_register [intro, simp]: "inv.ticks (register_tx E u email phash code)"
  unfolding register_tx_def by (intro inv.ticks_bind inv.ticks_cases inv.ticks_wrap; simp)

lemma keeps_register:
  assumes "u \<noteq> []" "length u \<le> UsernameMaxLength" "length email \<le> MaxValueSize" "length phash \<le> MaxValueSize"
  shows "inv.keeps E n b0 (db_update (register_tx E u email phash (itob r)))"
proof (rule keeps_tx[OF ticks_register])
  fix w a w' assume s: "schema E (w_db w)" and r: "register_tx E u email phash (itob r) w = (Ok a, w')"
  have n: "\<not> dbis (w_db w) [DBUSERS, u]" using register_tx_exists[OF s] r by auto
  show "schema E (w_db w') \<and> (\<forall>p. dbseq (w_db w') p = dbseq (w_db w) p) \<and> extends (w_db w) (w_db w')"
    using register_tx_eq[OF s n assms] r register_keeps[OF s n assms(1,2)] register_db_flat(4)[OF s n]
      register_extends[OF s n] by auto
qed

lemma ticks_mail [intro, simp]: "inv.ticks (sendEmail E em)" "inv.ticks (SendEmailOnRegistration E u e v)"
  by (simp_all add: inv.ticks_def sendEmail_def smtp_deliver_def SendEmailOnRegistration_def go_ret_def Let_def)

lemma keeps_mail [intro, simp]: "inv.keeps E n b0 (sendEmail E em)" "inv.keeps E n b0 (SendEmailOnRegistration E u e v)"
  by (rule inv.keeps_quiet; simp)+

lemma keeps_OnRegister:
  assumes "u \<noteq> []" "length u \<le> UsernameMaxLength" "length email \<le> MaxValueSize" "hash_ok E"
  shows "inv.keeps E n b0 (OnRegister E u email pw)"
  unfolding OnRegister_def
proof (intro inv.keeps_bind inv.keeps_reads)
  fix salt
  show "inv.keeps E n b0 (case e_hash E salt pw of Inl e \<Rightarrow> go_ret (Some e)
     | Inr phash \<Rightarrow> go_bind rand_uint64 (\<lambda>r. let validation = itob r in
         go_bind (db_update (register_tx E u email phash validation))
          (\<lambda>res. case res of Inl e \<Rightarrow> go_ret (Some e) | Inr _ \<Rightarrow> SendEmailOnRegistration E u email validation)))"
  proof (cases "e_hash E salt pw")
    case (Inr phash)
    then have "length phash = 60" using assms(4) by (simp add: hash_ok_def)
    then have "length phash \<le> MaxValueSize" by (simp add: MaxValueSize_def)
    then show ?thesis using Inr keeps_register[OF assms(1-3)]
      by (auto simp: Let_def intro!: inv.keeps_bind inv.keeps_cases)
  qed simp
qed


lemma keeps_validateUsername [intro, simp]: "inv.keeps E n b0 (validateUsername E u)"
  unfolding validateUsername_def by (intro inv.keeps_cases inv.keeps_bind inv.keeps_view; simp)

lemma register_email:
  assumes "request_ok u" "query_unescape (path_parts (u_path u) ! 2) = Inr em" "length (path_parts (u_path u)) = 3"
  shows "length (trim_space em) \<le> MaxValueSize"
proof -
  have "path_parts (u_path u) ! 2 \<in> set (path_parts (u_path u))" using assms(3) by simp
  then have "length em \<le> 16384"
    using length_unescape[of True] assms path_parts_length
    by (fastforce simp: query_unescape_def request_ok_def)
  then show ?thesis using length_trim_space[of em] by (simp add: MaxValueSize_def)
qed

lemma keeps_RegisterUserHandler:
  assumes "request_ok u" "hash_ok E"
  shows "inv.keeps E n b0 (RegisterUserHandler E u c)"
proof -
  let ?parts = "path_parts (u_path u)"
  have *: "inv.keeps E n b0 (OnRegister E (trim_space name) (trim_space em) pw)"
    if "validateUsername E name w = (Ok None, w')" "query_unescape (?parts ! 2) = Inr em" "length ?parts = 3" for name em pw w w'
    using keeps_OnRegister validateUsername_None[OF that(1)] assms(2) register_email[OF assms(1) that(2,3)] by blast
  show ?thesis
    unfolding RegisterUserHandler_def Let_def
    by (auto intro!: inv.keeps_bind_res[OF keeps_validateUsername] inv.keeps_bind * split: option.split sum.split)
qed

lemma ticks_small [intro, simp]: "inv.ticks (verify_tx code)" "inv.ticks (logout_tx fp)" "inv.ticks (login_tx fp u)"
  "inv.ticks (user_found_view u)" "inv.ticks (login_view u)"
  unfolding verify_tx_def logout_tx_def login_tx_def user_found_view_def login_view_def
  by (intro inv.ticks_bind inv.ticks_cases inv.ticks_wrap; simp)+

lemma keeps_verify: "inv.keeps E n b0 (db_update (verify_tx code))"
proof (rule keeps_tx[OF ticks_small(1)])
  fix w a w' assume s: "schema E (w_db w)" and r: "verify_tx code w = (Ok a, w')"
  then obtain u where u: "dbval (w_db w) [DBVALIDATION] code = Some u"
    "w' = w\<lparr>w_db := bdel [DBVALIDATION] code (bput [DBUSERS, u] ''verified'' ''1'' (w_db w))\<rparr>"
    using verify_tx_eq[OF s, of code] by (auto split: option.splits)
  then have d: "dbis (w_db w) [DBUSERS, u]" using schemaD(3)[OF s] by (simp add: users_ok_def)
  then have "extends (w_db w) (bput [DBUSERS, u] ''verified'' ''1'' (w_db w))" using schemaD(2)[OF s] by (intro extends_put) auto
  then have "extends (w_db w) (w_db w')"
    by (rule extends_trans) (use u(2) schemaD(2)[OF s] in auto)
  then show "schema E (w_db w') \<and> (\<forall>p. dbseq (w_db w') p = dbseq (w_db w) p) \<and> extends (w_db w) (w_db w')"
    using d u(2) put_user_field[OF s] schemaD(2)[OF s] by (auto intro!: delete_keeps simp: flag_ok_def)
qed

lemma keeps_logout: "inv.keeps E n b0 (db_update (logout_tx fp))"
proof (rule keeps_tx[OF ticks_small(2)])
  fix w a w' assume s: "schema E (w_db w)" and r: "logout_tx fp w = (Ok a, w')"
  then show "schema E (w_db w') \<and> (\<forall>p. dbseq (w_db w') p = dbseq (w_db w) p) \<and> extends (w_db w) (w_db w')"
    using logout_tx_eq[OF s, of fp] schemaD(2)[OF s] by (auto intro!: delete_keeps split: if_splits)
qed

lemma keeps_VerifyUserHandler: "inv.keeps E n b0 (VerifyUserHandler E u c)"
  unfolding VerifyUserHandler_def Let_def by (auto intro!: inv.keeps_bind keeps_verify split: sum.split)

lemma keeps_LogoutUserHandler: "inv.keeps E n b0 (LogoutUserHandler E u c)"
  unfolding LogoutUserHandler_def by (auto intro!: inv.keeps_bind keeps_logout split: sum.split option.split)

text \<open>
  Log in writes the session of a user that existed when its hash was read; the
  two are different transactions, so the write itself relies on users never
  being removed.
\<close>

lemma login_result:
  assumes "schema E (w_db w)" "db_view (login_view u) w = (Ok (Inr h), w')"
  shows "dbis (w_db w) [DBUSERS, u]" "dbval (w_db w) [DBUSERS, u] ''verified'' = Some ''1''"
    "h = str_of (dbval (w_db w) [DBUSERS, u] ''password'')" "w' = w"
  using assms(2) login_view_eq[OF assms(1), of u] by (auto simp: db_view_def split: if_splits)

lemma keeps_LoginUserHandler: "inv.keeps E n b0 (LoginUserHandler E u c)"
proof -
  have *: "inv.keeps E n b0 (go_bind (db_view (login_view user)) (\<lambda>r.
      case r of Inl e \<Rightarrow> go_ret (ErrorResponse BadRequest e)
      | Inr hash \<Rightarrow> (case e_compare E hash pass of
           Some e \<Rightarrow> go_ret (Response BadRequest ''Login unsuccessful'')
         | None \<Rightarrow> go_bind (db_update (login_tx fp user)) (\<lambda>r. case r of
             Inl e \<Rightarrow> go_ret (ErrorResponse TemporaryFailure e)
           | Inr _ \<Rightarrow> go_ret (Response RedirectTemporary ''/'')))))" (is "inv.keeps E n b0 (go_bind ?v ?f)")
    if fp: "GetFingerprint c = Some fp" for fp user pass
    unfolding inv.keeps_def
  proof (intro allI impI)
    fix w :: world assume g: "kept E n b0 (w_db w)" and k: "clock_ok (w_clock w)"
    note s = goodD(1)[OF keptD(1)[OF g]]
    show "kept E n b0 (w_db (snd (go_bind ?v ?f w))) \<and> clock_ok (w_clock (snd (go_bind ?v ?f w)))"
    proof (cases "\<exists>h. db_view (login_view user) w = (Ok (Inr h), w)")
      case True
      then obtain h where h: "db_view (login_view user) w = (Ok (Inr h), w)" by blast
      note l = login_result[OF s h]
      have "user_ok (w_db w) user" using schemaD(3)[OF s] l(1) by (simp add: users_ok_def)
      then have "login_tx fp user w = (Ok (), w\<lparr>w_db := bput [DBFP] fp user (w_db w)\<rparr>)"
        using login_tx_eq[OF s, of fp user] fingerprint_form[OF fp] by (simp add: user_ok_def UsernameMaxLength_def)
      moreover have "kept E n b0 (bput [DBFP] fp user (w_db w))"
        using kept_step[OF g good_step[OF keptD(1)[OF g] put_session[OF s l(1), of fp]]] schema_top[OF s] by auto
      ultimately show ?thesis
        using h g k by (auto simp: go_simps db_update_def split: option.split)
    next
      case False
      then obtain e where "db_view (login_view user) w = (Ok (Inl e), w)"
        using login_view_eq[OF s, of user] by (auto simp: db_view_def split: if_splits)
      then show ?thesis using g k by (simp add: go_simps)
    qed
  qed
  show ?thesis
    unfolding LoginUserHandler_def Let_def
    by (auto intro!: * split: option.split sum.split)
qed
end
