(* ===== verification/Nudge.thy ===== *)
theory Nudge imports Users begin

text \<open>
  \<open>nudge.go\<close>: the privacy reminder a user is shown once before the first post.
\<close>

definition nudge_view :: "bytes \<Rightarrow> unit go" where
  "nudge_view username =
     go_bind (tx_must [] DBUSERS) (\<lambda>allUsers.
     go_bind (tx_bucket allUsers username) (\<lambda>user.
     case user of
       None \<Rightarrow> go_fail UserNotFound
     | Some user \<Rightarrow>
         go_bind (tx_get user ''postnudge'') (\<lambda>v.
         if bytes_equal v ''1'' then go_fail ShouldPostNudge else go_ret ())))"

definition CheckForPostNudge :: "bytes \<Rightarrow> (err + unit) go" where
  "CheckForPostNudge username = db_view (nudge_view username)"

definition nudge_tx :: "bytes \<Rightarrow> unit go" where
  "nudge_tx username =
     go_bind (tx_must [] DBUSERS) (\<lambda>allUsers.
     go_bind (tx_bucket allUsers username) (\<lambda>user.
     case user of
       None \<Rightarrow> go_fail UserNotFound
     | Some user \<Rightarrow> return_err (tx_put user ''postnudge'' ''0'')))"

definition UpdateForPostNudge :: "bytes \<Rightarrow> (err + unit) go" where
  "UpdateForPostNudge username = db_update (nudge_tx username)"

definition PostNudge :: "bytes \<Rightarrow> lines" where
  "PostNudge url =
     [''Welcome to larigot!'',
      ''Thank you for making a post on our bulletin board! We would like to remind you that any content that you post can be viewed by the entire internet. Please be mindful of what content you share, and refrain from revealing any private information.'',
      ''This page will only be displayed once. Please refresh the page or click on the following link to continue to writing your post.'',
      LinkPrefix @ url]"

definition PostNudgeHandler :: "url \<Rightarrow> conn option \<Rightarrow> response" where
  "PostNudgeHandler u c = ResponseFormat Success ''text/gemini'' (PostNudge (RequestURI u))"

section \<open>Facts\<close>

lemma CheckForPostNudge_eq:
  assumes "schema E (w_db w)"
  shows "CheckForPostNudge username w =
    (Ok (if \<not> dbis (w_db w) [DBUSERS, username] then Inl UserNotFound
         else if dbval (w_db w) [DBUSERS, username] ''postnudge'' = Some ''1'' then Inl ShouldPostNudge
         else Inr ()), w)"
  using schema_top[OF assms]
  by (auto simp: CheckForPostNudge_def nudge_view_def db_view_def go_simps bytes_equal_def str_of_def split: option.split)

lemma UpdateForPostNudge_eq:
  assumes "schema E (w_db w)" "dbis (w_db w) [DBUSERS, username]"
  shows "UpdateForPostNudge username w =
    (Ok (Inr ()), w\<lparr>w_db := bput [DBUSERS, username] ''postnudge'' ''0'' (w_db w)\<rparr>)"
  using assms(2) schema_top[OF assms(1)]
  by (simp add: UpdateForPostNudge_def nudge_tx_def db_update_def go_simps MaxKeySize_def MaxValueSize_def)

lemma ticks_nudge [intro, simp]: "inv.ticks (nudge_view u)" "inv.ticks (nudge_tx u)"
  unfolding nudge_view_def nudge_tx_def by (intro inv.ticks_bind inv.ticks_cases inv.ticks_wrap; simp)+

lemma keeps_nudge [intro, simp]: "inv.keeps E n b0 (CheckForPostNudge u)" "inv.keeps E n b0 (UpdateForPostNudge u)"
proof -
  show "inv.keeps E n b0 (CheckForPostNudge u)" unfolding CheckForPostNudge_def by (intro inv.keeps_view) simp
  show "inv.keeps E n b0 (UpdateForPostNudge u)"
    unfolding UpdateForPostNudge_def
  proof (rule keeps_tx[OF ticks_nudge(2)])
    fix w a w' assume s: "schema E (w_db w)" and r: "nudge_tx u w = (Ok a, w')"
    have d: "dbis (w_db w) [DBUSERS, u]"
      using r schema_top[OF s] by (cases "dbis (w_db w) [DBUSERS, u]") (auto simp: nudge_tx_def go_simps)
    then have "w_db w' = bput [DBUSERS, u] ''postnudge'' ''0'' (w_db w)"
      using UpdateForPostNudge_eq[OF s d] r by (simp add: UpdateForPostNudge_def db_update_def)
    then show "schema E (w_db w') \<and> (\<forall>p. dbseq (w_db w') p = dbseq (w_db w) p) \<and> extends (w_db w) (w_db w')"
      using d put_user_field[OF s d] schemaD(2)[OF s] by (simp add: flag_ok_def)
  qed
qed

end
