(* ===== verification/SearchKey.thy ===== *)
theory SearchKey imports Schema begin

text \<open>
  \<open>searchkey.go\<close>: the entries of the keyword index.  The index itself is bleve's;
  the model keeps the queue of entries waiting on the channel and the entries
  that a full repopulation indexes.  The channel's buffer of 64 entries only
  delays the sender, so the queue is unbounded here.
\<close>

definition copy16 :: "bytes \<Rightarrow> bytes" where
  "copy16 b = take 16 (b @ replicate 16 CHR 0x00)"

definition makeKeywordIndex :: "bytes \<Rightarrow> bytes \<Rightarrow> bytes \<Rightarrow> bytes \<Rightarrow> kwindex" where
  "makeKeywordIndex author text ID threadID =
     \<lparr>kw_author = author, kw_text = text, kw_id = copy16 ID, kw_thread = copy16 threadID\<rparr>"

text \<open>The search itself is the index's; only the ids of its hits are used.\<close>

definition DoKeywordSearch :: "env \<Rightarrow> bytes \<Rightarrow> err + bytes list" where
  "DoKeywordSearch E keywords = e_search E keywords"

definition sendPostToKeywordDB :: "bytes \<Rightarrow> bytes \<Rightarrow> bytes \<Rightarrow> bytes \<Rightarrow> unit go" where
  "sendPostToKeywordDB author text ID threadID w =
     (case w_kw w of
        None \<Rightarrow> (Ok (), w)
      | Some q \<Rightarrow> (Ok (), w\<lparr>w_kw := Some (q @ [makeKeywordIndex author text ID threadID])\<rparr>))"

text \<open>One turn of \<open>keywordDBloop\<close>: the oldest entry is indexed under its id.\<close>

definition keywordDBloop_step :: "world \<Rightarrow> ((bytes \<times> kwindex) \<times> world) option" where
  "keywordDBloop_step w =
     (case w_kw w of
        Some (x # q) \<Rightarrow> Some ((kw_id x, x), w\<lparr>w_kw := Some q\<rparr>)
      | _ \<Rightarrow> None)"

text \<open>The loop for a number of turns: the entries it indexes; it waits when the queue is empty.\<close>

fun keywordDBloop :: "nat \<Rightarrow> world \<Rightarrow> (bytes \<times> kwindex) list \<times> world" where
  "keywordDBloop 0 w = ([], w)"
| "keywordDBloop (Suc n) w =
     (case keywordDBloop_step w of
        None \<Rightarrow> ([], w)
      | Some (e, w') \<Rightarrow> (case keywordDBloop n w' of (es, w'') \<Rightarrow> (e # es, w'')))"

text \<open>The entries \<open>initKeyword\<close> indexes when it repopulates.\<close>

fun index_posts :: "handle \<Rightarrow> (bytes \<times> bytes option) list \<Rightarrow> (bytes \<times> kwindex) list go" where
  "index_posts posts [] = go_ret []"
| "index_posts posts ((k, v) # kvs) =
     go_bind (tx_bucket posts k) (\<lambda>post.
     case post of
       None \<Rightarrow> index_posts posts kvs
     | Some post \<Rightarrow>
         go_bind (tx_get post ''user'') (\<lambda>u.
         go_bind (tx_get post ''text'') (\<lambda>t.
         go_bind (tx_get post ''thread'') (\<lambda>th.
         go_bind (index_posts posts kvs) (\<lambda>r.
         go_ret ((k, makeKeywordIndex (str_of u) (str_of t) k (str_of th)) # r))))))"

definition repopulate :: "(err + (bytes \<times> kwindex) list) go" where
  "repopulate = db_view (
     go_bind (tx_must [] DBALLPOSTS) (\<lambda>posts.
     go_bind (tx_cursor posts) (\<lambda>kvs. index_posts posts kvs)))"

lemma copy16_id [simp]: "length b = 16 \<Longrightarrow> copy16 b = b"
  by (simp add: copy16_def)

lemma length_copy16 [simp]: "length (copy16 b) = 16"
  by (simp add: copy16_def)

lemma sendPostToKeywordDB_eq:
  "sendPostToKeywordDB a t i th w =
     (Ok (), w\<lparr>w_kw := map_option (\<lambda>q. q @ [makeKeywordIndex a t i th]) (w_kw w)\<rparr>)"
  by (simp add: sendPostToKeywordDB_def split: option.split)

lemma ticks_send [intro, simp]: "inv.ticks (sendPostToKeywordDB a t i th)"
  by (simp add: inv.ticks_def sendPostToKeywordDB_eq)

text \<open>Repopulating indexes every post under its own id, with its author, text and thread.\<close>

lemma index_posts_eq:
  assumes "\<forall>(k, v) \<in> set kvs. dbis (w_db w) (posts @ [k])"
  shows "index_posts posts kvs w =
    (Ok (map (\<lambda>(k, v). (k, makeKeywordIndex (str_of (dbval (w_db w) (posts @ [k]) ''user''))
        (str_of (dbval (w_db w) (posts @ [k]) ''text'')) k (str_of (dbval (w_db w) (posts @ [k]) ''thread'')))) kvs), w)"
  using assms by (induction kvs) (auto simp: go_simps)

end
