(* ===== verification/Threads.thy ===== *)
theory Threads imports Nudge SearchKey begin

text \<open>
  \<open>threads.go\<close>: creating threads and posts.  \<open>AddNewPostToDatabase\<close> is the part
  both share; \<open>new_post_tx\<close> and \<open>new_thread_tx\<close> are the two transactions and
  the handlers check certificate, mute, priviledge and nudge before them.
\<close>

definition CurrentlyMutedResponse :: response where
  "CurrentlyMutedResponse = Response BadRequest ''You are currently muted''"

definition whichPrivCanReplyToLockedThread :: UserPriviledge where
  "whichPrivCanReplyToLockedThread = Mod"

definition UnauthorizedCert :: response where
  "UnauthorizedCert = ResponseFormat CertificateNotAuthorised ''Unauthorized'' []"

definition BadUserInput :: response where
  "BadUserInput = ResponseFormat PermanentFailure ''Bad user input'' []"

record Thread =
  th_ID :: bytes
  th_Title :: bytes
  th_User :: bytes
  th_LastModified :: gtime
  th_Locked :: bool
  th_Archived :: bool

definition Less :: "Thread \<Rightarrow> Thread \<Rightarrow> bool" where
  "Less a b \<longleftrightarrow> \<not> t_before (th_LastModified a) (th_LastModified b)"

section \<open>Posts\<close>

definition AddNewPostToDatabase :: "bytes \<Rightarrow> bytes \<Rightarrow> bytes \<Rightarrow> bytes \<Rightarrow> handle \<Rightarrow> 64 word go" where
  "AddNewPostToDatabase text username nowBytes threadIDBytes thread =
     go_bind (tx_bucket [] DBALLPOSTS) (\<lambda>posts.
     go_bind (or_fail posts (ErrNew ''posts == nil'')) (\<lambda>posts.
     go_bind (go_try (tx_next_sequence posts)) (\<lambda>postsID.
     let postsIDBytes = itob postsID in
     go_bind (go_try (tx_create_bucket posts postsIDBytes)) (\<lambda>post.
     go_bind (put_fields post [(''text'', text), (''user'', username), (''time'', nowBytes),
                (''thread'', threadIDBytes), (''index'', []), (''archived'', ''0''), (''reports'', ''0'')]) (\<lambda>_.
     go_bind (tx_bucket thread ''posts'') (\<lambda>threadPosts.
     go_bind (or_fail threadPosts (ErrNew ''threadPosts == nil'')) (\<lambda>threadPosts.
     go_bind (go_try (tx_next_sequence threadPosts)) (\<lambda>threadPostsNext.
     let threadPostsNextBytes = itob threadPostsNext in
     go_bind (ignore_err (tx_put threadPosts threadPostsNextBytes postsIDBytes)) (\<lambda>_.
     go_bind (ignore_err (tx_put post ''index'' threadPostsNextBytes)) (\<lambda>_.
     go_bind (tx_bucket [] DBUSERPOSTS) (\<lambda>usersPosts.
     go_bind (or_fail usersPosts (ErrNew ''usersPosts == nil'')) (\<lambda>usersPosts.
     go_bind (go_try (tx_create_bucket_if_not_exists usersPosts username)) (\<lambda>usersPostsSub.
     go_bind (go_try (tx_next_sequence usersPostsSub)) (\<lambda>usersPostsSubNext.
     go_bind (ignore_err (tx_put usersPostsSub (itob usersPostsSubNext) postsIDBytes)) (\<lambda>_.
     go_ret postsID)))))))))))))))"

definition new_post_tx :: "bytes \<Rightarrow> bytes \<Rightarrow> bytes \<Rightarrow> UserPriviledge \<Rightarrow> unit go" where
  "new_post_tx username threadID text userPriv =
     go_bind (tx_bucket [] DBALLTHREADS) (\<lambda>threads.
     go_bind (or_fail threads (ErrNew ''threads == nil'')) (\<lambda>threads.
     go_bind (tx_bucket threads threadID) (\<lambda>thread.
     go_bind (or_fail thread ErrNotFound) (\<lambda>thread.
     go_bind (tx_get thread ''locked'') (\<lambda>locked.
     go_bind (guard_err (bytes_equal locked ''1'' \<and> \<not> Is userPriv whichPrivCanReplyToLockedThread)
                ErrThreadIsLocked) (\<lambda>_.
     go_bind time_now (\<lambda>now.
     go_bind (lift_err (marshal_text now)) (\<lambda>nowBytes.
     go_bind (ignore_err (tx_put thread ''lastmodified'' nowBytes)) (\<lambda>_.
     go_bind (AddNewPostToDatabase text username nowBytes threadID thread) (\<lambda>postID.
     sendPostToKeywordDB username text (itob postID) threadID))))))))))"

definition OnNewPost :: "bytes \<Rightarrow> bytes \<Rightarrow> bytes \<Rightarrow> UserPriviledge \<Rightarrow> response go" where
  "OnNewPost username threadID text userPriv =
     go_bind (db_update (new_post_tx username threadID text userPriv)) (\<lambda>r.
     case r of
       Inl e \<Rightarrow> go_ret (ErrorResponse TemporaryFailure e)
     | Inr _ \<Rightarrow> go_ret (Response RedirectTemporary (''/thread/'' @ threadID @ ''/'')))"

definition subforum_of_view :: "bytes \<Rightarrow> bytes go" where
  "subforum_of_view i =
     go_bind (tx_must [] DBTHREADTOSF) (\<lambda>idToSubforum.
     go_bind (tx_get idToSubforum i) (\<lambda>sf. or_fail sf (ErrNew ''Thread ID not found'')))"

text \<open>
  \<open>if err := CheckForPostNudge(username); errors.Is(err, ShouldPostNudge) {...}
  else if err != nil {...}\<close>, then the rest.
\<close>

definition with_nudge :: "bytes \<Rightarrow> url \<Rightarrow> conn option \<Rightarrow> response go \<Rightarrow> response go" where
  "with_nudge username u c rest =
     go_bind (CheckForPostNudge username) (\<lambda>r.
     case r of
       Inl e \<Rightarrow>
         (if e = ShouldPostNudge
          then go_bind (UpdateForPostNudge username) (\<lambda>_. go_ret (PostNudgeHandler u c))
          else go_ret (ErrorResponse TemporaryFailure e))
     | Inr _ \<Rightarrow> rest)"

text \<open>The path of a request to \<open>/new/post/\<close> with other than three parts is indexed all the same.\<close>

definition NewPostHandler :: "env \<Rightarrow> url \<Rightarrow> conn option \<Rightarrow> response go" where
  "NewPostHandler E u c =
     (case GetFingerprint c of
        None \<Rightarrow> go_ret CertRequired
      | Some fp \<Rightarrow>
          go_bind (GetUsernameFromFP E fp) (\<lambda>s.
          if s_username s = [] then go_ret UnauthorizedCert
          else if s_muted s then go_ret CurrentlyMutedResponse
          else
            (let parts = path_parts (u_path u)
             in if length parts \<le> 2 then go_panic
                else
                  (let i = parts ! 2
                   in go_bind (db_view (subforum_of_view i)) (\<lambda>r.
                      case r of
                        Inl e \<Rightarrow> go_ret (ErrorResponse BadRequest e)
                      | Inr subforumID \<Rightarrow>
                          (case GetSubforumPrivFromID (e_cfg E) subforumID of
                             Inl e \<Rightarrow> go_ret (ErrorResponse BadRequest e)
                           | Inr (_, threadPriv) \<Rightarrow>
                               (if \<not> Is (s_priv s) threadPriv
                                then go_ret (Response BadRequest ''User is not priviledged to reply on this subforum.'')
                                else with_nudge (s_username s) u c
                                  (if u_query u = [] then go_ret (Response Input ''New post'')
                                   else (case query_unescape (u_query u) of
                                           Inl e \<Rightarrow> go_ret (ErrorResponse TemporaryFailure e)
                                         | Inr text \<Rightarrow> OnNewPost (s_username s) i text (s_priv s))))))))))"

section \<open>Threads\<close>

definition TitleMaxLength :: nat where "TitleMaxLength = 96"

definition title_rune :: "env \<Rightarrow> nat \<Rightarrow> bool" where
  "title_rune E c \<longleftrightarrow> in_Latin E c \<or> in_Space E c \<or> in_P E c"

definition ValidateThreadTitle :: "env \<Rightarrow> bytes \<Rightarrow> err option" where
  "ValidateThreadTitle E t =
     (let title = trim_space t
      in if length title = 0 then Some TitleEmptyNotAllowed
         else if TitleMaxLength < length title then Some TitleTooLong
         else if \<not> list_all (title_rune E) (runes t) then Some TitleIllegalCharacter
         else None)"

text \<open>
  The transaction of \<open>OnNewThread\<close> in its three parts: the thread's own bucket and
  the reference from its author, the first post, and the references from and to
  the subforum.
\<close>

definition open_thread :: "bytes \<Rightarrow> bytes \<Rightarrow> (64 word \<times> bytes \<times> handle) go" where
  "open_thread username title =
     go_bind (tx_bucket [] DBALLTHREADS) (\<lambda>threads.
     go_bind (or_fail threads (ErrNew ''threads == nil'')) (\<lambda>threads.
     go_bind (go_try (tx_next_sequence threads)) (\<lambda>threadID.
     let threadIDBytes = itob threadID in
     go_bind (go_try (tx_create_bucket threads threadIDBytes)) (\<lambda>thread.
     go_bind (put_fields thread [(''title'', title), (''user'', username), (''locked'', ''0''), (''archived'', ''0'')]) (\<lambda>_.
     go_bind time_now (\<lambda>now.
     go_bind (lift_err (marshal_text now)) (\<lambda>nowBytes.
     go_bind (ignore_err (tx_put thread ''lastmodified'' nowBytes)) (\<lambda>_.
     go_bind (go_try (tx_create_bucket thread ''posts'')) (\<lambda>_.
     go_bind (tx_bucket [] DBUSERTHREADS) (\<lambda>userthreads.
     go_bind (or_fail userthreads (ErrNew ''userthreads == nil'')) (\<lambda>userthreads.
     go_bind (go_try (tx_create_bucket_if_not_exists userthreads username)) (\<lambda>userthreadsSub.
     go_bind (go_try (tx_next_sequence userthreadsSub)) (\<lambda>userthreadsSubNext.
     go_bind (ignore_err (tx_put userthreadsSub (itob userthreadsSubNext) threadIDBytes)) (\<lambda>_.
     go_ret (threadID, nowBytes, thread)))))))))))))))"

definition link_thread :: "bytes \<Rightarrow> 64 word \<Rightarrow> unit go" where
  "link_thread subforum threadID =
     (let threadIDBytes = itob threadID in
     go_bind (tx_bucket [] DBSUBFORUMS) (\<lambda>subforumBucket.
     go_bind (or_fail subforumBucket (ErrNew ''subforumBucket == nil'')) (\<lambda>subforumBucket.
     go_bind (tx_bucket subforumBucket subforum) (\<lambda>subforumBucketSub.
     go_bind (or_fail subforumBucketSub (ErrNew ''subforumBucketSub == nil'')) (\<lambda>subforumBucketSub.
     go_bind (go_try (tx_next_sequence subforumBucketSub)) (\<lambda>sfbsNext.
     go_bind (ignore_err (tx_put subforumBucketSub (itob sfbsNext) threadIDBytes)) (\<lambda>_.
     go_bind (tx_must [] DBTHREADTOSF) (\<lambda>threadToSubf.
     ignore_err (tx_put threadToSubf threadIDBytes subforum)))))))))"

definition new_thread_tx :: "bytes \<Rightarrow> bytes \<Rightarrow> bytes \<Rightarrow> bytes \<Rightarrow> unit go" where
  "new_thread_tx subforum username title text =
     go_bind (open_thread username title) (\<lambda>(threadID, nowBytes, thread).
     go_bind (AddNewPostToDatabase text username nowBytes (itob threadID) thread) (\<lambda>postID.
     go_bind (sendPostToKeywordDB username text (itob postID) (itob threadID)) (\<lambda>_.
     link_thread subforum threadID)))"

definition OnNewThread :: "env \<Rightarrow> bytes \<Rightarrow> bytes \<Rightarrow> bytes \<Rightarrow> bytes \<Rightarrow> response go" where
  "OnNewThread E subforum username title0 text =
     (let title = trim_space title0
      in case ValidateThreadTitle E title of
           Some e \<Rightarrow> go_ret (ErrorResponse BadRequest e)
         | None \<Rightarrow>
             go_bind (db_update (new_thread_tx subforum username title text)) (\<lambda>r.
             case r of
               Inl e \<Rightarrow> go_ret (ErrorResponse TemporaryFailure e)
             | Inr _ \<Rightarrow> go_ret (Response RedirectTemporary (''/f/'' @ subforum @ ''/''))))"

definition CreateThreadHandler :: "env \<Rightarrow> url \<Rightarrow> conn option \<Rightarrow> response go" where
  "CreateThreadHandler E u c =
     (case GetFingerprint c of
        None \<Rightarrow> go_ret CertRequired
      | Some fp \<Rightarrow>
          go_bind (GetUsernameFromFP E fp) (\<lambda>s.
          if s_username s = [] then go_ret UnauthorizedCert
          else if s_muted s then go_ret CurrentlyMutedResponse
          else with_nudge (s_username s) u c
            (let parts = path_parts (u_path u)
             in if length parts < 3 then go_ret (Response BadRequest ''Bad request'')
                else
                  (let subforum = parts ! 2
                   in case GetSubforumPrivFromID (e_cfg E) subforum of
                        Inl e \<Rightarrow> go_ret (ErrorResponse BadRequest e)
                      | Inr (threadPriv, _) \<Rightarrow>
                          (if \<not> Is (s_priv s) threadPriv
                           then go_ret (Response BadRequest ''User is not authorized to make a thread in this subforum'')
                           else if length parts = 3 then
                             (if u_query u = [] then go_ret (Response Input ''Thread title'')
                              else go_ret (Response RedirectTemporary (''/'' @ join ''/'' parts @ ''/'' @ u_query u @ ''/'')))
                           else if length parts = 4 then
                             (if u_query u = [] then go_ret (Response Input ''Thread title'')
                              else (case path_unescape (parts ! 3) of
                                      Inl e \<Rightarrow> go_ret (ErrorResponse BadRequest e)
                                    | Inr title \<Rightarrow>
                                        (case query_unescape (u_query u) of
                                           Inl e \<Rightarrow> go_ret (ErrorResponse BadRequest e)
                                         | Inr text \<Rightarrow> OnNewThread E subforum (s_username s) title text)))
                           else go_ret BadUserInput)))))"

end
