(* ===== verification/Console.thy ===== *)
theory Console imports Threads begin

text \<open>
  \<open>console.go\<close>: the moderators' commands.  Every call of \<open>ConsoleCommand\<close> ends in
  \<open>LogConsoleCommand\<close> (the deferred call), whatever the command returned.
\<close>

definition log_tx :: "bytes \<Rightarrow> UserPriviledge \<Rightarrow> bytes \<Rightarrow> unit go" where
  "log_tx user priv command =
     go_bind (tx_must [] DBCONSOLELOG) (\<lambda>logs.
     go_bind time_now (\<lambda>now.
     return_err (tx_put logs (RFC3339Nano now) (user @ ''/'' @ priv_string priv @ '':'' @ command))))"

definition LogConsoleCommand :: "bytes \<Rightarrow> UserPriviledge \<Rightarrow> bytes \<Rightarrow> unit go" where
  "LogConsoleCommand user priv command = go_bind (db_update (log_tx user priv command)) (\<lambda>_. go_ret ())"

definition lock_tx :: "bytes \<Rightarrow> bytes \<Rightarrow> unit go" where
  "lock_tx i status =
     go_bind (tx_must [] DBALLTHREADS) (\<lambda>allThreads.
     go_bind (tx_bucket allThreads i) (\<lambda>thread.
     go_bind (or_fail thread (ErrNew ''Thread not found.'')) (\<lambda>thread.
     return_err (tx_put thread ''locked'' status))))"

definition MuteOrUnmuteThread :: "bytes \<Rightarrow> bytes \<Rightarrow> (err + unit) go" where
  "MuteOrUnmuteThread i status = db_update (lock_tx i status)"

section \<open>Muting\<close>

text \<open>\<open>time.Hour * 24 * time.Duration(days)\<close> on 64 bits.\<close>

definition mute_duration :: "int \<Rightarrow> int" where
  "mute_duration days = wrap64 (wrap64 (3600 * nsec_per_sec * 24) * days)"

definition mute_tx :: "bytes \<Rightarrow> bytes \<Rightarrow> unit go" where
  "mute_tx name period =
     go_bind (tx_must [] DBUSERS) (\<lambda>allusers.
     go_bind (tx_bucket allusers name) (\<lambda>user.
     go_bind (or_fail user ErrUserNotFound) (\<lambda>user.
     if period = ''permanent'' then ignore_err (tx_put user ''muted'' ''permanent'')
     else (case atoi period of
             None \<Rightarrow> go_fail (ErrNew (''Invalid field: not '' @ [CHR 0x22] @ ''permanent'' @ [CHR 0x22] @ '' or number of days.''))
           | Some days \<Rightarrow>
               (if days \<le> 0 then go_fail (ErrNew ''You may not specify a number of days <= 0.'')
                else go_bind time_now (\<lambda>now.
                  ignore_err (tx_put user ''muted'' (RFC3339 (t_add now (mute_duration days))))))))))"

definition unmute_tx :: "bytes \<Rightarrow> unit go" where
  "unmute_tx name =
     go_bind (tx_must [] DBUSERS) (\<lambda>allusers.
     go_bind (tx_bucket allusers name) (\<lambda>user.
     go_bind (or_fail user ErrUserNotFound) (\<lambda>user.
     ignore_err (tx_put user ''muted'' []))))"

section \<open>Reading the log\<close>

definition read_lines :: "bool \<Rightarrow> int \<Rightarrow> bool \<Rightarrow> (bytes \<times> bytes option) list \<Rightarrow> bytes list" where
  "read_lines allCommands numCommands dontShowTime kvs =
     (let back = rev kvs
      in map (\<lambda>(k, v). if dontShowTime then str_of v else k @ '' - '' @ str_of v)
           (if allCommands then back else take (nat numCommands) back))"

definition read_view :: "bool \<Rightarrow> int \<Rightarrow> bool \<Rightarrow> bytes list go" where
  "read_view allCommands numCommands dontShowTime =
     go_bind (tx_must [] DBCONSOLELOG) (\<lambda>logs.
     go_bind (tx_cursor logs) (\<lambda>kvs. go_ret (read_lines allCommands numCommands dontShowTime kvs)))"

section \<open>The commands\<close>

text \<open>\<open>if err := m; err != nil { return err.Error(), s }; return done, gemini.Success\<close>\<close>

definition reply :: "(err + unit) go \<Rightarrow> status \<Rightarrow> bytes \<Rightarrow> (bytes \<times> status) go" where
  "reply m s done_text = go_bind m (\<lambda>r. case r of Inl e \<Rightarrow> go_ret (err_msg e, s) | Inr _ \<Rightarrow> go_ret (done_text, Success))"

definition console_switch :: "env \<Rightarrow> bytes list \<Rightarrow> (bytes \<times> status) go" where
  "console_switch E fs =
     (if fs = [] then go_ret (''Please enter a command'', BadRequest)
      else if hd fs = ''lock'' then
        (if length fs \<noteq> 2 then go_ret (''lock <thread ID>'', BadRequest)
         else reply (MuteOrUnmuteThread (fs ! 1) ''1'') TemporaryFailure ''thread has been locked.'')
      else if hd fs = ''unlock'' then
        (if length fs \<noteq> 2 then go_ret (''unlock <thread ID>'', BadRequest)
         else reply (MuteOrUnmuteThread (fs ! 1) ''0'') TemporaryFailure ''thread has been unlocked.'')
      else if hd fs = ''mute'' then
        (if length fs < 3 then
           go_ret (''mute <username> <'' @ [CHR 0x22] @ ''permanent'' @ [CHR 0x22] @ ''/#days>'', BadRequest)
         else reply (db_update (mute_tx (fs ! 1) (fs ! 2))) BadRequest ''User has been muted.'')
      else if hd fs = ''unmute'' then
        (if length fs < 2 then go_ret (''unmute <username>'', BadRequest)
         else reply (db_update (unmute_tx (fs ! 1))) BadRequest ''User has been unmuted.'')
      else if hd fs = ''read'' then
        (let allCommands = (1 < length fs \<and> fs ! 1 = ''all'');
             numCommands = (if 1 < length fs then (case atoi (fs ! 1) of None \<Rightarrow> 32 | Some n \<Rightarrow> n) else 32);
             dontShowTime = (last fs = ''notime'')
         in go_bind (db_view (read_view allCommands numCommands dontShowTime)) (\<lambda>r.
            case r of
              Inl e \<Rightarrow> go_ret (err_msg e, TemporaryFailure)
            | Inr commands \<Rightarrow> go_ret (join [CHR 0x0A] commands, Success)))
      else if hd fs = ''help'' then
        (case e_read_file E ''consolehelp.txt'' of
           Inl e \<Rightarrow> go_ret (err_msg e, TemporaryFailure)
         | Inr s \<Rightarrow> go_ret (s, Success))
      else if hd fs = ''log'' then go_ret (''Logged.'', Success)
      else go_ret (''Unknown command'', BadRequest))"

text \<open>The deferred call runs whether the command returns or panics.\<close>

definition ConsoleCommand :: "env \<Rightarrow> bytes \<Rightarrow> UserPriviledge \<Rightarrow> bytes \<Rightarrow> (bytes \<times> status) go" where
  "ConsoleCommand E user priv command w =
     (case console_switch E (strings_fields command) w of
        (r, w') \<Rightarrow>
          (case LogConsoleCommand user priv command w' of
             (Ok _, w'') \<Rightarrow> (r, w'')
           | (Fail e, w'') \<Rightarrow> (Fail e, w'')
           | (Panic, w'') \<Rightarrow> (Panic, w'')))"

definition DoCommand :: "env \<Rightarrow> bytes \<Rightarrow> (bytes \<times> status) go" where
  "DoCommand E command = ConsoleCommand E ''*internal*'' Admin command"

definition ConsoleHandler :: "env \<Rightarrow> url \<Rightarrow> conn option \<Rightarrow> response go" where
  "ConsoleHandler E u c =
     (case GetFingerprint c of
        None \<Rightarrow> go_ret (Response ClientCertificateRequired ''Client certificate required'')
      | Some fp \<Rightarrow>
          go_bind (GetUsernameFromFP E fp) (\<lambda>s.
          if \<not> Is (s_priv s) Mod then go_ret (Response CertificateNotAuthorised ''Unauthorized'')
          else if u_query u = [] then go_ret (Response Input ''Enter command'')
          else (case query_unescape (u_query u) of
                  Inl e \<Rightarrow> go_ret (ErrorResponse BadRequest e)
                | Inr unesc \<Rightarrow>
                    go_bind (ConsoleCommand E (s_username s) (s_priv s) unesc) (\<lambda>(txt, st).
                    go_ret (if st = Success then ResponsePlain (''20 text/plain'' @ crlf @ txt) else Response st txt)))))"

text \<open>\<open>scanln.go\<close>: a line typed at the server; \<open>quit\<close> shuts it down first.\<close>

definition OnSTDin :: "env \<Rightarrow> unit go \<Rightarrow> bytes \<Rightarrow> (bytes \<times> status) go" where
  "OnSTDin E OnQuit command =
     go_bind (if command = ''quit'' then OnQuit else go_ret ()) (\<lambda>_.
     ConsoleCommand E ''*Console*'' Admin command)"

end
