(* ===== verification/ThreadsDb.thy ===== *)
theory ThreadsDb imports Threads begin

text \<open>
  What the transactions of \<open>threads.go\<close> do to the database.  Each is first shown
  equal to the code's sequence of writes (\<open>AddNewPost_eq\<close>, \<open>open_thread_eq\<close>,
  \<open>link_thread_eq\<close>, \<open>new_post_tx_eq\<close>, \<open>new_thread_tx_eq\<close>), then summarised by its
  effect on values, buckets and counters (the \<open>_flat\<close> lemmas), from which the
  schema is shown to be kept.
\<close>

section \<open>Effects on the database\<close>

text \<open>The fields of a new post, and what \<open>AddNewPostToDatabase\<close> writes.\<close>

definition post_record :: "bytes \<Rightarrow> bytes \<Rightarrow> bytes \<Rightarrow> bytes \<Rightarrow> bytes \<Rightarrow> (bytes \<times> bytes) list" where
  "post_record body username now t idx =
     [(''text'', body), (''user'', username), (''time'', now), (''thread'', t),
      (''index'', idx), (''archived'', ''0''), (''reports'', ''0'')]"

definition add_post_db :: "bytes \<Rightarrow> bytes \<Rightarrow> bytes \<Rightarrow> bytes \<Rightarrow> bucket \<Rightarrow> bucket" where
  "add_post_db body username now t b =
     (let p = itob (dbseq b [DBALLPOSTS] + 1);
          b1 = put_all [DBALLPOSTS, p] (post_record body username now t [])
                 (bcreate [DBALLPOSTS] p (bnext [DBALLPOSTS] b));
          idx = itob (dbseq b [DBALLTHREADS, t, ''posts''] + 1);
          b2 = bput [DBALLTHREADS, t, ''posts''] idx p (bnext [DBALLTHREADS, t, ''posts''] b1);
          b3 = bput [DBALLPOSTS, p] ''index'' idx b2;
          b4 = (if dbis b [DBUSERPOSTS, username] then b3 else bcreate [DBUSERPOSTS] username b3)
      in bput [DBUSERPOSTS, username] (itob (dbseq b [DBUSERPOSTS, username] + 1)) p
           (bnext [DBUSERPOSTS, username] b4))"

definition post_room :: "bytes \<Rightarrow> bucket \<Rightarrow> bool" where
  "post_room t b \<longleftrightarrow> b_wf b \<and> shape_ok b \<and> dbis b [DBALLPOSTS] \<and> dbis b [DBUSERPOSTS]
     \<and> dbis b [DBALLTHREADS, t, ''posts''] \<and> \<not> dbis b [DBALLPOSTS, itob (dbseq b [DBALLPOSTS] + 1)]"

lemma AddNewPost_eq:
  assumes "post_room t (w_db w)"
    "u \<noteq> []" "length u \<le> UsernameMaxLength" "length body \<le> MaxValueSize" "length now \<le> 100" "length t = 16"
  shows "AddNewPostToDatabase body u now t [DBALLTHREADS, t] w =
    (Ok (dbseq (w_db w) [DBALLPOSTS] + 1), w\<lparr>w_db := add_post_db body u now t (w_db w)\<rparr>)"
  using assms
  by (cases "dbis (w_db w) [DBUSERPOSTS, u]")
     (simp_all add: AddNewPostToDatabase_def Let_def go_simps MaxKeySize_def MaxValueSize_def UsernameMaxLength_def
       add_post_db_def not_dbis_val storable_def dbis_put_all dbval_put_all dbseq_put_all post_record_def post_room_def)

lemma add_post_flat:
  assumes "post_room t b"
  shows "b_wf (add_post_db body u now t b)"
   and "dbis (add_post_db body u now t b) q \<longleftrightarrow> dbis b q \<or> q = [DBALLPOSTS, itob (dbseq b [DBALLPOSTS] + 1)]
          \<or> q = [DBUSERPOSTS, u]"
   and "dbval (add_post_db body u now t b) q k =
      (if q = [DBALLPOSTS, itob (dbseq b [DBALLPOSTS] + 1)]
       then map_of (post_record body u now t (itob (dbseq b [DBALLTHREADS, t, ''posts''] + 1))) k
       else if q = [DBALLTHREADS, t, ''posts''] \<and> k = itob (dbseq b [DBALLTHREADS, t, ''posts''] + 1)
         \<or> q = [DBUSERPOSTS, u] \<and> k = itob (dbseq b [DBUSERPOSTS, u] + 1)
       then Some (itob (dbseq b [DBALLPOSTS] + 1)) else dbval b q k)"
   and "dbseq (add_post_db body u now t b) q =
      (if q = [DBALLPOSTS] \<or> q = [DBALLTHREADS, t, ''posts''] \<or> q = [DBUSERPOSTS, u] then dbseq b q + 1 else dbseq b q)"
proof -
  define p where "p = itob (dbseq b [DBALLPOSTS] + 1)"
  define h where "h = [DBALLTHREADS, t, ''posts'']"
  define idx where "idx = itob (dbseq b h + 1)"
  define b1 where "b1 = put_all [DBALLPOSTS, p] (post_record body u now t []) (bcreate [DBALLPOSTS] p (bnext [DBALLPOSTS] b))"
  define b2 where "b2 = bput h idx p (bnext h b1)"
  define b3 where "b3 = bput [DBALLPOSTS, p] ''index'' idx b2"
  define b4 where "b4 = (if dbis b [DBUSERPOSTS, u] then b3 else bcreate [DBUSERPOSTS] u b3)"
  have room: "b_wf b" "shape_ok b" "dbis b [DBALLPOSTS]" "dbis b [DBUSERPOSTS]" "dbis b h" "\<not> dbis b [DBALLPOSTS, p]"
    using assms by (simp_all add: post_room_def p_def h_def)
  have eq: "add_post_db body u now t b = bput [DBUSERPOSTS, u] (itob (dbseq b [DBUSERPOSTS, u] + 1)) p (bnext [DBUSERPOSTS, u] b4)"
    by (simp add: add_post_db_def Let_def b4_def b3_def b2_def b1_def idx_def h_def p_def)
  have 1: "dbis b1 q = (dbis b q \<or> q = [DBALLPOSTS, p])"
    "dbseq b1 q = (if q = [DBALLPOSTS] then dbseq b q + 1 else dbseq b q)"
    "dbval b1 q k = (if q = [DBALLPOSTS, p] then map_of (post_record body u now t []) k else dbval b q k)" for q k
    using room by (simp_all add: b1_def not_dbis_val dbis_put_all dbval_put_all dbseq_put_all post_record_def)
  have n: "\<not> dbis b (h @ [k])" for k using room(2) by (simp add: h_def)
  have hp: "h \<noteq> [DBALLPOSTS, p]" "h \<noteq> [DBUSERPOSTS, u]" "h \<noteq> [DBUSERPOSTS]" "h @ [k] \<noteq> [DBALLPOSTS, p]" "h @ [k] \<noteq> h" for k
    by (simp_all add: h_def)
  have 2: "dbis b2 q = (dbis b q \<or> q = [DBALLPOSTS, p])"
    "dbseq b2 q = (if q = [DBALLPOSTS] \<or> q = h then dbseq b q + 1 else dbseq b q)"
    "dbval b2 q k = (if q = [DBALLPOSTS, p] then map_of (post_record body u now t []) k
       else if q = h \<and> k = idx then Some p else dbval b q k)" for q k
    using room(5) n hp by (simp_all add: b2_def 1) (simp add: h_def)
  have 3: "dbis b3 q = (dbis b q \<or> q = [DBALLPOSTS, p])"
    "dbseq b3 q = (if q = [DBALLPOSTS] \<or> q = h then dbseq b q + 1 else dbseq b q)"
    "dbval b3 q k = (if q = [DBALLPOSTS, p] then map_of (post_record body u now t idx) k
       else if q = h \<and> k = idx then Some p else dbval b q k)" for q k
    using room(2) by (simp_all add: b3_def 2 post_record_def)
  have u: "\<not> dbis b [DBUSERPOSTS, u, k]" "dbval b [DBUSERPOSTS] k = None" for k using room(2) by simp_all
  have 4: "dbis b4 q = (dbis b q \<or> q = [DBALLPOSTS, p] \<or> q = [DBUSERPOSTS, u])"
    "dbseq b4 q = dbseq b3 q" "dbval b4 q k = dbval b3 q k" for q k
    using room(4) u(2) hp by (auto simp: b4_def 3)
  show "b_wf (add_post_db body u now t b)"
    using room(1) by (simp add: eq b4_def b3_def b2_def b1_def)
  show "dbis (add_post_db body u now t b) q \<longleftrightarrow> dbis b q \<or> q = [DBALLPOSTS, itob (dbseq b [DBALLPOSTS] + 1)]
          \<or> q = [DBUSERPOSTS, u]"
    using u(1) by (simp add: eq 4 p_def)
  show "dbval (add_post_db body u now t b) q k =
      (if q = [DBALLPOSTS, itob (dbseq b [DBALLPOSTS] + 1)]
       then map_of (post_record body u now t (itob (dbseq b [DBALLTHREADS, t, ''posts''] + 1))) k
       else if q = [DBALLTHREADS, t, ''posts''] \<and> k = itob (dbseq b [DBALLTHREADS, t, ''posts''] + 1)
         \<or> q = [DBUSERPOSTS, u] \<and> k = itob (dbseq b [DBUSERPOSTS, u] + 1)
       then Some (itob (dbseq b [DBALLPOSTS] + 1)) else dbval b q k)"
    using u(1) by (simp add: eq 4 3 p_def[symmetric] h_def[symmetric] idx_def[symmetric])
  show "dbseq (add_post_db body u now t b) q =
      (if q = [DBALLPOSTS] \<or> q = [DBALLTHREADS, t, ''posts''] \<or> q = [DBUSERPOSTS, u] then dbseq b q + 1 else dbseq b q)"
    using u(1) by (simp add: eq 4 3 h_def[symmetric]) (simp add: h_def)
qed


definition thread_record :: "bytes \<Rightarrow> bytes \<Rightarrow> bytes \<Rightarrow> (bytes \<times> bytes) list" where
  "thread_record title username now =
     [(''lastmodified'', now), (''title'', title), (''user'', username), (''locked'', ''0''), (''archived'', ''0'')]"

definition open_thread_db :: "bytes \<Rightarrow> bytes \<Rightarrow> bytes \<Rightarrow> bucket \<Rightarrow> bucket" where
  "open_thread_db username title now b =
     (let t = itob (dbseq b [DBALLTHREADS] + 1);
          b1 = put_all [DBALLTHREADS, t] [(''title'', title), (''user'', username), (''locked'', ''0''), (''archived'', ''0'')]
                 (bcreate [DBALLTHREADS] t (bnext [DBALLTHREADS] b));
          b2 = bcreate [DBALLTHREADS, t] ''posts'' (bput [DBALLTHREADS, t] ''lastmodified'' now b1);
          b3 = (if dbis b [DBUSERTHREADS, username] then b2 else bcreate [DBUSERTHREADS] username b2)
      in bput [DBUSERTHREADS, username] (itob (dbseq b [DBUSERTHREADS, username] + 1)) t
           (bnext [DBUSERTHREADS, username] b3))"

definition link_thread_db :: "bytes \<Rightarrow> bytes \<Rightarrow> bucket \<Rightarrow> bucket" where
  "link_thread_db s t b =
     bput [DBTHREADTOSF] t s (bput [DBSUBFORUMS, s] (itob (dbseq b [DBSUBFORUMS, s] + 1)) t (bnext [DBSUBFORUMS, s] b))"

definition thread_room :: "bucket \<Rightarrow> bool" where
  "thread_room b \<longleftrightarrow> b_wf b \<and> shape_ok b \<and> dbis b [DBALLTHREADS] \<and> dbis b [DBUSERTHREADS]
     \<and> \<not> dbis b [DBALLTHREADS, itob (dbseq b [DBALLTHREADS] + 1)]"

lemma open_thread_eq:
  assumes "thread_room (w_db w)" "u \<noteq> []" "length u \<le> UsernameMaxLength" "length title \<le> MaxValueSize"
    "marshal_text (w_clock w 0) = Inr now" "length now \<le> 100"
  shows "open_thread u title w =
    (Ok (dbseq (w_db w) [DBALLTHREADS] + 1, now, [DBALLTHREADS, itob (dbseq (w_db w) [DBALLTHREADS] + 1)]),
     w\<lparr>w_db := open_thread_db u title now (w_db w), w_clock := \<lambda>n. w_clock w (Suc n)\<rparr>)"
proof -
  have n: "\<not> dbis (w_db w) [DBALLTHREADS, itob (dbseq (w_db w) [DBALLTHREADS] + 1), k]" for k
    using assms(1) dbis_snoc[of "w_db w" "[DBALLTHREADS, itob (dbseq (w_db w) [DBALLTHREADS] + 1)]" k]
    by (auto simp: thread_room_def)
  show ?thesis
    using assms n
    by (cases "dbis (w_db w) [DBUSERTHREADS, u]")
       (simp_all add: open_thread_def Let_def go_simps MaxKeySize_def MaxValueSize_def UsernameMaxLength_def
         open_thread_db_def not_dbis_val storable_def dbis_put_all dbval_put_all dbseq_put_all thread_room_def)
qed

lemma open_thread_flat:
  assumes "thread_room b"
  defines "t \<equiv> itob (dbseq b [DBALLTHREADS] + 1)"
  shows "b_wf (open_thread_db u title now b)"
   and "dbis (open_thread_db u title now b) q \<longleftrightarrow> dbis b q \<or> q = [DBALLTHREADS, t] \<or> q = [DBALLTHREADS, t, ''posts'']
          \<or> q = [DBUSERTHREADS, u]"
   and "dbval (open_thread_db u title now b) q k =
      (if q = [DBALLTHREADS, t] then map_of (thread_record title u now) k
       else if q = [DBUSERTHREADS, u] \<and> k = itob (dbseq b [DBUSERTHREADS, u] + 1) then Some t else dbval b q k)"
   and "dbseq (open_thread_db u title now b) q =
      (if q = [DBALLTHREADS] \<or> q = [DBUSERTHREADS, u] then dbseq b q + 1 else dbseq b q)"
proof -
  define b1 where "b1 = put_all [DBALLTHREADS, t] [(''title'', title), (''user'', u), (''locked'', ''0''), (''archived'', ''0'')]
                 (bcreate [DBALLTHREADS] t (bnext [DBALLTHREADS] b))"
  define b2 where "b2 = bcreate [DBALLTHREADS, t] ''posts'' (bput [DBALLTHREADS, t] ''lastmodified'' now b1)"
  define b3 where "b3 = (if dbis b [DBUSERTHREADS, u] then b2 else bcreate [DBUSERTHREADS] u b2)"
  have room: "b_wf b" "shape_ok b" "dbis b [DBALLTHREADS]" "dbis b [DBUSERTHREADS]" "\<not> dbis b [DBALLTHREADS, t]"
    using assms by (simp_all add: thread_room_def)
  then have n: "\<not> dbis b [DBALLTHREADS, t, k]" for k
    using dbis_snoc[of b "[DBALLTHREADS, t]" k] by auto
  have eq: "open_thread_db u title now b =
      bput [DBUSERTHREADS, u] (itob (dbseq b [DBUSERTHREADS, u] + 1)) t (bnext [DBUSERTHREADS, u] b3)"
    by (simp add: open_thread_db_def Let_def b3_def b2_def b1_def t_def)
  have 1: "dbis b1 q = (dbis b q \<or> q = [DBALLTHREADS, t])"
    "dbseq b1 q = (if q = [DBALLTHREADS] then dbseq b q + 1 else dbseq b q)"
    "dbval b1 q k = (if q = [DBALLTHREADS, t] then
       map_of [(''title'', title), (''user'', u), (''locked'', ''0''), (''archived'', ''0'')] k else dbval b q k)" for q k
    using room n by (simp_all add: b1_def not_dbis_val dbis_put_all dbval_put_all dbseq_put_all)
  have 2: "dbis b2 q = (dbis b q \<or> q = [DBALLTHREADS, t] \<or> q = [DBALLTHREADS, t, ''posts''])"
    "dbseq b2 q = (if q = [DBALLTHREADS] then dbseq b q + 1 else dbseq b q)"
    "dbval b2 q k = (if q = [DBALLTHREADS, t] then map_of (thread_record title u now) k else dbval b q k)" for q k
    using n by (simp_all add: b2_def 1 thread_record_def)
  have us: "\<not> dbis b [DBUSERTHREADS, u, k]" "dbval b [DBUSERTHREADS] k = None" for k using room(2) by simp_all
  have 3: "dbis b3 q = (dbis b q \<or> q = [DBALLTHREADS, t] \<or> q = [DBALLTHREADS, t, ''posts''] \<or> q = [DBUSERTHREADS, u])"
    "dbseq b3 q = dbseq b2 q" "dbval b3 q k = dbval b2 q k" for q k
    using room(4) us(2) by (auto simp: b3_def 2)
  show "b_wf (open_thread_db u title now b)"
    using room(1) by (simp add: eq b3_def b2_def b1_def)
  show "dbis (open_thread_db u title now b) q \<longleftrightarrow> dbis b q \<or> q = [DBALLTHREADS, t] \<or> q = [DBALLTHREADS, t, ''posts'']
          \<or> q = [DBUSERTHREADS, u]"
    using us(1) by (simp add: eq 3)
  show "dbval (open_thread_db u title now b) q k =
      (if q = [DBALLTHREADS, t] then map_of (thread_record title u now) k
       else if q = [DBUSERTHREADS, u] \<and> k = itob (dbseq b [DBUSERTHREADS, u] + 1) then Some t else dbval b q k)"
    using us(1) by (simp add: eq 3 2)
  show "dbseq (open_thread_db u title now b) q =
      (if q = [DBALLTHREADS] \<or> q = [DBUSERTHREADS, u] then dbseq b q + 1 else dbseq b q)"
    using us(1) by (simp add: eq 3 2)
qed

lemma link_thread_eq:
  assumes "shape_ok (w_db w)" "dbis (w_db w) [DBSUBFORUMS]" "dbis (w_db w) [DBSUBFORUMS, s]" "dbis (w_db w) [DBTHREADTOSF]"
    "length s \<le> MaxValueSize"
  shows "link_thread s t w = (Ok (), w\<lparr>w_db := link_thread_db s (itob t) (w_db w)\<rparr>)"
  using assms by (simp add: link_thread_def Let_def go_simps MaxKeySize_def MaxValueSize_def link_thread_db_def)

lemma link_thread_flat:
  assumes "b_wf b" "shape_ok b" "dbis b [DBSUBFORUMS, s]" "dbis b [DBTHREADTOSF]"
  shows "b_wf (link_thread_db s t b)"
    and "dbis (link_thread_db s t b) q = dbis b q"
    and "dbval (link_thread_db s t b) q k =
      (if q = [DBTHREADTOSF] \<and> k = t then Some s
       else if q = [DBSUBFORUMS, s] \<and> k = itob (dbseq b [DBSUBFORUMS, s] + 1) then Some t else dbval b q k)"
    and "dbseq (link_thread_db s t b) q = (if q = [DBSUBFORUMS, s] then dbseq b q + 1 else dbseq b q)"
  using assms by (simp_all add: link_thread_db_def)

lemma link_error:
  assumes "\<not> dbis (w_db w) [DBSUBFORUMS, s]" "dbis (w_db w) [DBSUBFORUMS]"
  shows "link_thread s t w = (Fail (ErrNew ''subforumBucketSub == nil''), w)"
  using assms by (simp add: link_thread_def Let_def go_simps)

section \<open>The two transactions\<close>

definition new_post_db :: "bytes \<Rightarrow> bytes \<Rightarrow> bytes \<Rightarrow> bytes \<Rightarrow> bucket \<Rightarrow> bucket" where
  "new_post_db username t body now b =
     add_post_db body username now t (bput [DBALLTHREADS, t] ''lastmodified'' now b)"

definition new_thread_db :: "bytes \<Rightarrow> bytes \<Rightarrow> bytes \<Rightarrow> bytes \<Rightarrow> bytes \<Rightarrow> bucket \<Rightarrow> bucket" where
  "new_thread_db s username title body now b =
     (let t = itob (dbseq b [DBALLTHREADS] + 1)
      in link_thread_db s t (add_post_db body username now t (open_thread_db username title now b)))"

lemma post_room_thread:
  assumes s: "schema E b" and c: "counters_free b" and t: "dbis b [DBALLTHREADS, t]"
  shows "post_room t (bput [DBALLTHREADS, t] ''lastmodified'' now b)" "length t = 16"
proof -
  have th: "thread_ok b t" using schemaD(4)[OF s] t by (simp add: threads_ok_def)
  then show "length t = 16" by (auto simp: thread_ok_def counted_def)
  have n: "\<not> dbis b [DBALLTHREADS, t, ''lastmodified'']" using schemaD(2)[OF s] by simp
  have "shape_ok (bput [DBALLTHREADS, t] ''lastmodified'' now b)"
    using put_layout(2)[OF s t] n by simp
  then show "post_room t (bput [DBALLTHREADS, t] ''lastmodified'' now b)"
    using schema_top[OF s] schema_fresh[OF s c] th n by (simp add: post_room_def thread_ok_def)
qed

lemma new_post_tx_missing:
  assumes "schema E (w_db w)" "\<not> dbis (w_db w) [DBALLTHREADS, t]"
  shows "new_post_tx u t body priv w = (Fail ErrNotFound, w)"
  using assms(2) schema_top[OF assms(1)] by (simp add: new_post_tx_def go_simps)

lemma new_post_tx_locked:
  assumes "schema E (w_db w)" "dbis (w_db w) [DBALLTHREADS, t]"
    "dbval (w_db w) [DBALLTHREADS, t] ''locked'' = Some ''1''" "\<not> Is priv Mod"
  shows "new_post_tx u t body priv w = (Fail ErrThreadIsLocked, w)"
  using assms(2-) schema_top[OF assms(1)] by (simp add: new_post_tx_def go_simps whichPrivCanReplyToLockedThread_def)

lemma new_post_tx_eq:
  assumes s: "schema E (w_db w)" and c: "counters_free (w_db w)" and t: "dbis (w_db w) [DBALLTHREADS, t]"
    and l: "dbval (w_db w) [DBALLTHREADS, t] ''locked'' \<noteq> Some ''1'' \<or> Is priv Mod"
    and u: "u \<noteq> []" "length u \<le> UsernameMaxLength" and tx: "length body \<le> MaxValueSize"
    and now: "marshal_text (w_clock w 0) = Inr now" "length now \<le> 35"
  shows "new_post_tx u t body priv w =
    (Ok (), w\<lparr>w_db := new_post_db u t body now (w_db w), w_clock := \<lambda>n. w_clock w (Suc n),
       w_kw := map_option (\<lambda>q. q @ [makeKeywordIndex u body (itob (dbseq (w_db w) [DBALLPOSTS] + 1)) t]) (w_kw w)\<rparr>)"
proof -
  have n: "\<not> dbis (w_db w) [DBALLTHREADS, t, ''lastmodified'']" using schemaD(2)[OF s] by simp
  let ?b = "bput [DBALLTHREADS, t] ''lastmodified'' now (w_db w)"
  let ?w = "w\<lparr>w_clock := \<lambda>n. w_clock w (Suc n), w_db := ?b\<rparr>"
  have "AddNewPostToDatabase body u now t [DBALLTHREADS, t] ?w =
    (Ok (dbseq (w_db w) [DBALLPOSTS] + 1), ?w\<lparr>w_db := new_post_db u t body now (w_db w)\<rparr>)"
    using AddNewPost_eq[of t ?w u body now] post_room_thread[OF s c t] u tx now(2) n
    by (simp add: new_post_db_def)
  moreover have "(dbval (w_db w) [DBALLTHREADS, t] ''locked'' = Some ''1'' \<and> \<not> Is priv Mod) = False" using l by blast
  then have "(bytes_equal (dbval (w_db w) [DBALLTHREADS, t] ''locked'') ''1'' \<and> \<not> Is priv Mod) = False"
    by (cases "dbval (w_db w) [DBALLTHREADS, t] ''locked''") auto
  ultimately show ?thesis
    using t n schema_top[OF s] now
    by (simp add: new_post_tx_def go_simps sendPostToKeywordDB_eq whichPrivCanReplyToLockedThread_def
        MaxKeySize_def MaxValueSize_def)
qed

lemma new_thread_rooms:
  assumes s: "schema E b" and c: "counters_free b"
  shows "thread_room b" "post_room (itob (dbseq b [DBALLTHREADS] + 1)) (open_thread_db u title now b)"
proof -
  show r: "thread_room b"
    using schema_top[OF s] schema_fresh(2)[OF s c] by (simp add: thread_room_def)
  note flat = open_thread_flat[OF r]
  have "shape_ok (open_thread_db u title now b)"
    by (rule shape_step[OF schemaD(2)[OF s]]) (auto simp: flat)
  then show "post_room (itob (dbseq b [DBALLTHREADS] + 1)) (open_thread_db u title now b)"
    using schema_top[OF s] schema_fresh(1)[OF s c] by (simp add: post_room_def flat)
qed

lemma new_thread_link:
  fixes u title now body :: bytes
  assumes s: "schema E b" and c: "counters_free b"
  defines "t \<equiv> itob (dbseq b [DBALLTHREADS] + 1)"
  defines "b2 \<equiv> add_post_db body u now t (open_thread_db u title now b)"
  shows "b_wf b2" "shape_ok b2" "\<And>p. dbis b p \<Longrightarrow> dbis b2 p"
    "\<And>p. dbis b2 p \<Longrightarrow> hd p = DBSUBFORUMS \<Longrightarrow> p \<noteq> [] \<Longrightarrow> dbis b p"
proof -
  note rooms = new_thread_rooms[OF s c]
  note f1 = open_thread_flat[OF rooms(1), of u title now, folded t_def]
  note f2 = add_post_flat[OF rooms(2), where u = u and body = body and now = now, folded t_def]
  show "b_wf b2" by (simp add: b2_def f2)
  show "shape_ok b2" unfolding b2_def
    by (rule shape_step[OF schemaD(2)[OF s]]) (auto simp: f1 f2)
  show "dbis b p \<Longrightarrow> dbis b2 p" for p by (simp add: b2_def f1 f2)
  show "dbis b2 p \<Longrightarrow> hd p = DBSUBFORUMS \<Longrightarrow> p \<noteq> [] \<Longrightarrow> dbis b p" for p by (auto simp: b2_def f1 f2)
qed

lemma new_thread_tx_eq:
  assumes s: "schema E (w_db w)" and c: "counters_free (w_db w)" and sf: "dbis (w_db w) [DBSUBFORUMS, s]"
    and u: "u \<noteq> []" "length u \<le> UsernameMaxLength" and l: "length body \<le> MaxValueSize" "length title \<le> MaxValueSize"
      "length s \<le> MaxValueSize"
    and now: "marshal_text (w_clock w 0) = Inr now" "length now \<le> 35"
  shows "new_thread_tx s u title body w =
    (Ok (), w\<lparr>w_db := new_thread_db s u title body now (w_db w), w_clock := \<lambda>n. w_clock w (Suc n),
       w_kw := map_option (\<lambda>q. q @ [makeKeywordIndex u body (itob (dbseq (w_db w) [DBALLPOSTS] + 1))
                 (itob (dbseq (w_db w) [DBALLTHREADS] + 1))]) (w_kw w)\<rparr>)"
proof -
  note rooms = new_thread_rooms[OF s c]
  note f1 = open_thread_flat[OF rooms(1), of u title now]
  let ?t = "itob (dbseq (w_db w) [DBALLTHREADS] + 1)"
  let ?b1 = "open_thread_db u title now (w_db w)"
  let ?w1 = "w\<lparr>w_db := ?b1, w_clock := \<lambda>n. w_clock w (Suc n)\<rparr>"
  let ?b2 = "add_post_db body u now ?t ?b1"
  have 1: "open_thread u title w = (Ok (dbseq (w_db w) [DBALLTHREADS] + 1, now, [DBALLTHREADS, ?t]), ?w1)"
    using open_thread_eq[OF rooms(1) u l(2) now(1)] now(2) by simp
  have 2: "AddNewPostToDatabase body u now ?t [DBALLTHREADS, ?t] ?w1 =
      (Ok (dbseq (w_db w) [DBALLPOSTS] + 1), ?w1\<lparr>w_db := ?b2\<rparr>)"
    using AddNewPost_eq[of ?t ?w1 u body now] rooms(2) u l(1) now(2) by (simp add: f1)
  note lk = new_thread_link[OF s c, where body = body and u = u and now = now and title = title]
  have 3: "link_thread s (dbseq (w_db w) [DBALLTHREADS] + 1) w' =
      (Ok (), w'\<lparr>w_db := link_thread_db s ?t ?b2\<rparr>)" if "w_db w' = ?b2" for w'
    using link_thread_eq[of w' s] lk(2,3) sf schema_top[OF s] l(3) that by simp
  show ?thesis
    using 1 2 3 by (simp add: new_thread_tx_def go_simps sendPostToKeywordDB_eq new_thread_db_def Let_def)
qed


section \<open>The schema is kept\<close>

lemma extends_thread:
  assumes e: "extends b b'" and t: "thread_ok b t"
    and n: "flag_ok (dbval b' [DBALLTHREADS, t] ''locked'')" "time_ok (dbval b' [DBALLTHREADS, t] ''lastmodified'')"
  shows "thread_ok b' t"
proof -
  obtain ti u k1 s k2 p where t: "counted b [DBALLTHREADS] t" "dbval b [DBALLTHREADS, t] ''title'' = Some ti"
    "dbval b [DBALLTHREADS, t] ''user'' = Some u" "dbval b [DBUSERTHREADS, u] k1 = Some t"
    "dbval b [DBALLTHREADS, t] ''archived'' = Some ''0''" "dbis b [DBALLTHREADS, t, ''posts'']"
    "dbval b [DBALLTHREADS, t, ''posts''] (itob 1) = Some p"
    "dbval b [DBTHREADTOSF] t = Some s" "dbval b [DBSUBFORUMS, s] k2 = Some t"
    using t by (auto simp: thread_ok_def)
  from this(2-5,7-)[THEN extendsD(3)[OF e]] extendsD(1)[OF e t(6)] extendsD(2)[OF e t(1)] n
  show ?thesis by (auto simp: thread_ok_def)
qed

lemma extends_post:
  assumes e: "extends b b'" and p: "post_ok b p" and n: "flag_ok (dbval b' [DBALLPOSTS, p] ''reports'')"
  shows "post_ok b' p"
proof -
  obtain x u k1 s t k where p: "counted b [DBALLPOSTS] p" "dbval b [DBALLPOSTS, p] ''text'' = Some x"
    "dbval b [DBALLPOSTS, p] ''user'' = Some u" "dbval b [DBUSERPOSTS, u] k1 = Some p"
    "dbval b [DBALLPOSTS, p] ''time'' = Some s" "dbval b [DBALLPOSTS, p] ''archived'' = Some ''0''"
    "dbval b [DBALLPOSTS, p] ''thread'' = Some t" "dbval b [DBALLPOSTS, p] ''index'' = Some k"
    "dbval b [DBALLTHREADS, t, ''posts''] k = Some p" and s: "parse_time s \<noteq> None"
    using p by (auto simp: post_ok_def time_ok_def)
  from this(2-9)[THEN extendsD(3)[OF e]] extendsD(2)[OF e p(1)] n s
  show ?thesis by (auto simp: post_ok_def time_ok_def)
qed

lemma extends_refs:
  assumes e: "extends b b'" and r: "refs_ok b"
    and posts: "\<And>t k p. dbval b' [DBALLTHREADS, t, ''posts''] k = Some p \<Longrightarrow> dbval b [DBALLTHREADS, t, ''posts''] k = Some p
      \<or> counted b' [DBALLTHREADS, t, ''posts''] k \<and> dbis b' [DBALLPOSTS, p]
        \<and> dbval b' [DBALLPOSTS, p] ''thread'' = Some t \<and> dbval b' [DBALLPOSTS, p] ''index'' = Some k"
    and up: "\<And>u k p. dbval b' [DBUSERPOSTS, u] k = Some p \<Longrightarrow> dbval b [DBUSERPOSTS, u] k = Some p
      \<or> counted b' [DBUSERPOSTS, u] k \<and> dbis b' [DBALLPOSTS, p] \<and> dbval b' [DBALLPOSTS, p] ''user'' = Some u"
    and ut: "\<And>u k t. dbval b' [DBUSERTHREADS, u] k = Some t \<Longrightarrow> dbval b [DBUSERTHREADS, u] k = Some t
      \<or> counted b' [DBUSERTHREADS, u] k \<and> dbis b' [DBALLTHREADS, t] \<and> dbval b' [DBALLTHREADS, t] ''user'' = Some u"
    and sf: "\<And>s k t. dbval b' [DBSUBFORUMS, s] k = Some t \<Longrightarrow> dbval b [DBSUBFORUMS, s] k = Some t
      \<or> counted b' [DBSUBFORUMS, s] k \<and> dbval b' [DBTHREADTOSF] t = Some s"
    and ts: "\<And>t s. dbval b' [DBTHREADTOSF] t = Some s \<Longrightarrow> dbval b [DBTHREADTOSF] t = Some s \<or> dbis b' [DBALLTHREADS, t]"
  shows "refs_ok b'"
  unfolding refs_ok_def
proof (intro conjI allI impI)
  note d = extendsD[OF e]
  { fix t k p assume h: "dbval b' [DBALLTHREADS, t, ''posts''] k = Some p"
    have "counted b' [DBALLTHREADS, t, ''posts''] k \<and> dbis b' [DBALLPOSTS, p] \<and>
       dbval b' [DBALLPOSTS, p] ''thread'' = Some t \<and> dbval b' [DBALLPOSTS, p] ''index'' = Some k"
      using posts[OF h] r by (auto simp: refs_ok_def intro: d)
    then show "counted b' [DBALLTHREADS, t, ''posts''] k" "dbis b' [DBALLPOSTS, p]"
       "dbval b' [DBALLPOSTS, p] ''thread'' = Some t" "dbval b' [DBALLPOSTS, p] ''index'' = Some k" by blast+ }
  { fix u k p assume h: "dbval b' [DBUSERPOSTS, u] k = Some p"
    have "counted b' [DBUSERPOSTS, u] k \<and> dbis b' [DBALLPOSTS, p] \<and> dbval b' [DBALLPOSTS, p] ''user'' = Some u"
      using up[OF h] r by (auto simp: refs_ok_def intro: d)
    then show "counted b' [DBUSERPOSTS, u] k" "dbis b' [DBALLPOSTS, p]" "dbval b' [DBALLPOSTS, p] ''user'' = Some u" by blast+ }
  { fix u k t assume h: "dbval b' [DBUSERTHREADS, u] k = Some t"
    have "counted b' [DBUSERTHREADS, u] k \<and> dbis b' [DBALLTHREADS, t] \<and> dbval b' [DBALLTHREADS, t] ''user'' = Some u"
      using ut[OF h] r by (auto simp: refs_ok_def intro: d)
    then show "counted b' [DBUSERTHREADS, u] k" "dbis b' [DBALLTHREADS, t]" "dbval b' [DBALLTHREADS, t] ''user'' = Some u" by blast+ }
  { fix s k t assume h: "dbval b' [DBSUBFORUMS, s] k = Some t"
    have "counted b' [DBSUBFORUMS, s] k \<and> dbval b' [DBTHREADTOSF] t = Some s"
      using sf[OF h] r by (auto simp: refs_ok_def intro: d)
    then show "counted b' [DBSUBFORUMS, s] k" "dbval b' [DBTHREADTOSF] t = Some s" by blast+ }
  { fix t s assume h: "dbval b' [DBTHREADTOSF] t = Some s"
    show "dbis b' [DBALLTHREADS, t]"
      using ts[OF h] r by (auto simp: refs_ok_def intro: d) }
qed

lemma new_post_flat:
  assumes s: "schema E b" and c: "counters_free b" and t: "dbis b [DBALLTHREADS, t]"
  defines "p \<equiv> itob (dbseq b [DBALLPOSTS] + 1)"
    and "idx \<equiv> itob (dbseq b [DBALLTHREADS, t, ''posts''] + 1)"
  shows "b_wf (new_post_db u t body now b)"
   and "dbis (new_post_db u t body now b) q \<longleftrightarrow> dbis b q \<or> q = [DBALLPOSTS, p] \<or> q = [DBUSERPOSTS, u]"
   and "dbval (new_post_db u t body now b) q k =
      (if q = [DBALLPOSTS, p] then map_of (post_record body u now t idx) k
       else if q = [DBALLTHREADS, t, ''posts''] \<and> k = idx \<or> q = [DBUSERPOSTS, u] \<and> k = itob (dbseq b [DBUSERPOSTS, u] + 1)
       then Some p
       else if q = [DBALLTHREADS, t] \<and> k = ''lastmodified'' then Some now else dbval b q k)"
   and "dbseq (new_post_db u t body now b) q =
      (if q = [DBALLPOSTS] \<or> q = [DBALLTHREADS, t, ''posts''] \<or> q = [DBUSERPOSTS, u] then dbseq b q + 1 else dbseq b q)"
proof -
  have n: "\<not> dbis b [DBALLTHREADS, t, ''lastmodified'']" using schemaD(2)[OF s] by simp
  have q: "dbseq (bput [DBALLTHREADS, t] ''lastmodified'' now b) x = dbseq b x" for x using n by simp
  note f = add_post_flat[OF post_room_thread(1)[OF s c t, of now], where u = u and body = body and now = now,
      folded new_post_db_def, unfolded q, folded p_def idx_def]
  show "b_wf (new_post_db u t body now b)" by (rule f(1))
  show "dbis (new_post_db u t body now b) q \<longleftrightarrow> dbis b q \<or> q = [DBALLPOSTS, p] \<or> q = [DBUSERPOSTS, u]"
    using n by (simp add: f)
  show "dbval (new_post_db u t body now b) q k =
      (if q = [DBALLPOSTS, p] then map_of (post_record body u now t idx) k
       else if q = [DBALLTHREADS, t, ''posts''] \<and> k = idx \<or> q = [DBUSERPOSTS, u] \<and> k = itob (dbseq b [DBUSERPOSTS, u] + 1)
       then Some p
       else if q = [DBALLTHREADS, t] \<and> k = ''lastmodified'' then Some now else dbval b q k)"
    using n t by (simp add: f)
  show "dbseq (new_post_db u t body now b) q =
      (if q = [DBALLPOSTS] \<or> q = [DBALLTHREADS, t, ''posts''] \<or> q = [DBUSERPOSTS, u] then dbseq b q + 1 else dbseq b q)"
    using n by (simp add: f)
qed

lemma new_post_extends:
  assumes s: "schema E b" and c: "counters_free b" and t: "dbis b [DBALLTHREADS, t]"
  shows "extends b (new_post_db u t body now b)"
proof -
  have fresh: "\<not> dbis b [DBALLPOSTS, itob (dbseq b [DBALLPOSTS] + 1)]" by (rule schema_fresh(1)[OF s c])
  show ?thesis
    using counters_free_next(2)[OF c] fresh next_ref_free[OF s c] not_dbis_val[OF fresh]
    by (auto simp: extends_def new_post_flat[OF s c t] mutable_at_def)
qed

lemma new_post_keeps:
  assumes s: "schema E b" and c: "counters_free b" and t: "dbis b [DBALLTHREADS, t]" and now: "parse_time now \<noteq> None"
  shows "schema E (new_post_db u t body now b)"
proof -
  let ?b = "new_post_db u t body now b"
  note f = new_post_flat[OF s c t, of u body now]
  note e = new_post_extends[OF s c t, of u body now]
  note fresh = schema_fresh(1)[OF s c]
  let ?p = "itob (dbseq b [DBALLPOSTS] + 1)" and ?k = "itob (dbseq b [DBALLTHREADS, t, ''posts''] + 1)"
  have "db_ready E ?b"
    using schemaD(1)[OF s] by (auto simp: db_ready_def f)
  moreover have "shape_ok ?b"
    by (rule shape_step[OF schemaD(2)[OF s]]) (auto simp: f)
  moreover have "users_ok ?b"
    using schemaD(3)[OF s] by (subst same_accounts[of b]) (auto simp: same_in_def account_buckets_def f)
  moreover have "threads_ok ?b"
    unfolding threads_ok_def
  proof (intro allI impI)
    fix t' assume "dbis ?b [DBALLTHREADS, t']"
    then have "thread_ok b t'" using schemaD(4)[OF s] by (simp add: threads_ok_def f)
    then show "thread_ok ?b t'"
      by (rule extends_thread[OF e])
         (use \<open>thread_ok b t'\<close> now in \<open>auto simp: f thread_ok_def time_ok_def\<close>)
  qed
  moreover have "posts_ok ?b"
    unfolding posts_ok_def
  proof (intro allI impI)
    fix p assume p: "dbis ?b [DBALLPOSTS, p]"
    show "post_ok ?b p"
    proof (cases "p = ?p")
      case True
      then show ?thesis
        using counted_next[OF c, of ?b "[DBALLPOSTS]"] now
        by (auto simp: post_ok_def f post_record_def time_ok_def flag_ok_def)
    next
      case False
      then have "post_ok b p" using p schemaD(5)[OF s] by (simp add: posts_ok_def f)
      then show ?thesis
        by (rule extends_post[OF e]) (use \<open>post_ok b p\<close> False in \<open>auto simp: f post_ok_def\<close>)
    qed
  qed
  moreover have "refs_ok ?b"
    by (rule extends_refs[OF e schemaD(6)[OF s]])
       (auto simp: f post_record_def counted_next[OF c] split: if_splits)
  ultimately show ?thesis by (simp add: schema_def)
qed

lemma new_post_counters:
  assumes s: "schema E b" and f: "counters_free b" and t: "dbis b [DBALLTHREADS, t]" and c: "counters_below n b"
  shows "counters_below (Suc n) (new_post_db u t body now b)"
proof -
  have "unat (dbseq b q + 1) = Suc (unat (dbseq b q))" for q
    using f unat_Suc by (simp add: counters_free_def counters_below_def)
  then show ?thesis using c by (simp add: counters_below_def new_post_flat[OF s f t] less_SucI)
qed

lemma new_thread_flat:
  fixes u title now body :: bytes
  assumes s: "schema E b" and c: "counters_free b" and sf: "dbis b [DBSUBFORUMS, s]"
  defines "t \<equiv> itob (dbseq b [DBALLTHREADS] + 1)" and "p \<equiv> itob (dbseq b [DBALLPOSTS] + 1)"
  shows "b_wf (new_thread_db s u title body now b)"
   and "dbis (new_thread_db s u title body now b) q \<longleftrightarrow> dbis b q \<or> q = [DBALLTHREADS, t] \<or> q = [DBALLTHREADS, t, ''posts'']
          \<or> q = [DBUSERTHREADS, u] \<or> q = [DBALLPOSTS, p] \<or> q = [DBUSERPOSTS, u]"
   and "dbval (new_thread_db s u title body now b) q k =
      (if q = [DBALLTHREADS, t] then map_of (thread_record title u now) k
       else if q = [DBALLPOSTS, p] then map_of (post_record body u now t (itob 1)) k
       else if q = [DBALLTHREADS, t, ''posts''] \<and> k = itob 1 \<or> q = [DBUSERPOSTS, u] \<and> k = itob (dbseq b [DBUSERPOSTS, u] + 1)
       then Some p
       else if q = [DBTHREADTOSF] \<and> k = t then Some s
       else if q = [DBUSERTHREADS, u] \<and> k = itob (dbseq b [DBUSERTHREADS, u] + 1)
         \<or> q = [DBSUBFORUMS, s] \<and> k = itob (dbseq b [DBSUBFORUMS, s] + 1) then Some t
       else dbval b q k)"
   and "dbseq (new_thread_db s u title body now b) q =
      (if q \<in> {[DBALLTHREADS], [DBUSERTHREADS, u], [DBALLPOSTS], [DBALLTHREADS, t, ''posts''], [DBUSERPOSTS, u], [DBSUBFORUMS, s]}
       then dbseq b q + 1 else dbseq b q)"
   and "dbseq b [DBALLTHREADS, t, ''posts''] = 0"
proof -
  note rooms = new_thread_rooms[OF s c]
  note f1 = open_thread_flat[OF rooms(1), of u title now, folded t_def]
  have n: "\<not> dbis b [DBALLTHREADS, t]" using schema_fresh(2)[OF s c] by (simp add: t_def)
  then have np: "\<not> dbis b [DBALLTHREADS, t, ''posts'']" using dbis_snoc[of b "[DBALLTHREADS, t]" "''posts''"] by auto
  then show z: "dbseq b [DBALLTHREADS, t, ''posts''] = 0" by (rule dbseq_no)
  have q: "dbseq (open_thread_db u title now b) [DBALLPOSTS] = dbseq b [DBALLPOSTS]"
    "dbseq (open_thread_db u title now b) [DBALLTHREADS, t, ''posts''] = 0"
    "dbseq (open_thread_db u title now b) [DBUSERPOSTS, x] = dbseq b [DBUSERPOSTS, x]" for x
    using z by (simp_all add: f1)
  note f2 = add_post_flat[OF rooms(2)[of u title now], where u = u and body = body and now = now, folded t_def, unfolded q, folded p_def,
      simplified]
  define b2 where "b2 = add_post_db body u now t (open_thread_db u title now b)"
  note f2 = f2[folded b2_def]
  have eq: "new_thread_db s u title body now b = link_thread_db s t b2"
    by (simp add: new_thread_db_def Let_def b2_def t_def)
  note lk = new_thread_link[OF s c, where u = u and title = title and now = now and body = body, folded t_def, folded b2_def]
  have sq: "dbseq b2 [DBSUBFORUMS, s] = dbseq b [DBSUBFORUMS, s]" by (simp add: f2 f1)
  note f3 = link_thread_flat[OF lk(1,2) lk(3)[OF sf] lk(3)[OF schema_top(11)[OF s]], unfolded sq, of t]
  show "b_wf (new_thread_db s u title body now b)" by (simp add: eq f3)
  show "dbis (new_thread_db s u title body now b) q \<longleftrightarrow> dbis b q \<or> q = [DBALLTHREADS, t] \<or> q = [DBALLTHREADS, t, ''posts'']
          \<or> q = [DBUSERTHREADS, u] \<or> q = [DBALLPOSTS, p] \<or> q = [DBUSERPOSTS, u]"
    by (auto simp: eq f3 f2 f1)
  show "dbval (new_thread_db s u title body now b) q k =
      (if q = [DBALLTHREADS, t] then map_of (thread_record title u now) k
       else if q = [DBALLPOSTS, p] then map_of (post_record body u now t (itob 1)) k
       else if q = [DBALLTHREADS, t, ''posts''] \<and> k = itob 1 \<or> q = [DBUSERPOSTS, u] \<and> k = itob (dbseq b [DBUSERPOSTS, u] + 1)
       then Some p
       else if q = [DBTHREADTOSF] \<and> k = t then Some s
       else if q = [DBUSERTHREADS, u] \<and> k = itob (dbseq b [DBUSERTHREADS, u] + 1)
         \<or> q = [DBSUBFORUMS, s] \<and> k = itob (dbseq b [DBSUBFORUMS, s] + 1) then Some t
       else dbval b q k)"
    by (simp add: eq f3 f2 f1)
  show "dbseq (new_thread_db s u title body now b) q =
      (if q \<in> {[DBALLTHREADS], [DBUSERTHREADS, u], [DBALLPOSTS], [DBALLTHREADS, t, ''posts''], [DBUSERPOSTS, u], [DBSUBFORUMS, s]}
       then dbseq b q + 1 else dbseq b q)"
    by (simp add: eq f3 f2 f1)
qed


lemma new_thread_extends:
  assumes s: "schema E b" and c: "counters_free b" and sf: "dbis b [DBSUBFORUMS, s]"
  shows "extends b (new_thread_db s u title body now b)"
proof -
  let ?t = "itob (dbseq b [DBALLTHREADS] + 1)"
  note fresh = schema_fresh[OF s c]
  have n: "\<not> dbis b [DBALLTHREADS, ?t, ''posts'']"
    using fresh(2) dbis_snoc[of b "[DBALLTHREADS, ?t]" "''posts''"] by auto
  have ts: "dbval b [DBTHREADTOSF] ?t = None"
    using refsD(5)[OF schemaD(6)[OF s], of ?t] fresh(2) by (cases "dbval b [DBTHREADTOSF] ?t") auto
  show ?thesis
    unfolding extends_def new_thread_flat(2-4)[OF s c sf]
    using counters_free_next(2)[OF c] next_ref_free[OF s c] fresh[THEN not_dbis_val] ts not_dbis_val[OF n]
    by auto
qed

lemma new_thread_keeps:
  assumes s: "schema E b" and c: "counters_free b" and sf: "dbis b [DBSUBFORUMS, s]" and now: "parse_time now \<noteq> None"
  shows "schema E (new_thread_db s u title body now b)"
proof -
  let ?b = "new_thread_db s u title body now b"
  let ?p = "itob (dbseq b [DBALLPOSTS] + 1)" and ?t = "itob (dbseq b [DBALLTHREADS] + 1)"
  note f = new_thread_flat(1-4)[OF s c sf] and f5 = new_thread_flat(5)[OF s c sf]
  note e = new_thread_extends[OF s c sf, of u title body now]
  note fresh = schema_fresh[OF s c]
  note cn = counted_next[OF c, of ?b]
  have one: "counted ?b [DBALLTHREADS, ?t, ''posts''] (itob 1)"
    using f5 by (simp add: counted_def f)
  have "db_ready E ?b"
    using schemaD(1)[OF s] by (auto simp: db_ready_def f)
  moreover have "shape_ok ?b"
    by (rule shape_step[OF schemaD(2)[OF s]]) (auto simp: f)
  moreover have "users_ok ?b"
    using schemaD(3)[OF s] by (subst same_accounts[of b]) (auto simp: same_in_def account_buckets_def f)
  moreover have "threads_ok ?b"
    unfolding threads_ok_def
  proof (intro allI impI)
    fix t' assume t': "dbis ?b [DBALLTHREADS, t']"
    show "thread_ok ?b t'"
    proof (cases "t' = ?t")
      case True
      have "dbval ?b [DBUSERTHREADS, u] (itob (dbseq b [DBUSERTHREADS, u] + 1)) = Some ?t"
        "dbval ?b [DBSUBFORUMS, s] (itob (dbseq b [DBSUBFORUMS, s] + 1)) = Some ?t" by (simp_all add: f)
      then show ?thesis
        using True cn[of "[DBALLTHREADS]"] now
        by (auto simp: thread_ok_def f thread_record_def time_ok_def flag_ok_def)
    next
      case False
      then have "thread_ok b t'" using t' schemaD(4)[OF s] by (simp add: threads_ok_def f)
      then show ?thesis
        by (rule extends_thread[OF e]) (use \<open>thread_ok b t'\<close> False in \<open>auto simp: f thread_ok_def\<close>)
    qed
  qed
  moreover have "posts_ok ?b"
    unfolding posts_ok_def
  proof (intro allI impI)
    fix p assume p: "dbis ?b [DBALLPOSTS, p]"
    show "post_ok ?b p"
    proof (cases "p = ?p")
      case True
      then show ?thesis
        using cn[of "[DBALLPOSTS]"] now by (auto simp: post_ok_def f post_record_def time_ok_def flag_ok_def)
    next
      case False
      then have "post_ok b p" using p schemaD(5)[OF s] by (simp add: posts_ok_def f)
      then show ?thesis
        by (rule extends_post[OF e]) (use \<open>post_ok b p\<close> False in \<open>auto simp: f post_ok_def\<close>)
    qed
  qed
  moreover have "refs_ok ?b"
    by (rule extends_refs[OF e schemaD(6)[OF s]])
       (auto simp: f(2-4) post_record_def thread_record_def counted_next[OF c] one split: if_splits)
  ultimately show ?thesis by (simp add: schema_def)
qed

lemma new_thread_counters:
  assumes s: "schema E b" and c: "counters_free b" and sf: "dbis b [DBSUBFORUMS, s]" and n: "counters_below n b"
  shows "counters_below (Suc n) (new_thread_db s u title body now b)"
proof -
  have "unat (dbseq b q + 1) = Suc (unat (dbseq b q))" for q
    using c unat_Suc by (simp add: counters_free_def counters_below_def)
  then show ?thesis using n by (simp add: counters_below_def new_thread_flat[OF s c sf] less_SucI)
qed
section \<open>The handlers\<close>

lemma session_user_ok:
  assumes "schema E (w_db w)" "GetUsernameFromFP E fp w = (Ok s, w')" "s_username s \<noteq> []"
  shows "user_ok (w_db w) (s_username s)" "dbis (w_db w) [DBUSERS, s_username s]"
proof -
  obtain st c where "GetUsernameFromFP E fp w =
    (Ok \<lparr>s_username = session_user (w_db w) fp, s_priv = config_priv (e_cfg E) (session_user (w_db w) fp),
         s_muted = session_muted (w_db w) fp (w_clock w 0), s_status = st\<rparr>, w\<lparr>w_clock := c\<rparr>)"
    by (rule GetUsernameFromFP_eq[OF schemaD(1)[OF assms(1)]])
  then have u: "s_username s = session_user (w_db w) fp" using assms(2) by auto
  with assms(3) show "dbis (w_db w) [DBUSERS, s_username s]"
    by (auto simp: session_user_def split: option.splits if_splits)
  then show "user_ok (w_db w) (s_username s)" using schemaD(3)[OF assms(1)] by (simp add: users_ok_def)
qed

lemma ticks_post [intro, simp]: "inv.ticks (AddNewPostToDatabase body u now t h)"
  unfolding AddNewPostToDatabase_def by (intro inv.ticks_bind inv.ticks_cases inv.ticks_wrap; simp)

lemma ticks_threads [intro, simp]:
  "inv.ticks (new_post_tx u t body priv)" "inv.ticks (open_thread u title)" "inv.ticks (link_thread s i)"
  "inv.ticks (new_thread_tx s u title body)" "inv.ticks (subforum_of_view t)"
proof -
  show "inv.ticks (new_post_tx u t body priv)"
    unfolding new_post_tx_def by (intro inv.ticks_bind inv.ticks_cases inv.ticks_wrap; simp)
  show o: "inv.ticks (open_thread u title)"
    unfolding open_thread_def by (intro inv.ticks_bind inv.ticks_cases inv.ticks_wrap; simp)
  show l: "inv.ticks (link_thread s i)" for s i
    unfolding link_thread_def by (intro inv.ticks_bind inv.ticks_cases inv.ticks_wrap; simp)
  show "inv.ticks (new_thread_tx s u title body)"
    unfolding new_thread_tx_def by (intro inv.ticks_bind inv.ticks_cases o l; simp)
  show "inv.ticks (subforum_of_view t)"
    unfolding subforum_of_view_def by (intro inv.ticks_bind inv.ticks_cases; simp)
qed

text \<open>The branches of \<open>new_post_tx\<close>, and that it commits only in the last.\<close>

lemma new_post_tx_ok:
  assumes g: "schema E (w_db w)" "counters_free (w_db w)" and k: "clock_ok (w_clock w)"
    and u: "u \<noteq> []" "length u \<le> UsernameMaxLength" "length body \<le> MaxValueSize"
    and r: "new_post_tx u t body priv w = (Ok a, w')"
  obtains now where "marshal_text (w_clock w 0) = Inr now" "parse_time now = Some (w_clock w 0)"
    "w_db w' = new_post_db u t body now (w_db w)" "dbis (w_db w) [DBALLTHREADS, t]"
    "dbval (w_db w) [DBALLTHREADS, t] ''locked'' \<noteq> Some ''1'' \<or> Is priv Mod"
proof -
  have "clock_time (w_clock w 0)" using k by (simp add: clock_ok_def)
  then obtain now where now: "marshal_text (w_clock w 0) = Inr now" "length now \<le> 35" "parse_time now = Some (w_clock w 0)"
    by (rule clock_marshal)
  have t: "dbis (w_db w) [DBALLTHREADS, t]"
    using new_post_tx_missing[OF g(1)] r by (cases "dbis (w_db w) [DBALLTHREADS, t]") auto
  have l: "dbval (w_db w) [DBALLTHREADS, t] ''locked'' \<noteq> Some ''1'' \<or> Is priv Mod"
    using new_post_tx_locked[OF g(1) t, of priv] r by (cases "Is priv Mod") auto
  show ?thesis
    using that[OF now(1,3) _ t l] new_post_tx_eq[OF g t l u now(1,2)] r by simp
qed

lemma leads_OnNewPost:
  assumes "n \<le> 2 ^ 64 - 1" "u \<noteq> []" "length u \<le> UsernameMaxLength" "length body \<le> MaxValueSize"
  shows "inv.leads E n b0 (kept E (Suc n) b0) (OnNewPost u t body priv)"
proof -
  have "inv.leads E n b0 (kept E (Suc n) b0) (db_update (new_post_tx u t body priv))"
  proof (rule inv.leads_update[OF ticks_threads(1) kept_mono])
    fix w a w' assume g0: "kept E n b0 (w_db w)" and k: "clock_ok (w_clock w)" and r: "new_post_tx u t body priv w = (Ok a, w')"
    note g = keptD(1)[OF g0]
    note s = goodD(1)[OF g] and c = good_free[OF g assms(1)]
    obtain now where now: "parse_time now = Some (w_clock w 0)" and w': "w_db w' = new_post_db u t body now (w_db w)"
      and t: "dbis (w_db w) [DBALLTHREADS, t]"
      using new_post_tx_ok[OF s c k assms(2-4) r] by metis
    have "good E (Suc n) (w_db w')"
      using new_post_keeps[OF s c t, of now] new_post_counters[OF s c t goodD(2)[OF g]] now
      by (simp add: good_def w')
    then show "kept E (Suc n) b0 (w_db w')"
      by (rule kept_step[OF g0]) (simp add: w' new_post_extends[OF s c t])
  qed
  then show ?thesis
    unfolding OnNewPost_def by (rule inv.leads_then) (auto simp: go_ret_def inv.ticks_def split: sum.split)
qed


text \<open>
  A subforum without a bucket is noticed last: the transaction fails after the entry
  for the keyword index has been queued.
\<close>

lemma new_thread_tx_missing:
  assumes g: "schema E (w_db w)" "counters_free (w_db w)" and n: "\<not> dbis (w_db w) [DBSUBFORUMS, s]"
    and u: "u \<noteq> []" "length u \<le> UsernameMaxLength" "length body \<le> MaxValueSize" "length title \<le> MaxValueSize"
    and now: "marshal_text (w_clock w 0) = Inr now" "length now \<le> 35"
  obtains w' where "new_thread_tx s u title body w = (Fail (ErrNew ''subforumBucketSub == nil''), w')"
    "w_kw w' = map_option (\<lambda>q. q @ [makeKeywordIndex u body (itob (dbseq (w_db w) [DBALLPOSTS] + 1))
                 (itob (dbseq (w_db w) [DBALLTHREADS] + 1))]) (w_kw w)"
proof -
  let ?t = "itob (dbseq (w_db w) [DBALLTHREADS] + 1)"
  let ?b1 = "open_thread_db u title now (w_db w)"
  let ?w1 = "w\<lparr>w_db := ?b1, w_clock := \<lambda>n. w_clock w (Suc n)\<rparr>"
  let ?b2 = "add_post_db body u now ?t ?b1"
  note rooms = new_thread_rooms[OF g]
  have 1: "open_thread u title w = (Ok (dbseq (w_db w) [DBALLTHREADS] + 1, now, [DBALLTHREADS, ?t]), ?w1)"
    using open_thread_eq[OF rooms(1) u(1,2,4) now(1)] now(2) by simp
  have 2: "AddNewPostToDatabase body u now ?t [DBALLTHREADS, ?t] ?w1 =
      (Ok (dbseq (w_db w) [DBALLPOSTS] + 1), ?w1\<lparr>w_db := ?b2\<rparr>)"
    using AddNewPost_eq[of ?t ?w1 u body now] rooms(2) u(1-3) now(2) open_thread_flat[OF rooms(1), of u title now] by simp
  note lk = new_thread_link[OF g, where body = body and u = u and now = now and title = title]
  have 3: "link_thread s i w'' = (Fail (ErrNew ''subforumBucketSub == nil''), w'')" if "w_db w'' = ?b2" for w'' i
    using link_error[of w'' s] lk(3)[OF schema_top(6)[OF g(1)]] lk(4)[of "[DBSUBFORUMS, s]"] n that by auto
  show ?thesis
    by (rule that[of "?w1\<lparr>w_db := ?b2, w_kw := map_option (\<lambda>q. q @ [makeKeywordIndex u body
          (itob (dbseq (w_db w) [DBALLPOSTS] + 1)) ?t]) (w_kw w)\<rparr>"])
       (simp_all add: 1 2 3 new_thread_tx_def go_simps sendPostToKeywordDB_eq)
qed

lemma new_thread_tx_ok:
  assumes g: "schema E (w_db w)" "counters_free (w_db w)" and k: "clock_ok (w_clock w)"
    and u: "u \<noteq> []" "length u \<le> UsernameMaxLength" "length body \<le> MaxValueSize" "length title \<le> MaxValueSize" "length s \<le> MaxValueSize"
    and r: "new_thread_tx s u title body w = (Ok a, w')"
  obtains now where "marshal_text (w_clock w 0) = Inr now" "parse_time now = Some (w_clock w 0)"
    "w_db w' = new_thread_db s u title body now (w_db w)" "dbis (w_db w) [DBSUBFORUMS, s]"
proof -
  have "clock_time (w_clock w 0)" using k by (simp add: clock_ok_def)
  then obtain now where now: "marshal_text (w_clock w 0) = Inr now" "length now \<le> 35" "parse_time now = Some (w_clock w 0)"
    by (rule clock_marshal)
  have sf: "dbis (w_db w) [DBSUBFORUMS, s]"
    using new_thread_tx_missing[OF g _ u(1-4) now(1,2)] r by fastforce
  show ?thesis
    using that[OF now(1,3) _ sf] new_thread_tx_eq[OF g sf u now(1,2)] r by simp
qed

lemma leads_OnNewThread:
  assumes "n \<le> 2 ^ 64 - 1" "u \<noteq> []" "length u \<le> UsernameMaxLength" "length body \<le> MaxValueSize" "length s \<le> MaxValueSize"
    "length title \<le> MaxValueSize"
  shows "inv.leads E n b0 (kept E (Suc n) b0) (OnNewThread E s u title body)"
proof (cases "ValidateThreadTitle E (trim_space title)")
  case None
  let ?title = "trim_space title"
  have "inv.leads E n b0 (kept E (Suc n) b0) (db_update (new_thread_tx s u ?title body))" if l: "length ?title \<le> MaxValueSize"
  proof (rule inv.leads_update[OF ticks_threads(4) kept_mono])
    fix w a w' assume g0: "kept E n b0 (w_db w)" and k: "clock_ok (w_clock w)" and r: "new_thread_tx s u ?title body w = (Ok a, w')"
    note g = keptD(1)[OF g0]
    note sc = goodD(1)[OF g] and c = good_free[OF g assms(1)]
    obtain now where now: "parse_time now = Some (w_clock w 0)" and w': "w_db w' = new_thread_db s u ?title body now (w_db w)"
      and sf: "dbis (w_db w) [DBSUBFORUMS, s]"
      using new_thread_tx_ok[OF sc c k assms(2-4) l assms(5) r] by metis
    have "good E (Suc n) (w_db w')"
      using new_thread_keeps[OF sc c sf, of now] new_thread_counters[OF sc c sf goodD(2)[OF g]] now
      by (simp add: good_def w')
    then show "kept E (Suc n) b0 (w_db w')"
      by (rule kept_step[OF g0]) (simp add: w' new_thread_extends[OF sc c sf])
  qed
  moreover have "length ?title \<le> MaxValueSize" using assms(6) length_trim_space[of title] by simp
  ultimately show ?thesis
    using None unfolding OnNewThread_def Let_def
    by (simp, intro inv.leads_then) (auto simp: go_ret_def inv.ticks_def split: sum.split)
qed (auto simp: OnNewThread_def intro!: inv.leads_keeps kept_mono)


lemma leads_with_nudge:
  assumes "inv.leads E n b0 (kept E (Suc n) b0) rest"
  shows "inv.leads E n b0 (kept E (Suc n) b0) (with_nudge u url c rest)"
  unfolding with_nudge_def
  by (rule inv.leads_bind[OF keeps_nudge(1) _ kept_mono])
     (auto intro!: assms inv.leads_keeps[OF _ kept_mono] inv.keeps_bind split: sum.split)

lemma part_length: "request_ok u \<Longrightarrow> i < length (path_parts (u_path u)) \<Longrightarrow> length (path_parts (u_path u) ! i) \<le> MaxValueSize"
  using path_parts_length[of "path_parts (u_path u) ! i" "u_path u"] by (simp add: request_ok_def MaxValueSize_def)

lemma query_length: "request_ok u \<Longrightarrow> query_unescape (u_query u) = Inr s \<Longrightarrow> length s \<le> MaxValueSize"
  using length_unescape[of True "u_query u" s] by (simp add: request_ok_def query_unescape_def MaxValueSize_def)

text \<open>
  The step for a handler that starts with the session of a certificate: what
  follows may rely on the user being a registered one.
\<close>

lemma leads_session:
  assumes "\<And>s. s_username s \<noteq> [] \<Longrightarrow> length (s_username s) \<le> UsernameMaxLength \<Longrightarrow>
      inv.leads E n b0 (kept E (Suc n) b0) (f s)" "\<And>s. s_username s = [] \<Longrightarrow> inv.leads E n b0 (kept E (Suc n) b0) (f s)"
  shows "inv.leads E n b0 (kept E (Suc n) b0) (go_bind (GetUsernameFromFP E fp) f)"
proof (rule inv.leads_bind_res[OF inv.keeps_session _ kept_mono])
  fix s w w' assume g0: "kept E n b0 (w_db w)" and r: "GetUsernameFromFP E fp w = (Ok s, w')"
  show "inv.leads E n b0 (kept E (Suc n) b0) (f s)"
  proof (cases "s_username s = []")
    case False
    then show ?thesis
      using assms(1) session_user_ok(1)[OF goodD(1)[OF keptD(1)[OF g0]] r] by (simp add: user_ok_def UsernameMaxLength_def)
  qed (use assms(2) in blast)
qed

lemma leads_ret [intro, simp]:
  "inv.leads E n b0 (kept E (Suc n) b0) (go_ret a)" "inv.leads E n b0 (kept E (Suc n) b0) (go_panic)"
  by (rule inv.leads_keeps[OF _ kept_mono]; simp)+

lemma leads_NewPostHandler:
  assumes "n \<le> 2 ^ 64 - 1" "request_ok u"
  shows "inv.leads E n b0 (kept E (Suc n) b0) (NewPostHandler E u c)"
  unfolding NewPostHandler_def Let_def
  by (auto intro!: leads_session inv.leads_bind[OF _ _ kept_mono] inv.keeps_view leads_with_nudge
      leads_OnNewPost[OF assms(1)] query_length[OF assms(2)] split: option.split sum.split)

lemma leads_CreateThreadHandler:
  assumes "n \<le> 2 ^ 64 - 1" "request_ok u"
  shows "inv.leads E n b0 (kept E (Suc n) b0) (CreateThreadHandler E u c)"
proof -
  have t: "length title \<le> MaxValueSize" if "path_unescape (path_parts (u_path u) ! 3) = Inr title" "length (path_parts (u_path u)) = 4" for title
    using length_unescape[of False] that part_length[OF assms(2), of 3] by (fastforce simp: path_unescape_def)
  show ?thesis
    unfolding CreateThreadHandler_def Let_def
    by (auto intro!: leads_session leads_with_nudge leads_OnNewThread[OF assms(1)]
        simp: query_length[OF assms(2)] part_length[OF assms(2)] t split: option.split sum.split)
qed

end
