(* ===== verification/Moderation.thy ===== *)
theory Moderation imports Console ThreadsDb begin

text \<open>
  What the moderators' commands do to the database, and that they keep its schema.
\<close>

lemma ticks_log [intro, simp]: "inv.ticks (log_tx u p c)"
  unfolding log_tx_def by (intro inv.ticks_bind inv.ticks_wrap; simp)

lemma log_tx_eq:
  assumes "schema E (w_db w)" "clock_ok (w_clock w)" "length u \<le> UsernameMaxLength" "length c \<le> MaxValueSize - 50"
  shows "log_tx u p c w = (Ok (), w\<lparr>w_db := bput [DBCONSOLELOG] (RFC3339Nano (w_clock w 0))
      (u @ ''/'' @ priv_string p @ '':'' @ c) (w_db w), w_clock := \<lambda>n. w_clock w (Suc n)\<rparr>)"
proof -
  have "clock_time (w_clock w 0)" using assms(2) by (simp add: clock_ok_def)
  note k = RFC3339Nano_key[OF this]
  show ?thesis
    using assms(3,4) schema_top[OF assms(1)] k length_priv_string[of p]
    by (simp add: log_tx_def go_simps MaxKeySize_def MaxValueSize_def UsernameMaxLength_def)
qed

lemma keeps_log [intro, simp]: "inv.keeps E n b0 (LogConsoleCommand u p c)"
proof -
  have "inv.keeps E n b0 (db_update (log_tx u p c))"
  proof (rule keeps_tx[OF ticks_log])
    fix w a w' assume s: "schema E (w_db w)" and r: "log_tx u p c w = (Ok a, w')"
    let ?k = "RFC3339Nano (w_clock w 0)" and ?v = "u @ ''/'' @ priv_string p @ '':'' @ c"
    let ?w = "w\<lparr>w_clock := \<lambda>n. w_clock w (Suc n)\<rparr>"
    have t: "dbis (w_db ?w) [DBCONSOLELOG]" "\<not> dbis (w_db ?w) ([DBCONSOLELOG] @ [?k])" using schema_top[OF s] by simp_all
    show "schema E (w_db w') \<and> (\<forall>p. dbseq (w_db w') p = dbseq (w_db w) p) \<and> extends (w_db w) (w_db w')"
      using r t put_log[OF s]
      by (cases rule: tx_put_cases[OF t, of ?v]) (auto simp: log_tx_def go_simps)
  qed
  then show ?thesis unfolding LogConsoleCommand_def by (intro inv.keeps_bind) auto
qed

text \<open>A thread's lock is the one field \<open>lock\<close> and \<open>unlock\<close> change.\<close>

lemma lock_tx_eq:
  assumes "schema E (w_db w)" "length v \<le> MaxValueSize"
  shows "lock_tx t v w =
    (if dbis (w_db w) [DBALLTHREADS, t] then (Ok (), w\<lparr>w_db := bput [DBALLTHREADS, t] ''locked'' v (w_db w)\<rparr>)
     else (Fail (ErrNew ''Thread not found.''), w))"
  using assms(2) schema_top[OF assms(1)] by (simp add: lock_tx_def go_simps MaxKeySize_def)

lemma unmute_tx_eq:
  assumes "schema E (w_db w)"
  shows "unmute_tx u w =
    (if dbis (w_db w) [DBUSERS, u] then (Ok (), w\<lparr>w_db := bput [DBUSERS, u] ''muted'' [] (w_db w)\<rparr>)
     else (Fail ErrUserNotFound, w))"
  using schema_top[OF assms] by (simp add: unmute_tx_def go_simps MaxKeySize_def MaxValueSize_def)

lemma mute_duration_bound: "\<bar>mute_duration d\<bar> \<le> 2 ^ 63"
  using wrap64_bounds[of "wrap64 (3600 * nsec_per_sec * 24) * d"] by (auto simp: mute_duration_def abs_le_iff)

text \<open>The value \<open>mute\<close> stores, when it stores one.\<close>

definition mute_value :: "bytes \<Rightarrow> gtime \<Rightarrow> bytes option" where
  "mute_value period now =
     (if period = ''permanent'' then Some ''permanent''
      else case atoi period of
             None \<Rightarrow> None
           | Some days \<Rightarrow> if days \<le> 0 then None else Some (RFC3339 (t_add now (mute_duration days))))"

lemma mute_value_ok:
  assumes "clock_time now" "mute_value period now = Some v"
  shows "muted_ok v" "length v \<le> 35"
proof -
  have "muted_ok v \<and> length v \<le> 35"
  proof (cases "period = ''permanent''")
    case False
    then obtain days where v: "v = RFC3339 (t_add now (mute_duration days))"
      using assms(2) by (auto simp: mute_value_def split: option.splits if_splits)
    note y = clock_year[OF assms(1) mute_duration_bound, of days]
    show ?thesis
      using parse_format[OF y, of False] length_format_time[OF y, of False] by (simp add: v RFC3339_def muted_ok_def)
  qed (use assms(2) in \<open>auto simp: mute_value_def muted_ok_def PERMANENTLYMUTED_def\<close>)
  then show "muted_ok v" "length v \<le> 35" by blast+
qed

lemma mute_tx_eq:
  assumes s: "schema E (w_db w)" and k: "clock_ok (w_clock w)"
  obtains e c where "mute_tx u period w =
    (if dbis (w_db w) [DBUSERS, u] \<and> mute_value period (w_clock w 0) \<noteq> None
     then (Ok (), w\<lparr>w_clock := c, w_db := bput [DBUSERS, u] ''muted'' (the (mute_value period (w_clock w 0))) (w_db w)\<rparr>)
     else (Fail e, w))"
proof -
  have c: "clock_time (w_clock w 0)" using k by (simp add: clock_ok_def)
  note v = mute_value_ok[OF c, of period] and top = schema_top[OF s]
  have w: "w = w\<lparr>w_clock := w_clock w\<rparr>" by simp
  consider "\<not> dbis (w_db w) [DBUSERS, u]" | "dbis (w_db w) [DBUSERS, u]" "period = ''permanent''"
    | "dbis (w_db w) [DBUSERS, u]" "period \<noteq> ''permanent''" "atoi period = None"
    | d where "dbis (w_db w) [DBUSERS, u]" "period \<noteq> ''permanent''" "atoi period = Some d" by blast
  then show ?thesis
  proof cases
    case 1
    then show ?thesis using that[where e = ErrUserNotFound] top by (simp add: mute_tx_def go_simps)
  next
    case 2
    then show ?thesis using that[where c = "w_clock w"] top v
      by (simp add: mute_tx_def go_simps mute_value_def MaxKeySize_def MaxValueSize_def)
  next
    case 3
    then show ?thesis using that top by (simp add: mute_tx_def go_simps mute_value_def)
  next
    case 4
    then show ?thesis using that[where e = "ErrNew ''You may not specify a number of days <= 0.''"] that[where c = "\<lambda>n. w_clock w (Suc n)"] top v
      by (cases "d \<le> 0") (simp_all add: mute_tx_def go_simps mute_value_def MaxKeySize_def MaxValueSize_def)
  qed
qed

lemma ticks_console [intro, simp]: "inv.ticks (lock_tx t v)" "inv.ticks (mute_tx u period)" "inv.ticks (unmute_tx u)"
  "inv.ticks (read_view a m d)"
  unfolding lock_tx_def mute_tx_def unmute_tx_def read_view_def
  by (intro inv.ticks_bind inv.ticks_cases inv.ticks_wrap; simp)+

lemma keeps_lock [intro, simp]:
  assumes "v = ''0'' \<or> v = ''1''"
  shows "inv.keeps E n b0 (MuteOrUnmuteThread t v)"
  unfolding MuteOrUnmuteThread_def
proof (rule keeps_tx[OF ticks_console(1)])
  fix w a w' assume s: "schema E (w_db w)" and r: "lock_tx t v w = (Ok a, w')"
  have l: "length v \<le> MaxValueSize" using assms by (auto simp: MaxValueSize_def)
  show "schema E (w_db w') \<and> (\<forall>p. dbseq (w_db w') p = dbseq (w_db w) p) \<and> extends (w_db w) (w_db w')"
    using r lock_tx_eq[OF s l, of t] put_thread_lock[OF s] assms schema_top(2)[OF s]
    by (auto simp: flag_ok_def split: if_splits)
qed

lemma keeps_mute [intro, simp]: "inv.keeps E n b0 (db_update (mute_tx u period))" "inv.keeps E n b0 (db_update (unmute_tx u))"
proof -
  show "inv.keeps E n b0 (db_update (mute_tx u period))"
  proof (rule keeps_tx[OF ticks_console(2)])
    fix w a w' assume s: "schema E (w_db w)" and k: "clock_ok (w_clock w)" and r: "mute_tx u period w = (Ok a, w')"
    have c: "clock_time (w_clock w 0)" using k by (simp add: clock_ok_def)
    show "schema E (w_db w') \<and> (\<forall>p. dbseq (w_db w') p = dbseq (w_db w) p) \<and> extends (w_db w) (w_db w')"
      using r mute_value_ok(1)[OF c] put_user_field[OF s] schema_top(2)[OF s]
      by (cases rule: mute_tx_eq[OF s k, of u period]) (auto split: if_splits)
  qed
  show "inv.keeps E n b0 (db_update (unmute_tx u))"
  proof (rule keeps_tx[OF ticks_console(3)])
    fix w a w' assume s: "schema E (w_db w)" and r: "unmute_tx u w = (Ok a, w')"
    show "schema E (w_db w') \<and> (\<forall>p. dbseq (w_db w') p = dbseq (w_db w) p) \<and> extends (w_db w) (w_db w')"
      using r unmute_tx_eq[OF s] put_user_field[OF s] schema_top(2)[OF s] by (auto simp: muted_ok_def split: if_splits)
  qed
qed

lemma keeps_reply [intro]: "inv.keeps E n b0 m \<Longrightarrow> inv.keeps E n b0 (reply m st d)"
  unfolding reply_def by (intro inv.keeps_bind inv.keeps_cases) auto

lemma keeps_switch [intro, simp]: "inv.keeps E n b0 (console_switch E fs)"
  unfolding console_switch_def Let_def
  by (intro inv.keeps_cases inv.keeps_ret keeps_reply keeps_lock keeps_mute inv.keeps_bind inv.keeps_view ticks_console; simp)

lemma keeps_ConsoleCommand [intro, simp]: "inv.keeps E n b0 (ConsoleCommand E u p c)"
  unfolding inv.keeps_def
proof (intro allI impI)
  fix w :: world assume w: "kept E n b0 (w_db w)" "clock_ok (w_clock w)"
  obtain r w1 where 1: "console_switch E (strings_fields c) w = (r, w1)" by fastforce
  obtain q w2 where 2: "LogConsoleCommand u p c w1 = (q, w2)" by fastforce
  have "snd (ConsoleCommand E u p c w) = w2"
    using 1 2 by (cases q) (simp_all add: ConsoleCommand_def)
  then show "kept E n b0 (w_db (snd (ConsoleCommand E u p c w))) \<and> clock_ok (w_clock (snd (ConsoleCommand E u p c w)))"
    using inv.keepsD[OF keeps_switch 1 w] inv.keepsD[OF keeps_log 2, of E n b0] by simp
qed

lemma keeps_ConsoleHandler [intro, simp]: "inv.keeps E n b0 (ConsoleHandler E u c)"
  unfolding ConsoleHandler_def
  by (intro inv.keeps_cases inv.keeps_ret inv.keeps_bind inv.keeps_session keeps_ConsoleCommand)
end
