(* ===== verification/SubforumIndex.thy ===== *)
theory SubforumIndex imports Threads "HOL-Library.Multiset" begin

text \<open>
  \<open>subforumIndex.go\<close>: the threads of a subforum in order of their last change.
  \<open>sort.Sort\<close> is the parameter \<open>e_sort\<close>; the locale \<open>sorter\<close> states what the
  code relies on, and \<open>insertion_sort\<close>, the algorithm of the library for short
  slices, is shown to meet it.
\<close>

definition NotFound :: response where
  "NotFound = ResponseFormat NotFoundStatus ''Not found'' []"

section \<open>Sorting\<close>

text \<open>\<open>sort.Sort(threads)\<close>: the positions in the order the library gives them.\<close>

definition sort_threads :: "env \<Rightarrow> Thread list \<Rightarrow> Thread list" where
  "sort_threads E ts = map (\<lambda>i. ts ! i) (e_sort E (\<lambda>i j. Less (ts ! i) (ts ! j)) (length ts))"

text \<open>The insertion sort of Go's \<open>sort\<close> package on a list of positions.\<close>

fun sift_down :: "(nat \<Rightarrow> nat \<Rightarrow> bool) \<Rightarrow> nat \<Rightarrow> nat list \<Rightarrow> nat list" where
  "sift_down lt x [] = [x]"
| "sift_down lt x (y # ys) = (if lt x y then y # sift_down lt x ys else x # y # ys)"

text \<open>The sorted prefix is kept in reverse, so the element moves from its end.\<close>

definition insertion_sort :: "(nat \<Rightarrow> nat \<Rightarrow> bool) \<Rightarrow> nat \<Rightarrow> nat list" where
  "insertion_sort lt n = rev (foldl (\<lambda>acc x. sift_down lt x acc) [] [0..<n])"

text \<open>
  The contract of \<open>sort.Sort\<close>: it permutes the positions, and orders them if \<open>lt\<close> is a
  total order up to ties.  (\<open>Less\<close> is reflexive here, where the library asks for a
  strict order; the algorithm of the library for short slices sorts with either.)
\<close>

locale sorter =
  fixes srt :: "(nat \<Rightarrow> nat \<Rightarrow> bool) \<Rightarrow> nat \<Rightarrow> nat list"
  assumes srt_perm: "mset (srt lt n) = mset [0..<n]"
    and srt_sorted: "(\<And>i j k. lt i j \<Longrightarrow> lt j k \<Longrightarrow> lt i k) \<Longrightarrow> (\<And>i j. lt i j \<or> lt j i) \<Longrightarrow> sorted_wrt lt (srt lt n)"
begin

lemma srt_threads:
  fixes ts :: "Thread list"
  defines "r \<equiv> map (\<lambda>i. ts ! i) (srt (\<lambda>i j. Less (ts ! i) (ts ! j)) (length ts))"
  shows "mset r = mset ts" "sorted_wrt Less r"
proof -
  have "mset r = image_mset ((!) ts) (mset [0..<length ts])" unfolding r_def mset_map srt_perm ..
  also have "\<dots> = mset ts" by (simp only: mset_map[symmetric] map_nth)
  finally show "mset r = mset ts" .
  have "sorted_wrt (\<lambda>i j. Less (ts ! i) (ts ! j)) (srt (\<lambda>i j. Less (ts ! i) (ts ! j)) (length ts))"
    by (rule srt_sorted) (auto simp: Less_def t_before_def)
  then show "sorted_wrt Less r" by (simp add: r_def sorted_wrt_map)
qed

end

lemma sift_down_mset: "mset (sift_down lt x ys) = add_mset x (mset ys)"
  by (induction lt x ys rule: sift_down.induct) auto

lemma set_sift_down: "set (sift_down lt x ys) = insert x (set ys)"
  by (induction lt x ys rule: sift_down.induct) auto

lemma sift_down_sorted:
  assumes trans: "\<And>i j k. lt i j \<Longrightarrow> lt j k \<Longrightarrow> lt i k" and total: "\<And>i j. lt i j \<or> lt j i"
    and "sorted_wrt (\<lambda>a b. lt b a) ys"
  shows "sorted_wrt (\<lambda>a b. lt b a) (sift_down lt x ys)"
  using assms(3)
proof (induction ys)
  case (Cons y ys)
  show ?case
  proof (cases "lt x y")
    case False
    then have "lt y x" using total by blast
    then show ?thesis using Cons False trans by auto
  qed (use Cons in \<open>auto simp: set_sift_down\<close>)
qed simp

interpretation isort: sorter insertion_sort
proof
  show "mset (insertion_sort lt n) = mset [0..<n]" for lt n
  proof -
    have "mset (foldl (\<lambda>acc x. sift_down lt x acc) acc xs) = mset acc + mset xs" for acc xs
      by (induction xs arbitrary: acc) (simp_all add: sift_down_mset)
    then show ?thesis by (simp add: insertion_sort_def)
  qed
  fix lt :: "nat \<Rightarrow> nat \<Rightarrow> bool" and n
  assume lt: "\<And>i j k. lt i j \<Longrightarrow> lt j k \<Longrightarrow> lt i k" "\<And>i j. lt i j \<or> lt j i"
  have "sorted_wrt (\<lambda>a b. lt b a) (foldl (\<lambda>acc x. sift_down lt x acc) acc xs)" if "sorted_wrt (\<lambda>a b. lt b a) acc" for acc xs
    using that
  proof (induction xs arbitrary: acc)
    case (Cons x xs)
    then show ?case using sift_down_sorted[of lt acc x] lt by (metis foldl_Cons)
  qed simp
  then show "sorted_wrt lt (insertion_sort lt n)"
    unfolding insertion_sort_def sorted_wrt_rev by (simp del: foldl_Cons)
qed

section \<open>Reading a subforum\<close>

text \<open>The cursor loops stop at the first \<open>nil\<close> value.\<close>

fun cursor_values :: "(bytes \<times> bytes option) list \<Rightarrow> bytes list" where
  "cursor_values ((k, Some v) # r) = v # cursor_values r"
| "cursor_values _ = []"

definition unmarshal_time :: "env \<Rightarrow> bytes option \<Rightarrow> gtime go" where
  "unmarshal_time E v =
     (case parse_time (str_of v) of
        None \<Rightarrow> go_fail (ErrExternal (e_parse_error E (str_of v)))
      | Some t \<Rightarrow> go_ret t)"

definition read_thread :: "env \<Rightarrow> handle \<Rightarrow> bytes \<Rightarrow> Thread go" where
  "read_thread E threadsBucket threadID =
     go_bind (tx_bucket threadsBucket threadID) (\<lambda>threadInfo.
     go_bind (or_fail threadInfo (ErrNew ''threadInfo == nil'')) (\<lambda>threadInfo.
     go_bind (tx_get threadInfo ''title'') (\<lambda>title.
     go_bind (tx_get threadInfo ''user'') (\<lambda>user.
     go_bind (tx_get threadInfo ''lastmodified'') (\<lambda>lm.
     go_bind (unmarshal_time E lm) (\<lambda>t.
     go_bind (tx_get threadInfo ''locked'') (\<lambda>locked.
     go_bind (tx_get threadInfo ''archived'') (\<lambda>archived.
     go_ret \<lparr>th_ID = threadID, th_Title = str_of title, th_User = str_of user, th_LastModified = t,
             th_Locked = bytes_equal locked ''1'', th_Archived = bytes_equal archived ''1''\<rparr>))))))))"

fun map_go :: "('a \<Rightarrow> 'b go) \<Rightarrow> 'a list \<Rightarrow> 'b list go" where
  "map_go f [] = go_ret []"
| "map_go f (x # xs) = go_bind (f x) (\<lambda>y. go_bind (map_go f xs) (\<lambda>ys. go_ret (y # ys)))"

definition subforum_view :: "env \<Rightarrow> bytes \<Rightarrow> Thread list go" where
  "subforum_view E subforum =
     go_bind (tx_bucket [] DBSUBFORUMS) (\<lambda>subforumBucketParent.
     go_bind (or_fail subforumBucketParent (ErrNew ''Subforum root bucket not found'')) (\<lambda>subforumBucketParent.
     go_bind (tx_bucket subforumBucketParent subforum) (\<lambda>subforumBucket.
     go_bind (or_fail subforumBucket (ErrNew ''Subforum not found'')) (\<lambda>subforumBucket.
     go_bind (tx_bucket [] DBALLTHREADS) (\<lambda>threadsBucket.
     go_bind (tx_cursor subforumBucket) (\<lambda>kvs.
     map_go (\<lambda>threadID. go_bind (deref threadsBucket) (\<lambda>h. read_thread E h threadID)) (cursor_values kvs)))))))"

definition GetThreadsForSubforum :: "env \<Rightarrow> bytes \<Rightarrow> (err + Thread list) go" where
  "GetThreadsForSubforum E subforum =
     go_bind (db_view (subforum_view E subforum)) (\<lambda>r.
     case r of Inl e \<Rightarrow> go_ret (Inl e) | Inr threads \<Rightarrow> go_ret (Inr (sort_threads E threads)))"

section \<open>Dates\<close>

definition short_months :: "bytes list" where
  "short_months = [''Jan'', ''Feb'', ''Mar'', ''Apr'', ''May'', ''Jun'', ''Jul'', ''Aug'', ''Sep'', ''Oct'', ''Nov'', ''Dec'']"

definition short_days :: "bytes list" where
  "short_days = [''Sun'', ''Mon'', ''Tue'', ''Wed'', ''Thu'', ''Fri'', ''Sat'']"

text \<open>\<open>t.UTC().Format("02 Jan 2006")\<close> and \<open>t.UTC().Format(time.RFC1123)\<close>; 1 January of year 1 was a Monday.\<close>

definition format_date :: "gtime \<Rightarrow> bytes" where
  "format_date t0 =
     (let t = t0\<lparr>t_off := 0\<rparr>; (y, yday) = year_yday (day_of t); (m, d) = month_day (is_leap y) yday
      in fmt2 (nat d) @ '' '' @ short_months ! (m - 1) @ '' '' @ fmt_year y)"

definition RFC1123 :: "gtime \<Rightarrow> bytes" where
  "RFC1123 t0 =
     (let t = t0\<lparr>t_off := 0\<rparr>; s = nat (sec_of_day t)
      in short_days ! nat ((day_of t + 1) mod 7) @ '', '' @ format_date t @ '' '' @ fmt2 (s div 3600)
         @ '':'' @ fmt2 (s div 60 mod 60) @ '':'' @ fmt2 (s mod 60) @ '' UTC'')"

definition hours :: "int \<Rightarrow> int" where "hours n = n * 3600 * nsec_per_sec"

text \<open>\<open>time.Since\<close> reads the clock at each call.\<close>

definition time_since :: "gtime \<Rightarrow> int go" where
  "time_since t = go_bind time_now (\<lambda>now. go_ret (t_sub now t))"

definition TimeFormatForThread :: "gtime \<Rightarrow> bytes go" where
  "TimeFormatForThread t =
     go_bind (time_since t) (\<lambda>d.
     if d < hours (24 * 7) then go_bind (time_since t) (\<lambda>d'. go_ret (ParseShort d'))
     else go_ret (format_date t))"

section \<open>The page\<close>

definition thread_line :: "Thread \<Rightarrow> bytes go" where
  "thread_line t =
     go_bind (TimeFormatForThread (th_LastModified t)) (\<lambda>tm.
     go_ret (LinkPrefix @ ''/thread/'' @ th_ID t @ ''/ '' @ th_Title t @ '' ('' @ tm @ '')''))"

text \<open>The root page, shown for \<open>/f/\<close>, is an argument here.\<close>

definition SubforumIndexHandler :: "env \<Rightarrow> response go \<Rightarrow> url \<Rightarrow> conn option \<Rightarrow> response go" where
  "SubforumIndexHandler E home u c =
     (let pathspl = path_parts (u_path u)
      in if length pathspl = 1 then home
         else if length pathspl \<noteq> 2 then go_ret BadUserInput
         else
           (let subforumID = pathspl ! 1
            in case SubforumExists (c_Forum (e_cfg E)) subforumID of
                 (name, ex) \<Rightarrow>
                   (if \<not> ex then go_ret NotFound
                    else go_bind (GetThreadsForSubforum E subforumID) (\<lambda>r.
                      case r of
                        Inl e \<Rightarrow> go_ret (ErrorResponse TemporaryFailure e)
                      | Inr threads \<Rightarrow>
                          go_bind (map_go thread_line threads) (\<lambda>ls.
                          go_ret (ResponseFormat Success ''text/gemini''
                            ([HeaderPrefix @ name, LinkPrefix @ ''/new/thread/'' @ subforumID @ '' Post new thread'', []]
                             @ ls)))))))"

end
