(* ===== verification/ViewThread.thy ===== *)
theory ViewThread imports SubforumIndex begin

text \<open>
  \<open>viewthread.go\<close>: the page of a thread, with its posts in the order they were
  written and their text as quote lines.
\<close>

record Post =
  p_ThreadID :: bytes
  p_ThreadTitle :: bytes
  p_ThreadAuthor :: bytes
  p_ID :: bytes
  p_Text :: bytes
  p_Author :: bytes
  p_Time :: gtime

definition zero_time :: gtime where
  "zero_time = \<lparr>t_ns = - (unix_days * 86400 * nsec_per_sec), t_off = 0\<rparr>"

definition no_post :: Post where
  "no_post = \<lparr>p_ThreadID = [], p_ThreadTitle = [], p_ThreadAuthor = [], p_ID = [], p_Text = [], p_Author = [],
     p_Time = zero_time\<rparr>"

text \<open>One post of a thread; \<open>None\<close> when its bucket is gone.\<close>

definition read_post :: "env \<Rightarrow> handle \<Rightarrow> bytes \<Rightarrow> Post option go" where
  "read_post E allPosts postId =
     go_bind (tx_bucket allPosts postId) (\<lambda>currentPost.
     case currentPost of
       None \<Rightarrow> go_ret None
     | Some currentPost \<Rightarrow>
         go_bind (tx_get currentPost ''text'') (\<lambda>x.
         go_bind (tx_get currentPost ''user'') (\<lambda>a.
         go_bind (tx_get currentPost ''time'') (\<lambda>tm.
         go_bind (unmarshal_time E tm) (\<lambda>t.
         go_ret (Some (no_post\<lparr>p_ID := postId, p_Text := str_of x, p_Author := str_of a, p_Time := t\<rparr>)))))))"

record thread_page =
  pg_title :: bytes
  pg_locked :: bool
  pg_posts :: "Post list"

definition somes :: "'a option list \<Rightarrow> 'a list" where
  "somes xs = map the (filter (\<lambda>x. x \<noteq> None) xs)"

definition thread_view :: "env \<Rightarrow> bytes \<Rightarrow> thread_page go" where
  "thread_view E i =
     go_bind (tx_bucket [] DBALLTHREADS) (\<lambda>allThreads.
     go_bind (or_fail allThreads (ErrNew ''allThreads == nil'')) (\<lambda>allThreads.
     go_bind (tx_bucket allThreads i) (\<lambda>thread.
     go_bind (or_fail thread ThreadNotFound) (\<lambda>thread.
     go_bind (tx_get thread ''title'') (\<lambda>title.
     go_bind (tx_get thread ''locked'') (\<lambda>locked.
     go_bind (tx_bucket thread ''posts'') (\<lambda>postsIds.
     go_bind (or_fail postsIds (ErrNew ''postsIds == nil'')) (\<lambda>postsIds.
     go_bind (tx_bucket [] DBALLPOSTS) (\<lambda>allPosts.
     go_bind (tx_cursor postsIds) (\<lambda>kvs.
     go_bind (map_go (\<lambda>p. go_bind (deref allPosts) (\<lambda>h. read_post E h p)) (cursor_values kvs)) (\<lambda>ps.
     go_ret \<lparr>pg_title = str_of title, pg_locked = bytes_equal locked ''1'', pg_posts = somes ps\<rparr>)))))))))))"

definition GetLinesOfPost :: "bytes \<Rightarrow> bytes list" where
  "GetLinesOfPost s = filter (\<lambda>l. l \<noteq> []) (map trim_space (fields_func (\<lambda>r. r = 10) s))"

text \<open>\<open>d.Hours() < 24\<close> is \<open>d < 24h\<close>: the division by an hour is exact enough not to cross 24.\<close>

definition TimeFormatForPost :: "gtime \<Rightarrow> bytes go" where
  "TimeFormatForPost t =
     go_bind (time_since t) (\<lambda>d.
     if d < hours 24 then go_bind (time_since t) (\<lambda>d'. go_ret (ParseShort d'))
     else go_ret (RFC1123 t))"

text \<open>The lines of one post; the note on reporting is on the first post only.\<close>

definition post_lines :: "env \<Rightarrow> nat \<times> Post \<Rightarrow> lines go" where
  "post_lines E x =
     (case x of (i, p) \<Rightarrow>
       go_bind (TimeFormatForPost (p_Time p)) (\<lambda>tm.
       go_ret ([Header3Prefix @ DisplayUsernameAuto (e_cfg E) (p_Author p),
                LinkPrefix @ ''/report/'' @ p_ID p @ ''/ '' @ tm @ (if i = 0 then '' (click to report)'' else [])]
               @ map (\<lambda>l. QuotePrefix @ l) (GetLinesOfPost (p_Text p)) @ [[]])))"

definition reply_lines :: "bytes \<Rightarrow> bool \<Rightarrow> UserPriviledge \<Rightarrow> lines" where
  "reply_lines i isLocked userPriv =
     (if isLocked then [''This thread is locked and not accepting new comments.''] else [])
     @ (if \<not> isLocked \<or> Is userPriv whichPrivCanReplyToLockedThread
        then [LinkPrefix @ ''/new/post/'' @ i @ ''/ Write comment''] else [])"

definition viewer_priv :: "env \<Rightarrow> conn option \<Rightarrow> UserPriviledge go" where
  "viewer_priv E c =
     (case GetFingerprint c of
        None \<Rightarrow> go_ret User
      | Some fp \<Rightarrow> go_bind (GetUsernameFromFP E fp) (\<lambda>s. go_ret (s_priv s)))"

definition ThreadViewHandler :: "env \<Rightarrow> url \<Rightarrow> conn option \<Rightarrow> response go" where
  "ThreadViewHandler E u c =
     go_bind (viewer_priv E c) (\<lambda>userPriv.
     let pathspl = path_parts (u_path u)
     in if length pathspl < 2 then go_ret (Response BadRequest ''Bad input'')
        else
          (let i = pathspl ! 1
           in go_bind (db_view (thread_view E i)) (\<lambda>r.
              case r of
                Inl e \<Rightarrow> go_ret (if e = ThreadNotFound then NotFound else ErrorResponse TemporaryFailure e)
              | Inr pg \<Rightarrow>
                  (let reply = reply_lines i (pg_locked pg) userPriv
                   in go_bind (map_go (post_lines E) (zip [0..<length (pg_posts pg)] (pg_posts pg))) (\<lambda>ls.
                      go_ret (ResponseFormat Success ''text/gemini''
                        ([HeaderPrefix @ pg_title pg] @ reply @ [[]] @ concat ls @ reply)))))))"

end
