(* ===== verification/Ratelimit.thy ===== *)
theory Ratelimit imports Effects Env "HOL-Library.Log_Nat" begin

text \<open>
  The rate limiter of \<open>vendor/github.com/coinpaprika/ratelimiter\<close>: a counter per
  key and window, and the rate of the last window's length estimated from the
  counters of this window and the one before.  The estimate is computed in
  \<open>float64\<close>; \<open>f64\<close> is the rounding of a rational to 53 bits, nearest and ties to
  even, applied after every operation as on a machine without fused
  multiply-add.  The values stay far from overflow and from subnormal numbers.
\<close>

section \<open>Floating point\<close>

definition pow2 :: "int \<Rightarrow> rat" where
  "pow2 k = (if 0 \<le> k then 2 ^ nat k else 1 / 2 ^ nat (- k))"

definition log2_floor :: "rat \<Rightarrow> int" where
  "log2_floor x = (case quotient_of x of (n, d) \<Rightarrow>
     (let k = bitlen n - bitlen d in if pow2 k \<le> x then k else k - 1))"

definition round_even :: "rat \<Rightarrow> int" where
  "round_even x =
     (let f = \<lfloor>x\<rfloor>; r = x - of_int f
      in if r < 1 / 2 then f else if r > 1 / 2 then f + 1 else if f mod 2 = 0 then f else f + 1)"

definition f64 :: "rat \<Rightarrow> rat" where
  "f64 x =
     (if x = 0 then 0
      else (let e = log2_floor \<bar>x\<bar> - 52 in of_int (round_even (x / pow2 e)) * pow2 e))"

definition f_int :: "int \<Rightarrow> rat" where "f_int i = f64 (of_int i)"

text \<open>\<open>int64(x)\<close> of a float truncates.\<close>

definition f_trunc :: "rat \<Rightarrow> int" where
  "f_trunc x = (if 0 \<le> x then \<lfloor>x\<rfloor> else - \<lfloor>- x\<rfloor>)"

section \<open>Windows and counters\<close>

definition t_utc :: "gtime \<Rightarrow> gtime" where "t_utc t = t\<lparr>t_off := 0\<rparr>"

definition t_truncate :: "gtime \<Rightarrow> int \<Rightarrow> gtime" where
  "t_truncate t d =
     (if d \<le> 0 then t else t\<lparr>t_ns := t_ns t - (t_ns t + unix_days * 86400 * nsec_per_sec) mod d\<rparr>)"

definition mapKey :: "bytes \<Rightarrow> gtime \<Rightarrow> bytes" where
  "mapKey key window = key @ ''_'' @ RFC3339 window"

type_synonym limits = "(bytes \<times> int \<times> gtime) list"

fun al_update :: "'k \<Rightarrow> 'v \<Rightarrow> ('k \<times> 'v) list \<Rightarrow> ('k \<times> 'v) list" where
  "al_update k v [] = [(k, v)]"
| "al_update k v ((a, x) # r) = (if a = k then (k, v) # r else (a, x) # al_update k v r)"

definition limit_val :: "limits \<Rightarrow> bytes \<Rightarrow> int" where
  "limit_val m k = (case map_of m k of None \<Rightarrow> 0 | Some (v, t) \<Rightarrow> v)"

definition store_Inc :: "bytes \<Rightarrow> gtime \<Rightarrow> unit go" where
  "store_Inc key window =
     go_bind time_now (\<lambda>now w.
       (Ok (), w\<lparr>w_limits := al_update (mapKey key window)
          (limit_val (w_limits w) (mapKey key window) + 1, t_utc now) (w_limits w)\<rparr>))"

definition store_Get :: "bytes \<Rightarrow> gtime \<Rightarrow> gtime \<Rightarrow> (int \<times> int) go" where
  "store_Get key previousWindow currentWindow w =
     (Ok (limit_val (w_limits w) (mapKey key previousWindow), limit_val (w_limits w) (mapKey key currentWindow)), w)"

text \<open>One turn of the flush loop of \<open>NewMapLimitStore\<close>, over the entries in map order.\<close>

fun flush_entries :: "int \<Rightarrow> limits \<Rightarrow> limits go" where
  "flush_entries ex [] = go_ret []"
| "flush_entries ex ((k, v, t) # r) =
     go_bind time_now (\<lambda>now.
     go_bind (flush_entries ex r) (\<lambda>r'.
     go_ret (if t_before t (t_add (t_utc now) (- ex)) then r' else (k, v, t) # r')))"

definition store_flush :: "int \<Rightarrow> unit go" where
  "store_flush ex w = (case flush_entries ex (w_limits w) w of
     (Ok r, w') \<Rightarrow> (Ok (), w'\<lparr>w_limits := r\<rparr>) | (Fail e, w') \<Rightarrow> (Fail e, w') | (Panic, w') \<Rightarrow> (Panic, w'))"

section \<open>The limiter\<close>

record LimitStatus =
  IsLimited :: bool
  LimitDuration :: int

definition limiter_Inc :: "int \<times> int \<Rightarrow> bytes \<Rightarrow> unit go" where
  "limiter_Inc lm key =
     go_bind time_now (\<lambda>now. store_Inc key (t_truncate (t_utc now) (snd lm)))"

text \<open>
  The estimated rate; \<open>None\<close> is the not-a-number or infinity a window of zero
  gives, which compares false with every limit.
\<close>

definition calc_rate :: "int \<Rightarrow> int \<Rightarrow> int \<Rightarrow> int \<Rightarrow> rat option" where
  "calc_rate windowSize timeFromCurrWindow prevValue currentValue =
     (if windowSize = 0 then None
      else Some (f64 (f64 (f64 (f64 (f_int windowSize - f_int timeFromCurrWindow) / f_int windowSize)
                  * f_int prevValue) + f_int currentValue)))"

definition calcLimitDuration :: "int \<Rightarrow> int \<Rightarrow> int \<Rightarrow> int \<Rightarrow> int \<Rightarrow> int" where
  "calcLimitDuration requestsLimit windowSize prevValue currValue timeFromCurrWindow =
     (if prevValue = 0 then
        (if currValue \<noteq> 0 then
           (let point = f64 (f_int windowSize * f64 (1 - f64 (f_int requestsLimit / f_int currValue)))
            in wrap64 (wrap64 (windowSize - timeFromCurrWindow) + wrap64 (f_trunc point + 1)))
         else -1)
      else
        (let point = f64 (f_int windowSize * f64 (1 - f64 (f_int (wrap64 (requestsLimit - currValue)) / f_int prevValue)))
         in wrap64 (f_trunc (f64 (point + 1)) - timeFromCurrWindow)))"

definition limiter_Check :: "int \<times> int \<Rightarrow> bytes \<Rightarrow> LimitStatus go" where
  "limiter_Check lm key =
     (case lm of (requestsLimit, windowSize) \<Rightarrow>
        go_bind time_now (\<lambda>now1.
        let currentWindow = t_truncate (t_utc now1) windowSize;
            previousWindow = t_add currentWindow (- windowSize) in
        go_bind (store_Get key previousWindow currentWindow) (\<lambda>(prevValue, currentValue).
        go_bind time_now (\<lambda>now2.
        let timeFromCurrWindow = t_sub (t_utc now2) currentWindow in
        go_ret (case calc_rate windowSize timeFromCurrWindow prevValue currentValue of
           None \<Rightarrow> \<lparr>IsLimited = False, LimitDuration = 0\<rparr>
         | Some rate \<Rightarrow>
             (if f_int requestsLimit \<le> rate
              then \<lparr>IsLimited = True, LimitDuration =
                     calcLimitDuration requestsLimit windowSize prevValue currentValue timeFromCurrWindow\<rparr>
              else \<lparr>IsLimited = False, LimitDuration = 0\<rparr>))))))"

text \<open>\<open>Duration.Seconds()\<close>.\<close>

definition dur_seconds :: "int \<Rightarrow> rat" where
  "dur_seconds d =
     (let sec = (if 0 \<le> d then d div nsec_per_sec else - ((- d) div nsec_per_sec));
          ns = d - sec * nsec_per_sec
      in f64 (f_int sec + f64 (f_int ns / f_int nsec_per_sec)))"

end
