(* ===== verification/Report.thy ===== *)
theory Report imports ViewThread Ratelimit Email begin

text \<open>
  \<open>report.go\<close> and the report half of \<open>email.go\<close>: a logged-in user reports a post
  once, and the administrators are sent a mail, at most one per user and minute
  when the limiter is on.
\<close>

definition report_tx :: "env \<Rightarrow> bytes \<Rightarrow> Post go" where
  "report_tx E i =
     go_bind (tx_must [] DBALLPOSTS) (\<lambda>allPosts.
     go_bind (tx_bucket allPosts i) (\<lambda>thisPost.
     go_bind (or_fail thisPost ErrNotFound) (\<lambda>thisPost.
     go_bind (tx_get thisPost ''reports'') (\<lambda>reports.
     go_bind (guard_err (\<not> bytes_equal reports ''0'') AlreadyReported) (\<lambda>_.
     go_bind (ignore_err (tx_put thisPost ''reports'' ''1'')) (\<lambda>_.
     go_bind (tx_get thisPost ''text'') (\<lambda>x.
     go_bind (tx_get thisPost ''user'') (\<lambda>a.
     go_bind (tx_get thisPost ''time'') (\<lambda>tm.
     go_bind (unmarshal_time E tm) (\<lambda>t.
     go_ret (no_post\<lparr>p_ID := i, p_Text := str_of x, p_Author := str_of a, p_Time := t\<rparr>)))))))))))"

text \<open>The mail: \<open>emailReportTemp\<close> with its fields filled in.\<close>

definition report_text :: "env \<Rightarrow> Post \<Rightarrow> bytes \<Rightarrow> bytes \<Rightarrow> bytes \<Rightarrow> bytes \<Rightarrow> bytes" where
  "report_text E post username reason ip hostname =
     ''A user has reported the following post'' @ nl
     @ ''ID: '' @ p_ID post @ nl
     @ ''Reporting User: '' @ username @ nl
     @ ''Author: '' @ p_Author post @ nl
     @ ''Post Date: '' @ e_time_string E (p_Time post) @ nl
     @ ''Reason: '' @ reason @ nl
     @ ''From: '' @ ip @ '' ['' @ hostname @ '']'' @ nl
     @ ''-------------------------'' @ nl
     @ p_Text post @ nl
     @ ''-------------------------'' @ nl"

definition report_mail :: "env \<Rightarrow> Post \<Rightarrow> bytes \<Rightarrow> bytes \<Rightarrow> conn \<Rightarrow> err option go" where
  "report_mail E post username reason c =
     (case split_host_port (cn_remote c) of
        Inl e \<Rightarrow> go_ret (Some e)
      | Inr ip \<Rightarrow>
          (case e_lookup_addr E ip of
             Inl e \<Rightarrow> go_ret (Some e)
           | Inr hostname \<Rightarrow>
               sendEmail E \<lparr>em_From = smtp_From (c_Smtp (e_cfg E)), em_To = admin_Email (c_Admin (e_cfg E)),
                 em_Subject = c_ForumName (e_cfg E) @ '' report - '' @ p_ID post @ '' '',
                 em_Text = report_text E post username reason ip (join '' - '' hostname)\<rparr>))"

definition SendEmailOnReport :: "env \<Rightarrow> Post \<Rightarrow> bytes \<Rightarrow> bytes \<Rightarrow> conn option \<Rightarrow> err option go" where
  "SendEmailOnReport E post username reason c =
     (if \<not> smtp_Enabled (c_Smtp (e_cfg E)) then go_ret (Some (ErrNew ''SMTP is not enabled on this instance.''))
      else go_bind (case e_report_limiter E of
               None \<Rightarrow> go_ret False
             | Some l \<Rightarrow>
                 go_bind (limiter_Check l username) (\<lambda>stat.
                 if IsLimited stat then go_ret True
                 else go_bind (limiter_Inc l username) (\<lambda>_. go_ret False))) (\<lambda>limited.
           if limited then go_ret (Some ReportRateLimited)
           else go_bind (deref c) (\<lambda>c. report_mail E post username reason c)))"

definition ReportHandler :: "env \<Rightarrow> url \<Rightarrow> conn option \<Rightarrow> response go" where
  "ReportHandler E u c =
     (case GetFingerprint c of
        None \<Rightarrow> go_ret CertRequired
      | Some fp \<Rightarrow>
          go_bind (GetUsernameFromFP E fp) (\<lambda>s.
          if s_username s = [] then go_ret UnauthorizedCert
          else
            (let pathspl = path_parts (u_path u)
             in if length pathspl \<noteq> 2 then go_ret (Response BadRequest ''Bad Request'')
                else if u_query u = [] then go_ret (Response Input ''Reason for report'')
                else (case query_unescape (u_query u) of
                        Inl e \<Rightarrow> go_ret (ErrorResponse TemporaryFailure e)
                      | Inr reason \<Rightarrow>
                          go_bind (db_update (report_tx E (pathspl ! 1))) (\<lambda>r.
                          case r of
                            Inl e \<Rightarrow> go_ret (if e = AlreadyReported
                                            then Response BadRequest ''Post has already been reported. Thank you.''
                                            else ErrorResponse BadRequest e)
                          | Inr post \<Rightarrow>
                              go_bind (SendEmailOnReport E post (s_username s) reason c) (\<lambda>r.
                              case r of
                                Some e \<Rightarrow> go_ret (if e = ReportRateLimited then Response SlowDown ''60''
                                               else ErrorResponse TemporaryFailure e)
                              | None \<Rightarrow> go_ret (ResponseFormat Success ''text/gemini''
                                          [''Thank you for your report.'', LinkPrefix @ ''/ Go to home.''])))))))"

end
