(* ===== verification/Search.thy ===== *)
theory Search imports ViewThread begin

text \<open>
  \<open>search.go\<close>: the threads and replies of a user, newest first, and the posts the
  keyword index returns.  The look-ups that the code makes on a \<open>nil\<close> bucket are
  panics here.
\<close>

record SearchResultThread =
  sr_Title :: bytes
  sr_Author :: bytes
  sr_ID :: bytes
  sr_FirstPost :: bytes

text \<open>One thread of the user.\<close>

definition search_thread :: "handle \<Rightarrow> handle \<Rightarrow> bytes \<Rightarrow> SearchResultThread go" where
  "search_thread allThreads allPostsBucket v =
     go_bind (tx_bucket allThreads v) (\<lambda>threadBucket.
     go_bind (or_fail threadBucket (ErrNew ''thread not found'')) (\<lambda>threadBucket.
     go_bind (tx_get threadBucket ''title'') (\<lambda>title.
     go_bind (tx_get threadBucket ''user'') (\<lambda>author.
     go_bind (tx_must threadBucket ''posts'') (\<lambda>postsInThisThread.
     go_bind (tx_get postsInThisThread (itob 1)) (\<lambda>idOfFirstPost.
     go_bind (tx_bucket allPostsBucket (str_of idOfFirstPost)) (\<lambda>firstPost.
     go_bind (case firstPost of None \<Rightarrow> go_ret None | Some p \<Rightarrow> tx_get p ''text'') (\<lambda>x.
     go_ret \<lparr>sr_Title = str_of title, sr_Author = str_of author, sr_ID = v, sr_FirstPost = str_of x\<rparr>))))))))"

text \<open>
  One post of the user; \<open>None\<close> when it is gone or opens its thread.  A thread that
  is gone is logged and then read.
\<close>

definition search_post :: "handle \<Rightarrow> handle \<Rightarrow> bytes \<Rightarrow> Post option go" where
  "search_post allThreads allPostsBucket v =
     go_bind (tx_bucket allPostsBucket v) (\<lambda>postBucket.
     case postBucket of
       None \<Rightarrow> go_ret None
     | Some postBucket \<Rightarrow>
         go_bind (tx_get postBucket ''index'') (\<lambda>idx.
         if bytes_equal idx ''0000000000000001'' then go_ret None
         else
           go_bind (tx_get postBucket ''thread'') (\<lambda>th.
           go_bind (tx_get postBucket ''text'') (\<lambda>x.
           go_bind (tx_must allThreads (copy16 (str_of th))) (\<lambda>thisThread.
           go_bind (tx_get thisThread ''title'') (\<lambda>title.
           go_bind (tx_get thisThread ''user'') (\<lambda>author.
           go_ret (Some (no_post\<lparr>p_ID := copy16 v, p_ThreadID := copy16 (str_of th), p_Text := str_of x,
             p_ThreadTitle := str_of title, p_ThreadAuthor := str_of author\<rparr>))))))))) "

definition search_user_view :: "bytes \<Rightarrow> (SearchResultThread list \<times> Post list) go" where
  "search_user_view username =
     go_bind (tx_must [] DBUSERS) (\<lambda>users.
     go_bind (tx_bucket users username) (\<lambda>user.
     go_bind (guard_err (user = None) SearchUsernameNotFound) (\<lambda>_.
     go_bind (tx_must [] DBALLPOSTS) (\<lambda>allPostsBucket.
     go_bind (tx_must [] DBALLTHREADS) (\<lambda>allThreads.
     go_bind (tx_must [] DBUSERTHREADS) (\<lambda>userThreads.
     go_bind (tx_bucket userThreads username) (\<lambda>threadsByUser.
     go_bind (case threadsByUser of
                None \<Rightarrow> go_ret []
              | Some h \<Rightarrow> go_bind (tx_cursor h) (\<lambda>kvs.
                  map_go (search_thread allThreads allPostsBucket) (cursor_values (rev kvs)))) (\<lambda>threads.
     go_bind (tx_must [] DBUSERPOSTS) (\<lambda>userPosts.
     go_bind (tx_bucket userPosts username) (\<lambda>postsByUser.
     go_bind (case postsByUser of
                None \<Rightarrow> go_ret []
              | Some h \<Rightarrow> go_bind (tx_cursor h) (\<lambda>kvs.
                  map_go (search_post allThreads allPostsBucket) (cursor_values (rev kvs)))) (\<lambda>posts.
     go_ret (threads, somes posts))))))))))))"

definition SearchUser :: "bytes \<Rightarrow> (err + SearchResultThread list \<times> Post list) go" where
  "SearchUser username = db_view (search_user_view username)"

text \<open>One post the index found; \<open>None\<close> when it or its thread is gone.\<close>

definition keyword_result :: "handle \<Rightarrow> handle \<Rightarrow> bytes \<Rightarrow> Post option go" where
  "keyword_result posts threads i =
     go_bind (tx_bucket posts i) (\<lambda>post.
     case post of
       None \<Rightarrow> go_ret None
     | Some post \<Rightarrow>
         go_bind (tx_get post ''user'') (\<lambda>a.
         go_bind (tx_get post ''text'') (\<lambda>x.
         go_bind (tx_get post ''thread'') (\<lambda>th.
         go_bind (tx_bucket threads (copy16 (str_of th))) (\<lambda>thread.
         case thread of
           None \<Rightarrow> go_ret None
         | Some thread \<Rightarrow>
             go_bind (tx_get thread ''title'') (\<lambda>title.
             go_bind (tx_get thread ''user'') (\<lambda>author.
             go_ret (Some (no_post\<lparr>p_Author := str_of a, p_Text := str_of x, p_ID := copy16 i,
               p_ThreadID := copy16 (str_of th), p_ThreadTitle := str_of title, p_ThreadAuthor := str_of author\<rparr>)))))))))"

definition keyword_view :: "bytes list \<Rightarrow> Post list go" where
  "keyword_view foundIDs =
     go_bind (tx_bucket [] DBALLPOSTS) (\<lambda>posts.
     go_bind (tx_bucket [] DBALLTHREADS) (\<lambda>threads.
     go_bind (map_go (\<lambda>i. go_bind (deref posts) (\<lambda>ps. go_bind (deref threads) (\<lambda>ts. keyword_result ps ts i))) foundIDs) (\<lambda>r.
     go_ret (somes r))))"

section \<open>The page\<close>

definition thread_result_lines :: "SearchResultThread \<Rightarrow> lines" where
  "thread_result_lines t =
     line_link_desc (''/thread/'' @ sr_ID t @ ''/'') (''<'' @ sr_Author t @ ''> '' @ sr_Title t)
     @ [''ID: '' @ sr_ID t] @ line_quote (sr_FirstPost t)"

definition post_result_lines :: "Post \<Rightarrow> lines" where
  "post_result_lines p =
     line_link_desc (''/thread/'' @ p_ThreadID p @ ''/'') (''<'' @ p_ThreadAuthor p @ ''> '' @ p_ThreadTitle p)
     @ [''ID: '' @ p_ID p @ '' thread: '' @ p_ThreadID p] @ line_quote (p_Text p)"

definition SearchHandler :: "env \<Rightarrow> url \<Rightarrow> conn option \<Rightarrow> response go" where
  "SearchHandler E u c =
     (if u_query u = [] then go_ret (Response Input ''keyword or @username search'')
      else (case query_unescape (u_query u) of
              Inl e \<Rightarrow> go_ret (ErrorResponse BadRequest e)
            | Inr searchTerm \<Rightarrow>
                (if 2 \<le> length searchTerm \<and> hd searchTerm = CHR ''@'' then
                   go_bind (SearchUser (tl searchTerm)) (\<lambda>r.
                   case r of
                     Inl e \<Rightarrow> go_ret (ErrorResponse BadRequest e)
                   | Inr (threads, posts) \<Rightarrow>
                       go_ret (ResponseFormat Success ''text/gemini''
                         ([HeaderPrefix @ ''Search by user '' @ tl searchTerm, []]
                          @ line_header 2 ''Created threads'' @ concat (map thread_result_lines threads)
                          @ line_header 2 ''Replies'' @ concat (map post_result_lines posts))))
                 else (case DoKeywordSearch E searchTerm of
                         Inl e \<Rightarrow> go_ret (ErrorResponse TemporaryFailure e)
                       | Inr foundIDs \<Rightarrow>
                           go_bind (db_view (keyword_view foundIDs)) (\<lambda>r.
                           case r of
                             Inl e \<Rightarrow> go_ret (ErrorResponse TemporaryFailure e)
                           | Inr results \<Rightarrow>
                               go_ret (ResponseFormat Success ''text/gemini''
                                 (line_header 1 (''Results for keywords '' @ searchTerm)
                                  @ concat (map post_result_lines results))))))))"

end
