(* ===== verification/Root.thy ===== *)
theory Root imports SubforumIndex begin

text \<open>
  \<open>root.go\<close> and \<open>pages.go\<close>: the home page and the pages of the configuration.
\<close>

definition sourceCode :: bytes where
  "sourceCode = ''https://github.com/ObieSource/larigot''"

definition no_session :: session where
  "no_session = \<lparr>s_username = [], s_priv = User, s_muted = False, s_status = no_status\<rparr>"

definition root_lines :: "env \<Rightarrow> session \<Rightarrow> lines" where
  "root_lines E s =
     (let cfg = e_cfg E in
      line_header 1 (c_ForumName cfg)
      @ concat (map (\<lambda>(name, _). line_link_desc (path_escape name) name) (c_Page cfg))
      @ [[]]
      @ (if s_username s \<noteq> [] then
           [''Currently logged in as '' @ DisplayUsername (s_username s) (s_priv s) @ ''.'']
           @ (if s_muted s then [''Note: you are currently '' @ MutedStatus_String (s_status s) @ ''.''] else [])
           @ [LinkPrefix @ ''/logout/ Log out'']
         else [''Currently not logged in.'', LinkPrefix @ ''/login/ Log in''])
      @ line_link_desc '' /register'' ''Register an account''
      @ line_link_desc '' /search/'' ''Search''
      @ [[]]
      @ (if Is (s_priv s) Mod then line_link_desc ''/console/'' ''Operator Console'' else [])
      @ concat (map (\<lambda>f. line_header 2 (f_Name f)
          @ concat (map (\<lambda>sf. line_link_desc (''/f/'' @ sf_ID sf @ ''/'') (sf_Name sf)) (f_Subforum f))) (c_Forum cfg))
      @ (if c_OnionAddress cfg \<noteq> [] then [[]] @ line_link_desc (c_OnionAddress cfg) ''Also available on tor'' else [])
      @ [[]]
      @ line_header 1 ''Source code''
      @ [''larigot is open-source software. You may download the source code from the following link.'']
      @ line_link sourceCode)"

definition RootHandler :: "env \<Rightarrow> conn option \<Rightarrow> response go" where
  "RootHandler E c =
     go_bind (case GetFingerprint c of None \<Rightarrow> go_ret no_session | Some fp \<Rightarrow> GetUsernameFromFP E fp) (\<lambda>s.
     go_ret (ResponseFormat Success ''text/gemini'' (root_lines E s)))"

definition PageHandler :: "env \<Rightarrow> url \<Rightarrow> conn option \<Rightarrow> response go" where
  "PageHandler E u c =
     (let parts = path_parts (u_path u)
      in if length parts \<noteq> 2 then go_ret (Response BadRequest ''Bad request'')
         else (case path_unescape (parts ! 1) of
                 Inl e \<Rightarrow> go_ret (ErrorResponse BadRequest e)
               | Inr name \<Rightarrow>
                   (case map_of (c_Page (e_cfg E)) name of
                      None \<Rightarrow> go_ret NotFound
                    | Some path \<Rightarrow>
                        (case e_read_file E path of
                           Inl e \<Rightarrow> go_ret (ErrorResponse TemporaryFailure e)
                         | Inr fileBytes \<Rightarrow> go_ret (ResponsePlain fileBytes)))))"

end
