(* ===== verification/Reading.thy ===== *)
theory Reading imports Moderation Report Search Root begin

text \<open>
  The handlers that only read.  They are shown to keep any invariant of the
  database, in the locale \<open>go_invariant\<close>, and so both the schema and (with the
  instance \<open>still\<close>) the very database they are given.
\<close>

context clocked begin

lemma ticks_map_go [intro]: "(\<And>x. ticks (f x)) \<Longrightarrow> ticks (map_go f xs)"
  by (induction xs) auto

lemma ticks_reading [intro, simp]:
  "ticks (unmarshal_time E v)" "ticks (read_thread E h i)" "ticks (subforum_view E s)"
  "ticks (time_since t)" "ticks (TimeFormatForThread t)" "ticks (TimeFormatForPost t)" "ticks (thread_line th)"
  "ticks (post_lines E x)"
proof -
  show u: "ticks (unmarshal_time E v)" for v by (auto simp: unmarshal_time_def)
  show r: "ticks (read_thread E h i)" for h i
    unfolding read_thread_def by (intro ticks_bind ticks_cases u; simp)
  show "ticks (subforum_view E s)"
    unfolding subforum_view_def by (intro ticks_bind ticks_map_go r; simp)
  show d: "ticks (time_since t)" for t unfolding time_since_def by (intro ticks_bind; simp)
  show l: "ticks (TimeFormatForThread t)" for t
    unfolding TimeFormatForThread_def by (intro ticks_bind ticks_cases d; simp)
  show p: "ticks (TimeFormatForPost t)" for t
    unfolding TimeFormatForPost_def by (intro ticks_bind ticks_cases d; simp)
  show "ticks (thread_line th)" unfolding thread_line_def by (intro ticks_bind l; simp)
  show "ticks (post_lines E x)" unfolding post_lines_def by (intro ticks_bind ticks_cases p; simp)
qed

lemma ticks_views [intro, simp]:
  "ticks (read_post E h p)" "ticks (thread_view E i)" "ticks (search_thread a b v)" "ticks (search_post a b v)"
  "ticks (search_user_view u)" "ticks (keyword_result a b v)" "ticks (keyword_view ids)"
proof -
  show p: "ticks (read_post E h p)" for h p
    unfolding read_post_def by (intro ticks_bind ticks_cases; simp)
  show "ticks (thread_view E i)"
    unfolding thread_view_def by (intro ticks_bind ticks_cases ticks_map_go p; simp)
  show t: "ticks (search_thread a b v)" for a b v
    unfolding search_thread_def by (intro ticks_bind ticks_cases; simp)
  show q: "ticks (search_post a b v)" for a b v
    unfolding search_post_def by (intro ticks_bind ticks_cases; simp)
  show "ticks (search_user_view u)"
    unfolding search_user_view_def by (intro ticks_bind ticks_cases ticks_map_go t q; simp)
  show k: "ticks (keyword_result a b v)" for a b v
    unfolding keyword_result_def by (intro ticks_bind ticks_cases; simp)
  show "ticks (keyword_view ids)"
    unfolding keyword_view_def by (intro ticks_bind ticks_cases ticks_map_go k; simp)
qed

end

context go_invariant begin

lemma keeps_map_go [intro]: "(\<And>x. keeps (f x)) \<Longrightarrow> keeps (map_go f xs)"
  by (induction xs) auto

lemma keeps_lines [intro, simp]: "keeps (thread_line th)" "keeps (post_lines E x)"
proof -
  have s: "keeps (time_since t)" for t unfolding time_since_def by (intro keeps_bind; simp)
  have "keeps (TimeFormatForThread t)" "keeps (TimeFormatForPost t)" for t
    unfolding TimeFormatForThread_def TimeFormatForPost_def by (intro keeps_bind keeps_cases s; simp)+
  then show "keeps (thread_line th)" "keeps (post_lines E x)"
    unfolding thread_line_def post_lines_def by (intro keeps_bind keeps_cases; simp)+
qed

lemma keeps_RootHandler [intro, simp]: "keeps (RootHandler E c)"
  unfolding RootHandler_def by (intro keeps_bind keeps_cases; simp)

lemma keeps_PageHandler [intro, simp]: "keeps (PageHandler E u c)"
  unfolding PageHandler_def Let_def by (intro keeps_cases; simp)

lemma keeps_SubforumIndexHandler [intro]:
  assumes "keeps home"
  shows "keeps (SubforumIndexHandler E home u c)"
  unfolding SubforumIndexHandler_def GetThreadsForSubforum_def Let_def
  by (intro keeps_cases keeps_bind keeps_view keeps_map_go assms; simp)

lemma keeps_ThreadViewHandler [intro, simp]: "keeps (ThreadViewHandler E u c)"
  unfolding ThreadViewHandler_def viewer_priv_def Let_def
  by (intro keeps_bind keeps_cases keeps_view keeps_map_go; simp)

lemma keeps_SearchHandler [intro, simp]: "keeps (SearchHandler E u c)"
  unfolding SearchHandler_def SearchUser_def by (intro keeps_cases keeps_bind keeps_view; simp)

end

text \<open>The database itself, as an invariant: the readers leave it exactly as it is.\<close>

interpretation still: go_invariant "\<lambda>_. True" "\<lambda>b. b = b0" for b0
  by unfold_locales

end
