(* ===== verification/Handler.thy ===== *)
theory Handler imports Reading begin

text \<open>
  \<open>handler.go\<close>: the rate limit and the dispatch on the path.
\<close>

definition NotReady :: response where
  "NotReady = ResponseFormat ServerUnavailable ''Not ready'' []"

definition InternalError :: response where
  "InternalError = ResponseFormat TemporaryFailure ''Internal error'' []"

text \<open>The seconds of a \<open>SlowDown\<close> response: \<open>int(wait)+1\<close>.\<close>

definition slow_down :: "LimitStatus \<Rightarrow> response" where
  "slow_down st = ResponseFormat SlowDown (fmt_int (f_trunc (dur_seconds (LimitDuration st)) + 1)) []"

definition dispatch :: "env \<Rightarrow> url \<Rightarrow> conn \<Rightarrow> response go" where
  "dispatch E u c =
     (let path = u_path u; k = Some c in
      if path = ''/'' then RootHandler E k
      else if has_prefix path ''/register/'' then RegisterUserHandler E u k
      else if has_prefix path ''/login/'' then LoginUserHandler E u k
      else if has_prefix path ''/logout/'' then LogoutUserHandler E u k
      else if has_prefix path ''/console/'' then ConsoleHandler E u k
      else if has_prefix path ''/verify/'' then VerifyUserHandler E u k
      else if has_prefix path ''/report/'' then ReportHandler E u k
      else if has_prefix path ''/f/'' then SubforumIndexHandler E (RootHandler E k) u k
      else if has_prefix path ''/thread/'' then ThreadViewHandler E u k
      else if has_prefix path ''/new/thread/'' then CreateThreadHandler E u k
      else if has_prefix path ''/new/post/'' then NewPostHandler E u k
      else if has_prefix path ''/search/'' then SearchHandler E u k
      else if has_prefix path ''/page/'' then PageHandler E u k
      else go_ret (ResponseFormat Success ''text/gemini'' [path]))"

definition handler :: "env \<Rightarrow> url \<Rightarrow> conn \<Rightarrow> response go" where
  "handler E u c =
     (case split_host_port (cn_remote c) of
        Inl e \<Rightarrow> go_ret InternalError
      | Inr ip \<Rightarrow>
          (case e_limiter E of
             None \<Rightarrow> dispatch E u c
           | Some l \<Rightarrow>
               go_bind (limiter_Check l ip) (\<lambda>stat.
               if IsLimited stat then go_ret (slow_down stat)
               else go_bind (limiter_Inc l ip) (\<lambda>_. dispatch E u c))))"

end
