(* ===== verification/Requests.thy ===== *)
theory Requests imports Handler begin

text \<open>
  Every request keeps the schema of the database, whatever it asks for; only new
  posts and threads take sequence numbers, at most one per counter.
\<close>

context go_invariant begin

lemma keeps_limiter [intro, simp]: "keeps (limiter_Check l k)" "keeps (limiter_Inc l k)"
proof -
  have "keeps (store_Get k a b)" for a b by (simp add: keeps_def store_Get_def)
  then show "keeps (limiter_Check l k)"
    unfolding limiter_Check_def Let_def by (intro keeps_bind keeps_cases; simp)
  have "keeps (\<lambda>w. (Ok (), w\<lparr>w_limits := f w\<rparr>))" for f by (simp add: keeps_def)
  then have "keeps (store_Inc k t)" for t
    unfolding store_Inc_def by (intro keeps_bind; simp)
  then show "keeps (limiter_Inc l k)"
    unfolding limiter_Inc_def by (intro keeps_bind; simp)
qed

lemma keeps_sendEmail [intro, simp]: "keeps (sendEmail E em)"
  by (simp add: keeps_def sendEmail_def smtp_deliver_def go_ret_def Let_def)

lemma keeps_SendEmailOnReport [intro, simp]: "keeps (SendEmailOnReport E post u reason c)"
  unfolding SendEmailOnReport_def report_mail_def deref_def by (intro keeps_cases keeps_bind; simp)

end

lemma ticks_report [intro, simp]: "inv.ticks (report_tx E i)"
  unfolding report_tx_def by (intro inv.ticks_bind inv.ticks_wrap; simp)

text \<open>Only the first report of a post commits.\<close>

lemma report_tx_ok:
  assumes s: "schema E (w_db w)" and r: "report_tx E' i w = (Ok p, w')"
  shows "w' = w\<lparr>w_db := bput [DBALLPOSTS, i] ''reports'' ''1'' (w_db w)\<rparr>"
    "dbis (w_db w) [DBALLPOSTS, i]" "dbval (w_db w) [DBALLPOSTS, i] ''reports'' = Some ''0''"
proof -
  note top = schema_top[OF s]
  have i: "dbis (w_db w) [DBALLPOSTS, i]"
    using r top by (cases "dbis (w_db w) [DBALLPOSTS, i]") (auto simp: report_tx_def go_simps)
  then have "post_ok (w_db w) i" using schemaD(5)[OF s] by (simp add: posts_ok_def)
  then have f: "flag_ok (dbval (w_db w) [DBALLPOSTS, i] ''reports'')" by (simp add: post_ok_def)
  have z: "dbval (w_db w) [DBALLPOSTS, i] ''reports'' = Some ''0''"
    using r top i f by (auto simp: report_tx_def go_simps flag_ok_def)
  show "w' = w\<lparr>w_db := bput [DBALLPOSTS, i] ''reports'' ''1'' (w_db w)\<rparr>"
    using r top i z by (auto simp: report_tx_def unmarshal_time_def go_simps MaxKeySize_def MaxValueSize_def split: option.splits)
  show "dbis (w_db w) [DBALLPOSTS, i]" "dbval (w_db w) [DBALLPOSTS, i] ''reports'' = Some ''0''" by fact+
qed


lemma keeps_report_tx [intro, simp]: "inv.keeps E n b0 (db_update (report_tx E' i))"
proof (rule keeps_tx[OF ticks_report])
  fix w a w' assume s: "schema E (w_db w)" and r: "report_tx E' i w = (Ok a, w')"
  show "schema E (w_db w') \<and> (\<forall>p. dbseq (w_db w') p = dbseq (w_db w) p) \<and> extends (w_db w) (w_db w')"
    using report_tx_ok[OF s r] put_post_reports[OF s] schema_top(2)[OF s] by (simp add: flag_ok_def)
qed

lemma keeps_ReportHandler [intro, simp]: "inv.keeps E n b0 (ReportHandler E u c)"
  unfolding ReportHandler_def Let_def by (intro inv.keeps_cases inv.keeps_bind; simp)

section \<open>Every request keeps the schema\<close>

lemma leads_keep: "inv.keeps E n b0 m \<Longrightarrow> inv.leads E n b0 (kept E (Suc n) b0) m"
  by (rule inv.leads_keeps[OF _ kept_mono])

lemma leads_dispatch:
  assumes "n \<le> 2 ^ 64 - 1" "request_ok u" "hash_ok E"
  shows "inv.leads E n b0 (kept E (Suc n) b0) (dispatch E u c)"
  unfolding dispatch_def Let_def
  by (intro inv.leads_cases leads_NewPostHandler[OF assms(1,2)] leads_CreateThreadHandler[OF assms(1,2)] leads_keep
      keeps_RegisterUserHandler[OF assms(2,3)] keeps_LoginUserHandler keeps_LogoutUserHandler keeps_VerifyUserHandler
      inv.keeps_SubforumIndexHandler keeps_ReportHandler keeps_ConsoleHandler inv.keeps_SearchHandler
      inv.keeps_ThreadViewHandler inv.keeps_RootHandler inv.keeps_PageHandler inv.keeps_ret)

lemma leads_handler:
  assumes "n \<le> 2 ^ 64 - 1" "request_ok u" "hash_ok E"
  shows "inv.leads E n b0 (kept E (Suc n) b0) (handler E u c)"
  unfolding handler_def
  by (intro inv.leads_cases inv.leads_bind[OF _ _ kept_mono] inv.keeps_limiter leads_dispatch[OF assms] leads_ret)
end
