(* ===== verification/Views.thy ===== *)
theory Views imports Requests begin

text \<open>
  What the reading transactions return on a database with the schema, as functions
  of the database: none of them fails or panics on a record that is missing.
\<close>

section \<open>Lists of references\<close>

lemma cursor_values_all: "(\<And>k. (k, None) \<notin> set kvs) \<Longrightarrow> cursor_values kvs = map (\<lambda>(k, v). the v) kvs"
  by (induction kvs rule: cursor_values.induct) auto

lemma flat_cursor:
  assumes "b_wf b" "\<And>k. \<not> dbis b (p @ [k])"
  shows "(k, None) \<notin> set (dbcur b p)"
proof
  assume "(k, None) \<in> set (dbcur b p)"
  then have "cur_entry b p k = Some None" using dbcur_mem[OF assms(1)] by blast
  then show False using assms(2)[of k] by (auto simp: cur_entry_def split: option.splits if_splits)
qed

text \<open>The values of a bucket without nested buckets, in key order.\<close>

definition values_at :: "bucket \<Rightarrow> handle \<Rightarrow> bytes list" where
  "values_at b p = cursor_values (dbcur b p)"

lemma values_at_map:
  assumes "b_wf b" "\<And>k. \<not> dbis b (p @ [k])"
  shows "values_at b p = map (\<lambda>(k, v). the v) (dbcur b p)"
    "cursor_values (rev (dbcur b p)) = rev (values_at b p)"
proof -
  note n = flat_cursor[OF assms]
  show v: "values_at b p = map (\<lambda>(k, v). the v) (dbcur b p)"
    unfolding values_at_def by (rule cursor_values_all) (rule n)
  have "cursor_values (rev (dbcur b p)) = map (\<lambda>(k, v). the v) (rev (dbcur b p))"
    by (rule cursor_values_all) (use n in simp)
  then show "cursor_values (rev (dbcur b p)) = rev (values_at b p)" by (simp add: v rev_map)
qed

lemma set_values_at:
  assumes "b_wf b" "\<And>k. \<not> dbis b (p @ [k])"
  shows "v \<in> set (values_at b p) \<longleftrightarrow> (\<exists>k. dbval b p k = Some v)"
proof -
  note n = flat_cursor[OF assms]
  have "v \<in> set (values_at b p) \<longleftrightarrow> (\<exists>k w. (k, w) \<in> set (dbcur b p) \<and> v = the w)"
    unfolding values_at_map(1)[OF assms] by force
  also have "\<dots> \<longleftrightarrow> (\<exists>k. (k, Some v) \<in> set (dbcur b p))"
    using n by (metis option.collapse option.sel)
  also have "\<dots> \<longleftrightarrow> (\<exists>k. dbval b p k = Some v)" using dbcur_val[OF assms(1)] by simp
  finally show ?thesis .
qed

lemma map_go_eq: "(\<And>x. x \<in> set xs \<Longrightarrow> f x w = (Ok (g x), w)) \<Longrightarrow> map_go f xs w = (Ok (map g xs), w)"
  by (induction xs) (simp_all add: go_simps)

lemma stored_time: "time_ok v \<Longrightarrow> unmarshal_time E v w = (Ok (the (parse_time (str_of v))), w)"
  by (auto simp: time_ok_def unmarshal_time_def go_simps)

section \<open>Subforums\<close>

definition thread_info :: "bucket \<Rightarrow> bytes \<Rightarrow> Thread" where
  "thread_info b t = \<lparr>th_ID = t, th_Title = str_of (dbval b [DBALLTHREADS, t] ''title''),
     th_User = str_of (dbval b [DBALLTHREADS, t] ''user''),
     th_LastModified = the (parse_time (str_of (dbval b [DBALLTHREADS, t] ''lastmodified''))),
     th_Locked = (dbval b [DBALLTHREADS, t] ''locked'' = Some ''1''), th_Archived = False\<rparr>"

lemma read_thread_eq:
  assumes "schema E' (w_db w)" "dbis (w_db w) [DBALLTHREADS, t]"
  shows "read_thread E [DBALLTHREADS] t w = (Ok (thread_info (w_db w) t), w)"
proof -
  have "thread_ok (w_db w) t" using schemaD(4)[OF assms(1)] assms(2) by (simp add: threads_ok_def)
  then obtain ti u l where t: "dbval (w_db w) [DBALLTHREADS, t] ''title'' = Some ti" "dbval (w_db w) [DBALLTHREADS, t] ''user'' = Some u"
    "dbval (w_db w) [DBALLTHREADS, t] ''locked'' = Some l" "dbval (w_db w) [DBALLTHREADS, t] ''archived'' = Some ''0''"
    "time_ok (dbval (w_db w) [DBALLTHREADS, t] ''lastmodified'')"
    by (auto simp: thread_ok_def flag_ok_def)
  then show ?thesis using assms(2) by (simp add: read_thread_def go_simps stored_time thread_info_def)
qed

definition subforum_ids :: "bucket \<Rightarrow> bytes \<Rightarrow> bytes list" where
  "subforum_ids b s = values_at b [DBSUBFORUMS, s]"

lemma subforum_flat: "schema E b \<Longrightarrow> b_wf b \<and> (\<forall>k. \<not> dbis b ([DBSUBFORUMS, s] @ [k]))"
  using schema_top[of E b] by simp

lemma subforum_ids_mem:
  assumes "schema E b"
  shows "t \<in> set (subforum_ids b s) \<longleftrightarrow> (\<exists>k. dbval b [DBSUBFORUMS, s] k = Some t)"
  unfolding subforum_ids_def using set_values_at[of b "[DBSUBFORUMS, s]"] subforum_flat[OF assms] by blast

lemma subforum_ids_thread: "schema E b \<Longrightarrow> t \<in> set (subforum_ids b s) \<Longrightarrow> dbis b [DBALLTHREADS, t]"
  using subforum_ids_mem schemaD(6) by (fastforce simp: refs_ok_def)

lemma subforum_view_eq:
  assumes "schema E' (w_db w)"
  shows "subforum_view E s w =
    (if dbis (w_db w) [DBSUBFORUMS, s] then (Ok (map (thread_info (w_db w)) (subforum_ids (w_db w) s)), w)
     else (Fail (ErrNew ''Subforum not found''), w))"
proof (cases "dbis (w_db w) [DBSUBFORUMS, s]")
  case True
  have "map_go (\<lambda>t. go_bind (deref (Some [DBALLTHREADS])) (\<lambda>h. read_thread E h t)) (subforum_ids (w_db w) s) w =
      (Ok (map (thread_info (w_db w)) (subforum_ids (w_db w) s)), w)"
    by (rule map_go_eq) (simp add: go_simps read_thread_eq[OF assms subforum_ids_thread[OF assms]])
  then show ?thesis
    using True schema_top[OF assms] by (simp add: subforum_view_def go_simps subforum_ids_def values_at_def)
qed (use schema_top[OF assms] in \<open>simp add: subforum_view_def go_simps\<close>)

section \<open>Threads\<close>

definition post_info :: "bucket \<Rightarrow> bytes \<Rightarrow> Post" where
  "post_info b p = no_post\<lparr>p_ID := p, p_Text := str_of (dbval b [DBALLPOSTS, p] ''text''),
     p_Author := str_of (dbval b [DBALLPOSTS, p] ''user''),
     p_Time := the (parse_time (str_of (dbval b [DBALLPOSTS, p] ''time'')))\<rparr>"

definition thread_posts :: "bucket \<Rightarrow> bytes \<Rightarrow> bytes list" where
  "thread_posts b t = values_at b [DBALLTHREADS, t, ''posts'']"

lemma thread_posts_mem:
  assumes "schema E b"
  shows "p \<in> set (thread_posts b t) \<longleftrightarrow> (\<exists>k. dbval b [DBALLTHREADS, t, ''posts''] k = Some p)"
  unfolding thread_posts_def using set_values_at[of b "[DBALLTHREADS, t, ''posts'']"] schema_top[OF assms] by simp

lemma thread_posts_post: "schema E b \<Longrightarrow> p \<in> set (thread_posts b t) \<Longrightarrow> dbis b [DBALLPOSTS, p]"
  using thread_posts_mem schemaD(6) by (fastforce simp: refs_ok_def)

lemma read_post_eq:
  assumes "schema E' (w_db w)" "dbis (w_db w) [DBALLPOSTS, p]"
  shows "read_post E [DBALLPOSTS] p w = (Ok (Some (post_info (w_db w) p)), w)"
proof -
  have "post_ok (w_db w) p" using schemaD(5)[OF assms(1)] assms(2) by (simp add: posts_ok_def)
  then have "time_ok (dbval (w_db w) [DBALLPOSTS, p] ''time'')" by (simp add: post_ok_def)
  then show ?thesis using assms(2) by (simp add: read_post_def go_simps stored_time post_info_def)
qed

lemma somes_map_Some [simp]: "somes (map (\<lambda>x. Some (f x)) xs) = map f xs"
  by (simp add: somes_def filter_map comp_def)

lemma thread_view_eq:
  assumes "schema E' (w_db w)"
  shows "thread_view E t w =
    (if dbis (w_db w) [DBALLTHREADS, t] then
       (Ok \<lparr>pg_title = str_of (dbval (w_db w) [DBALLTHREADS, t] ''title''),
            pg_locked = (dbval (w_db w) [DBALLTHREADS, t] ''locked'' = Some ''1''),
            pg_posts = map (post_info (w_db w)) (thread_posts (w_db w) t)\<rparr>, w)
     else (Fail ThreadNotFound, w))"
proof (cases "dbis (w_db w) [DBALLTHREADS, t]")
  case True
  then have "thread_ok (w_db w) t" using schemaD(4)[OF assms(1)] by (simp add: threads_ok_def)
  then have t: "dbis (w_db w) [DBALLTHREADS, t, ''posts'']" "flag_ok (dbval (w_db w) [DBALLTHREADS, t] ''locked'')"
    by (simp_all add: thread_ok_def)
  have "map_go (\<lambda>p. go_bind (deref (Some [DBALLPOSTS])) (\<lambda>h. read_post E h p)) (thread_posts (w_db w) t) w =
      (Ok (map (\<lambda>p. Some (post_info (w_db w) p)) (thread_posts (w_db w) t)), w)"
    by (rule map_go_eq) (simp add: go_simps read_post_eq[OF assms thread_posts_post[OF assms]])
  then show ?thesis
    using True t schema_top[OF assms]
    by (auto simp: thread_view_def go_simps thread_posts_def values_at_def flag_ok_def)
qed (use schema_top[OF assms] in \<open>simp add: thread_view_def go_simps\<close>)

section \<open>Search\<close>

text \<open>A thread of a user with its first post, and an answer with its thread.\<close>

definition thread_result :: "bucket \<Rightarrow> bytes \<Rightarrow> SearchResultThread" where
  "thread_result b t = \<lparr>sr_Title = str_of (dbval b [DBALLTHREADS, t] ''title''),
     sr_Author = str_of (dbval b [DBALLTHREADS, t] ''user''), sr_ID = t,
     sr_FirstPost = str_of (dbval b [DBALLPOSTS, str_of (dbval b [DBALLTHREADS, t, ''posts''] (itob 1))] ''text'')\<rparr>"

definition post_thread :: "bucket \<Rightarrow> bytes \<Rightarrow> bytes" where
  "post_thread b p = str_of (dbval b [DBALLPOSTS, p] ''thread'')"

definition reply_result :: "bucket \<Rightarrow> bytes \<Rightarrow> Post" where
  "reply_result b p = no_post\<lparr>p_ID := p, p_ThreadID := post_thread b p, p_Text := str_of (dbval b [DBALLPOSTS, p] ''text''),
     p_ThreadTitle := str_of (dbval b [DBALLTHREADS, post_thread b p] ''title''),
     p_ThreadAuthor := str_of (dbval b [DBALLTHREADS, post_thread b p] ''user'')\<rparr>"

definition opens_thread :: "bucket \<Rightarrow> bytes \<Rightarrow> bool" where
  "opens_thread b p \<longleftrightarrow> dbval b [DBALLPOSTS, p] ''index'' = Some (itob 1)"

definition user_threads :: "bucket \<Rightarrow> bytes \<Rightarrow> bytes list" where
  "user_threads b u = values_at b [DBUSERTHREADS, u]"

definition user_posts :: "bucket \<Rightarrow> bytes \<Rightarrow> bytes list" where
  "user_posts b u = values_at b [DBUSERPOSTS, u]"

lemma user_refs:
  assumes "schema E b"
  shows "t \<in> set (user_threads b u) \<longleftrightarrow> (\<exists>k. dbval b [DBUSERTHREADS, u] k = Some t)"
    "p \<in> set (user_posts b u) \<longleftrightarrow> (\<exists>k. dbval b [DBUSERPOSTS, u] k = Some p)"
  unfolding user_threads_def user_posts_def
  using set_values_at[of b "[DBUSERTHREADS, u]"] set_values_at[of b "[DBUSERPOSTS, u]"] schema_top[OF assms] by simp_all

lemma post_fields:
  assumes s: "schema E b" and p: "dbis b [DBALLPOSTS, p]"
  shows "length p = 16" "dbis b [DBALLTHREADS, post_thread b p]" "length (post_thread b p) = 16"
    "dbval b [DBALLPOSTS, p] ''thread'' = Some (post_thread b p)" "dbval b [DBALLPOSTS, p] ''index'' \<noteq> None"
    "\<exists>x. dbval b [DBALLPOSTS, p] ''text'' = Some x" "\<exists>x. dbval b [DBALLPOSTS, p] ''user'' = Some x"
proof -
  have ok: "post_ok b p" using schemaD(5)[OF s] p by (simp add: posts_ok_def)
  then obtain t k where t: "dbval b [DBALLPOSTS, p] ''thread'' = Some t" "dbval b [DBALLPOSTS, p] ''index'' = Some k"
    "dbval b [DBALLTHREADS, t, ''posts''] k = Some p" by (auto simp: post_ok_def)
  have e: "post_thread b p = t" using t(1) by (simp add: post_thread_def)
  have "dbis b [DBALLTHREADS, t, ''posts'']" using t(3) not_dbis_val by fastforce
  then have d: "dbis b [DBALLTHREADS, t]" using dbis_snoc[of b "[DBALLTHREADS, t]"] by simp
  then have "counted b [DBALLTHREADS] t" using schemaD(4)[OF s] by (simp add: threads_ok_def thread_ok_def)
  then show "length (post_thread b p) = 16" by (auto simp: e counted_def)
  show "length p = 16" using ok by (auto simp: post_ok_def counted_def)
  show "dbis b [DBALLTHREADS, post_thread b p]" using d by (simp add: e)
  show "dbval b [DBALLPOSTS, p] ''thread'' = Some (post_thread b p)" "dbval b [DBALLPOSTS, p] ''index'' \<noteq> None"
    using t by (simp_all add: e)
  show "\<exists>x. dbval b [DBALLPOSTS, p] ''text'' = Some x" "\<exists>x. dbval b [DBALLPOSTS, p] ''user'' = Some x"
    using ok by (auto simp: post_ok_def)
qed

lemma itob_1: "itob 1 = ''0000000000000001''"
  by code_simp

lemma search_post_eq:
  assumes s: "schema E (w_db w)" and p: "dbis (w_db w) [DBALLPOSTS, p]"
  shows "search_post [DBALLTHREADS] [DBALLPOSTS] p w =
    (Ok (if opens_thread (w_db w) p then None else Some (reply_result (w_db w) p)), w)"
proof -
  note f = post_fields[OF s p]
  obtain i where i: "dbval (w_db w) [DBALLPOSTS, p] ''index'' = Some i" using f(5) by blast
  show ?thesis
    using p f i by (simp add: search_post_def go_simps opens_thread_def itob_1 reply_result_def)
qed

lemma search_thread_eq:
  assumes s: "schema E (w_db w)" and t: "dbis (w_db w) [DBALLTHREADS, t]"
  shows "search_thread [DBALLTHREADS] [DBALLPOSTS] t w = (Ok (thread_result (w_db w) t), w)"
proof -
  have ok: "thread_ok (w_db w) t" using schemaD(4)[OF s] t by (simp add: threads_ok_def)
  then obtain p where p: "dbval (w_db w) [DBALLTHREADS, t, ''posts''] (itob 1) = Some p" by (auto simp: thread_ok_def)
  then have "dbis (w_db w) [DBALLPOSTS, p]" using schemaD(6)[OF s] by (fastforce simp: refs_ok_def)
  moreover have "dbis (w_db w) [DBALLTHREADS, t, ''posts'']" using ok by (simp add: thread_ok_def)
  ultimately show ?thesis
    using t p by (simp add: search_thread_def go_simps thread_result_def)
qed

text \<open>The answers of a user, in the order they were written.\<close>

definition user_replies :: "bucket \<Rightarrow> bytes \<Rightarrow> bytes list" where
  "user_replies b u = filter (\<lambda>p. \<not> opens_thread b p) (user_posts b u)"

lemma somes_filter: "somes (map (\<lambda>p. if P p then None else Some (f p)) ps) = map f (filter (\<lambda>p. \<not> P p) ps)"
  by (induction ps) (simp_all add: somes_def)

lemma somes_Nil: "somes [] = []"
  by (simp add: somes_def)

lemma search_user_view_eq:
  assumes s: "schema E (w_db w)"
  shows "search_user_view u w =
    (if dbis (w_db w) [DBUSERS, u] then
       (Ok (map (thread_result (w_db w)) (rev (user_threads (w_db w) u)), map (reply_result (w_db w)) (rev (user_replies (w_db w) u))), w)
     else (Fail SearchUsernameNotFound, w))"
proof (cases "dbis (w_db w) [DBUSERS, u]")
  case True
  note top = schema_top[OF s]
  have c: "cursor_values (rev (dbcur (w_db w) [DBUSERTHREADS, u])) = rev (user_threads (w_db w) u)"
    "cursor_values (rev (dbcur (w_db w) [DBUSERPOSTS, u])) = rev (user_posts (w_db w) u)"
    unfolding user_threads_def user_posts_def by (rule values_at_map(2); use top in simp)+
  have 1: "map_go (search_thread [DBALLTHREADS] [DBALLPOSTS]) (rev (user_threads (w_db w) u)) w =
      (Ok (map (thread_result (w_db w)) (rev (user_threads (w_db w) u))), w)"
    by (rule map_go_eq) (rule search_thread_eq[OF s], use user_refs(1)[OF s] schemaD(6)[OF s] in \<open>fastforce simp: refs_ok_def\<close>)
  have 2: "map_go (search_post [DBALLTHREADS] [DBALLPOSTS]) (rev (user_posts (w_db w) u)) w =
      (Ok (map (\<lambda>p. if opens_thread (w_db w) p then None else Some (reply_result (w_db w) p)) (rev (user_posts (w_db w) u))), w)"
    by (rule map_go_eq) (rule search_post_eq[OF s], use user_refs(2)[OF s] schemaD(6)[OF s] in \<open>fastforce simp: refs_ok_def\<close>)
  have z: "user_threads (w_db w) u = []" if "\<not> dbis (w_db w) [DBUSERTHREADS, u]"
    using that by (simp add: user_threads_def values_at_def dbcur_def dbis_def)
  have z2: "user_posts (w_db w) u = []" if "\<not> dbis (w_db w) [DBUSERPOSTS, u]"
    using that by (simp add: user_posts_def values_at_def dbcur_def dbis_def)
  show ?thesis
    using True top c 1 2 z z2
    by (cases "dbis (w_db w) [DBUSERTHREADS, u]"; cases "dbis (w_db w) [DBUSERPOSTS, u]")
       (simp_all add: search_user_view_def go_simps user_replies_def rev_filter somes_filter somes_Nil del: rev_map)
qed (use schema_top[OF s] in \<open>simp add: search_user_view_def go_simps\<close>)

text \<open>The posts of a keyword search that are still there.\<close>

definition found_post :: "bucket \<Rightarrow> bytes \<Rightarrow> Post" where
  "found_post b p = (reply_result b p)\<lparr>p_Author := str_of (dbval b [DBALLPOSTS, p] ''user'')\<rparr>"

lemma keyword_view_eq:
  assumes s: "schema E (w_db w)"
  shows "keyword_view ids w = (Ok (map (found_post (w_db w)) (filter (\<lambda>p. dbis (w_db w) [DBALLPOSTS, p]) ids)), w)"
proof -
  have k: "keyword_result [DBALLPOSTS] [DBALLTHREADS] p w =
      (Ok (if \<not> dbis (w_db w) [DBALLPOSTS, p] then None else Some (found_post (w_db w) p)), w)" for p
  proof (cases "dbis (w_db w) [DBALLPOSTS, p]")
    case True
    then show ?thesis using post_fields[OF s True]
      by (simp add: keyword_result_def go_simps found_post_def reply_result_def)
  qed (simp add: keyword_result_def go_simps)
  have "map_go (\<lambda>i. go_bind (deref (Some [DBALLPOSTS])) (\<lambda>ps. go_bind (deref (Some [DBALLTHREADS])) (\<lambda>ts. keyword_result ps ts i))) ids w =
     (Ok (map (\<lambda>p. if \<not> dbis (w_db w) [DBALLPOSTS, p] then None else Some (found_post (w_db w) p)) ids), w)"
    by (rule map_go_eq) (simp add: go_simps k)
  then show ?thesis
    using schema_top[OF s] by (simp add: keyword_view_def go_simps somes_filter)
qed

end
