(* ===== verification/Safety.thy ===== *)
theory Safety imports Views begin

text \<open>
  Which requests can panic.  \<open>safe m\<close>: from a state with the invariant \<open>m\<close> does
  not panic.  Transactions are safe because each is known to return on a database
  with the schema; the rest is composition.
\<close>

section \<open>Composition\<close>

context go_invariant begin

definition safe :: "'a go \<Rightarrow> bool" where
  "safe m \<longleftrightarrow> (\<forall>w. J (w_db w) \<longrightarrow> K (w_clock w) \<longrightarrow> fst (m w) \<noteq> Panic)"

lemma safeD: "safe m \<Longrightarrow> J (w_db w) \<Longrightarrow> K (w_clock w) \<Longrightarrow> m w = (r, w') \<Longrightarrow> r \<noteq> Panic"
  unfolding safe_def by (metis fst_conv)

lemma safe_ret [intro, simp]: "safe (go_ret a)" "safe (go_fail e)"
  by (simp_all add: safe_def go_simps)

lemma safe_reads [intro, simp]: "safe time_now" "safe rand_uint64" "safe read_salt"
  by (simp_all add: safe_def go_simps)

lemma safe_bind [intro]:
  assumes "safe m" "keeps m" "\<And>a. safe (f a)"
  shows "safe (go_bind m f)"
  unfolding safe_def
proof (intro allI impI)
  fix w :: world assume w: "J (w_db w)" "K (w_clock w)"
  obtain r w' where r: "m w = (r, w')" by fastforce
  have "r \<noteq> Panic" by (rule safeD[OF assms(1) w r])
  moreover have "J (w_db w') \<and> K (w_clock w')" by (rule keepsD[OF assms(2) r w])
  ultimately show "fst (go_bind m f w) \<noteq> Panic"
    using assms(3) r by (cases r) (auto simp: go_bind_def safe_def)
qed

lemma safe_bind_res:
  assumes "safe m" "keeps m" "\<And>a w w'. J (w_db w) \<Longrightarrow> m w = (Ok a, w') \<Longrightarrow> safe (f a)"
  shows "safe (go_bind m f)"
  unfolding safe_def
proof (intro allI impI)
  fix w :: world assume w: "J (w_db w)" "K (w_clock w)"
  obtain r w' where r: "m w = (r, w')" by fastforce
  have "r \<noteq> Panic" by (rule safeD[OF assms(1) w r])
  moreover have "J (w_db w') \<and> K (w_clock w')" by (rule keepsD[OF assms(2) r w])
  ultimately show "fst (go_bind m f w) \<noteq> Panic"
    using assms(3)[OF w(1)] r by (cases r) (auto simp: go_bind_def safe_def)
qed

text \<open>What follows cannot panic at all.\<close>

lemma safe_then:
  assumes "safe m" "\<And>a w. fst (f a w) \<noteq> Panic"
  shows "safe (go_bind m f)"
  unfolding safe_def
proof (intro allI impI)
  fix w :: world assume w: "J (w_db w)" "K (w_clock w)"
  obtain r w' where r: "m w = (r, w')" by fastforce
  have "r \<noteq> Panic" by (rule safeD[OF assms(1) w r])
  then show "fst (go_bind m f w) \<noteq> Panic" using assms(2) r by (cases r) (auto simp: go_bind_def)
qed

lemma safe_cases [intro]:
  "(\<And>a. safe (f a)) \<Longrightarrow> safe m \<Longrightarrow> safe (case x of None \<Rightarrow> m | Some a \<Rightarrow> f a)"
  "(\<And>e. safe (g e)) \<Longrightarrow> (\<And>a. safe (h a)) \<Longrightarrow> safe (case y of Inl e \<Rightarrow> g e | Inr a \<Rightarrow> h a)"
  "(\<And>a b. safe (j a b)) \<Longrightarrow> safe (case z of (a, b) \<Rightarrow> j a b)"
  "safe m \<Longrightarrow> safe n \<Longrightarrow> safe (if c then m else n)"
  "safe (k v) \<Longrightarrow> safe (Let v k)"
  by (simp_all split: option.split sum.split prod.split)

lemma safe_tx [intro]: "safe m \<Longrightarrow> safe (db_update m)" "safe m \<Longrightarrow> safe (db_view m)"
  by (auto simp: safe_def db_update_def db_view_def split: prod.split res.split)

lemma safe_map_go [intro]: "(\<And>x. safe (f x)) \<Longrightarrow> (\<And>x. keeps (f x)) \<Longrightarrow> safe (map_go f xs)"
  by (induction xs) (auto intro!: safe_bind keeps_map_go)

lemma safe_calm: "(\<And>w. fst (m w) \<noteq> Panic) \<Longrightarrow> safe m"
  by (simp add: safe_def)

lemma safe_limiter [intro, simp]: "safe (limiter_Check l k)" "safe (limiter_Inc l k)"
proof -
  have "keeps (store_Get k a b)" "safe (store_Get k a b)" for a b by (simp_all add: keeps_def safe_def store_Get_def)
  then show "safe (limiter_Check l k)"
    unfolding limiter_Check_def Let_def by (intro safe_bind safe_cases; simp)
  have i: "safe (\<lambda>w. (Ok (), w\<lparr>w_limits := f w\<rparr>))" "keeps (\<lambda>w. (Ok (), w\<lparr>w_limits := f w\<rparr>))" for f
    by (simp_all add: safe_def keeps_def)
  then have "safe (store_Inc k t)" for t
    unfolding store_Inc_def by (intro safe_bind; simp)
  then show "safe (limiter_Inc l k)"
    unfolding limiter_Inc_def by (intro safe_bind; simp)
qed

lemma safe_mail [intro, simp]: "safe (sendEmail E em)" "safe (SendEmailOnRegistration E u e v)"
  "safe (SendEmailOnReport E post u reason (Some c))"
proof -
  show s: "safe (sendEmail E em)" for em
    by (rule safe_calm) (use sendEmail_ok[of E em] in \<open>metis fst_conv res.distinct(3)\<close>)
  show "safe (SendEmailOnRegistration E u e v)"
    unfolding SendEmailOnRegistration_def by (intro safe_cases s safe_ret)
  have "safe (deref (Some c))" by (simp add: deref_def)
  then show "safe (SendEmailOnReport E post u reason (Some c))"
    unfolding SendEmailOnReport_def report_mail_def
    by (intro safe_cases safe_bind keeps_cases keeps_bind s; simp add: deref_def)
qed

lemma safe_lines [intro, simp]: "safe (thread_line th)" "safe (post_lines E x)"
proof -
  have k: "keeps (time_since t)" for t unfolding time_since_def by (intro keeps_bind; simp)
  have s: "safe (time_since t)" for t unfolding time_since_def by (intro safe_bind; simp)
  have f: "safe (TimeFormatForThread t)" "safe (TimeFormatForPost t)" for t
    unfolding TimeFormatForThread_def TimeFormatForPost_def by (intro safe_bind safe_cases s k; simp)+
  have kf: "keeps (TimeFormatForThread t)" "keeps (TimeFormatForPost t)" for t
    unfolding TimeFormatForThread_def TimeFormatForPost_def by (intro keeps_bind keeps_cases k; simp)+
  show "safe (thread_line th)" "safe (post_lines E x)"
    unfolding thread_line_def post_lines_def by (intro safe_bind safe_cases f kf; simp)+
qed

end

section \<open>Transactions\<close>

lemma safe_schema:
  assumes "\<And>w. schema E (w_db w) \<Longrightarrow> clock_ok (w_clock w) \<Longrightarrow> fst (m w) \<noteq> Panic"
  shows "inv.safe E n b0 m"
  using assms goodD(1) keptD(1) by (fastforce simp: inv.safe_def)

lemma safe_views [intro, simp]:
  "inv.safe E n b0 (name_taken_view E u)" "inv.safe E n b0 (user_found_view u)" "inv.safe E n b0 (login_view u)"
  "inv.safe E n b0 (nudge_view u)" "inv.safe E n b0 (subforum_of_view t)" "inv.safe E n b0 (read_view a k d)"
  "inv.safe E n b0 (subforum_view E' s)" "inv.safe E n b0 (thread_view E' t)" "inv.safe E n b0 (search_user_view u)"
  "inv.safe E n b0 (keyword_view ids)"
proof -
  show "inv.safe E n b0 (name_taken_view E u)"
    by (rule safe_schema) (use schema_top in \<open>simp add: name_taken_view_def go_simps\<close>)
  show "inv.safe E n b0 (user_found_view u)"
    by (rule safe_schema) (use schema_top in \<open>simp add: user_found_view_def tx_bucket_def go_simps\<close>)
  show "inv.safe E n b0 (login_view u)" by (rule safe_schema) (simp add: login_view_eq)
  show "inv.safe E n b0 (nudge_view u)"
    by (rule safe_schema) (use schema_top in \<open>simp add: nudge_view_def tx_bucket_def go_simps\<close>)
  show "inv.safe E n b0 (subforum_of_view t)"
    by (rule safe_schema) (use schema_top in \<open>simp add: subforum_of_view_def go_simps split: option.split\<close>)
  show "inv.safe E n b0 (read_view a k d)"
    by (rule safe_schema) (use schema_top in \<open>simp add: read_view_def go_simps\<close>)
  show "inv.safe E n b0 (subforum_view E' s)" by (rule safe_schema) (simp add: subforum_view_eq)
  show "inv.safe E n b0 (thread_view E' t)" by (rule safe_schema) (simp add: thread_view_eq)
  show "inv.safe E n b0 (search_user_view u)" by (rule safe_schema) (simp add: search_user_view_eq)
  show "inv.safe E n b0 (keyword_view ids)" by (rule safe_schema) (simp add: keyword_view_eq)
qed

lemma safe_session [intro, simp]: "inv.safe E n b0 (GetUsernameFromFP E fp)"
proof (rule safe_schema)
  fix w :: world assume s: "schema E (w_db w)"
  show "fst (GetUsernameFromFP E fp w) \<noteq> Panic"
    by (rule GetUsernameFromFP_eq[OF schemaD(1)[OF s], of fp]) simp
qed

lemma safe_updates [intro, simp]:
  "inv.safe E n b0 (verify_tx code)" "inv.safe E n b0 (logout_tx fp)" "inv.safe E n b0 (nudge_tx u)"
  "inv.safe E n b0 (mute_tx u period)" "inv.safe E n b0 (unmute_tx u)" "inv.safe E n b0 (log_tx u p c)"
  "inv.safe E n b0 (login_tx fp u)"
proof -
  show "inv.safe E n b0 (verify_tx code)" by (rule safe_schema) (simp add: verify_tx_eq split: option.split)
  show "inv.safe E n b0 (logout_tx fp)" by (rule safe_schema) (simp add: logout_tx_eq)
  show "inv.safe E n b0 (nudge_tx u)"
  proof (rule safe_schema)
    fix w :: world assume "schema E (w_db w)"
    note top = schema_top[OF this]
    then show "fst (nudge_tx u w) \<noteq> Panic"
      by (cases "dbis (w_db w) [DBUSERS, u]") (simp_all add: nudge_tx_def go_simps MaxKeySize_def MaxValueSize_def)
  qed
  show "inv.safe E n b0 (mute_tx u period)"
  proof (rule safe_schema)
    fix w :: world assume s: "schema E (w_db w)" "clock_ok (w_clock w)"
    show "fst (mute_tx u period w) \<noteq> Panic" by (cases rule: mute_tx_eq[OF s, of u period]) simp
  qed
  show "inv.safe E n b0 (unmute_tx u)" by (rule safe_schema) (simp add: unmute_tx_eq)
  show "inv.safe E n b0 (log_tx u p c)"
  proof (rule safe_schema)
    fix w :: world assume s: "schema E (w_db w)"
    let ?k = "RFC3339Nano (w_clock w 0)" and ?v = "u @ ''/'' @ priv_string p @ '':'' @ c"
    let ?w = "w\<lparr>w_clock := \<lambda>n. w_clock w (Suc n)\<rparr>"
    have t: "dbis (w_db ?w) [DBCONSOLELOG]" "\<not> dbis (w_db ?w) ([DBCONSOLELOG] @ [?k])" using schema_top[OF s] by simp_all
    show "fst (log_tx u p c w) \<noteq> Panic"
      using t by (cases rule: tx_put_cases[OF t, of ?v]) (auto simp: log_tx_def go_simps)
  qed
  show "inv.safe E n b0 (login_tx fp u)"
  proof (rule safe_schema)
    fix w :: world assume s: "schema E (w_db w)"
    have t: "dbis (w_db w) [DBFP]" "\<not> dbis (w_db w) ([DBFP] @ [fp])" using schema_top[OF s] by simp_all
    show "fst (login_tx fp u w) \<noteq> Panic"
      using t by (cases rule: tx_put_cases[OF t, of u]) (auto simp: login_tx_def go_simps)
  qed
qed

lemma safe_lock [intro, simp]: "v = ''0'' \<or> v = ''1'' \<Longrightarrow> inv.safe E n b0 (lock_tx t v)"
  by (rule safe_schema) (auto simp: lock_tx_eq MaxValueSize_def split: if_splits)

lemma safe_report [intro, simp]: "inv.safe E n b0 (report_tx E' i)"
proof (rule safe_schema)
  fix w :: world assume s: "schema E (w_db w)"
  note top = schema_top[OF s]
  show "fst (report_tx E' i w) \<noteq> Panic"
  proof (cases "dbis (w_db w) [DBALLPOSTS, i]")
    case True
    then have "post_ok (w_db w) i" using schemaD(5)[OF s] by (simp add: posts_ok_def)
    then have "flag_ok (dbval (w_db w) [DBALLPOSTS, i] ''reports'')" by (simp add: post_ok_def)
    then show ?thesis
      using True top by (auto simp: report_tx_def unmarshal_time_def flag_ok_def go_simps MaxKeySize_def MaxValueSize_def split: option.split)
  qed (use top in \<open>simp add: report_tx_def go_simps\<close>)
qed

lemma safe_register:
  assumes "u \<noteq> []" "length u \<le> UsernameMaxLength" "length email \<le> MaxValueSize" "length phash \<le> MaxValueSize"
  shows "inv.safe E n b0 (register_tx E u email phash (itob r))"
proof (rule safe_schema)
  fix w :: world assume s: "schema E (w_db w)"
  show "fst (register_tx E u email phash (itob r) w) \<noteq> Panic"
    using register_tx_exists[OF s] register_tx_eq[OF s _ assms] by (cases "dbis (w_db w) [DBUSERS, u]") simp_all
qed

lemma safe_counted:
  assumes "n \<le> 2 ^ 64 - 1"
    "\<And>w now. schema E (w_db w) \<Longrightarrow> counters_free (w_db w) \<Longrightarrow> marshal_text (w_clock w 0) = Inr now \<Longrightarrow> length now \<le> 35 \<Longrightarrow>
       fst (m w) \<noteq> Panic"
  shows "inv.safe E n b0 m"
  unfolding inv.safe_def
proof (intro allI impI)
  fix w :: world assume g: "kept E n b0 (w_db w)" and k: "clock_ok (w_clock w)"
  have "clock_time (w_clock w 0)" using k by (simp add: clock_ok_def)
  then obtain now where "marshal_text (w_clock w 0) = Inr now" "length now \<le> 35" by (rule clock_marshal)
  then show "fst (m w) \<noteq> Panic"
    using assms(2) goodD(1)[OF keptD(1)[OF g]] good_free[OF keptD(1)[OF g] assms(1)] by blast
qed

lemma safe_new_post:
  assumes "n \<le> 2 ^ 64 - 1" "u \<noteq> []" "length u \<le> UsernameMaxLength" "length body \<le> MaxValueSize"
  shows "inv.safe E n b0 (new_post_tx u t body priv)"
proof (rule safe_counted[OF assms(1)])
  fix w :: world and now assume w: "schema E (w_db w)" "counters_free (w_db w)"
    "marshal_text (w_clock w 0) = Inr now" "length now \<le> 35"
  show "fst (new_post_tx u t body priv w) \<noteq> Panic"
  proof (cases "dbis (w_db w) [DBALLTHREADS, t]")
    case True
    then show ?thesis
      using new_post_tx_locked[OF w(1) True, of priv] new_post_tx_eq[OF w(1,2) True _ assms(2-4) w(3,4), of priv]
      by (cases "dbval (w_db w) [DBALLTHREADS, t] ''locked'' = Some ''1'' \<and> \<not> Is priv Mod") auto
  qed (simp add: new_post_tx_missing[OF w(1)])
qed

lemma safe_new_thread:
  assumes "n \<le> 2 ^ 64 - 1" "u \<noteq> []" "length u \<le> UsernameMaxLength" "length body \<le> MaxValueSize" "length title \<le> MaxValueSize"
    "length s \<le> MaxValueSize"
  shows "inv.safe E n b0 (new_thread_tx s u title body)"
proof (rule safe_counted[OF assms(1)])
  fix w :: world and now assume w: "schema E (w_db w)" "counters_free (w_db w)"
    "marshal_text (w_clock w 0) = Inr now" "length now \<le> 35"
  show "fst (new_thread_tx s u title body w) \<noteq> Panic"
  proof (cases "dbis (w_db w) [DBSUBFORUMS, s]")
    case True
    then show ?thesis using new_thread_tx_eq[OF w(1,2) True assms(2-6) w(3,4)] by simp
  next
    case False
    show ?thesis by (rule new_thread_tx_missing[OF w(1,2) False assms(2-5) w(3,4)]) simp
  qed
qed

section \<open>Handlers\<close>

lemma safe_nudges [intro, simp]: "inv.safe E n b0 (CheckForPostNudge u)" "inv.safe E n b0 (UpdateForPostNudge u)"
  unfolding CheckForPostNudge_def UpdateForPostNudge_def by (intro inv.safe_tx; simp)+

lemma safe_OnNewPost:
  assumes "n \<le> 2 ^ 64 - 1" "u \<noteq> []" "length u \<le> UsernameMaxLength" "length body \<le> MaxValueSize"
  shows "inv.safe E n b0 (OnNewPost u t body priv)"
  unfolding OnNewPost_def
  by (rule inv.safe_then[OF inv.safe_tx(1)[OF safe_new_post[OF assms]]]) (simp add: go_ret_def split: sum.split)

lemma safe_OnNewThread:
  assumes "n \<le> 2 ^ 64 - 1" "u \<noteq> []" "length u \<le> UsernameMaxLength" "length body \<le> MaxValueSize" "length s \<le> MaxValueSize"
    "length title \<le> MaxValueSize"
  shows "inv.safe E n b0 (OnNewThread E s u title body)"
proof -
  have "length (trim_space title) \<le> MaxValueSize" using assms(6) length_trim_space[of title] by simp
  note t = inv.safe_tx(1)[OF safe_new_thread[OF assms(1-4) this assms(5)]]
  show ?thesis
    unfolding OnNewThread_def Let_def
    by (intro inv.safe_cases inv.safe_ret inv.safe_then[OF t]) (simp add: go_ret_def split: sum.split)
qed

lemma safe_with_nudge:
  assumes "inv.safe E n b0 rest"
  shows "inv.safe E n b0 (with_nudge u url c rest)"
  unfolding with_nudge_def by (intro inv.safe_bind inv.safe_cases assms; simp)

lemma safe_with_session:
  assumes "\<And>s. s_username s \<noteq> [] \<Longrightarrow> length (s_username s) \<le> UsernameMaxLength \<Longrightarrow> inv.safe E n b0 (f s)"
    "\<And>s. s_username s = [] \<Longrightarrow> inv.safe E n b0 (f s)"
  shows "inv.safe E n b0 (go_bind (GetUsernameFromFP E fp) f)"
proof (rule inv.safe_bind_res[OF safe_session inv.keeps_session])
  fix s w w' assume g: "kept E n b0 (w_db w)" and r: "GetUsernameFromFP E fp w = (Ok s, w')"
  show "inv.safe E n b0 (f s)"
  proof (cases "s_username s = []")
    case False
    then show ?thesis
      using assms(1) session_user_ok(1)[OF goodD(1)[OF keptD(1)[OF g]] r] by (simp add: user_ok_def UsernameMaxLength_def)
  qed (use assms(2) in blast)
qed

text \<open>The path of a request for a new post that the code indexes beyond its end.\<close>

definition short_post_path :: "url \<Rightarrow> bool" where
  "short_post_path u \<longleftrightarrow> has_prefix (u_path u) ''/new/post/'' \<and> length (path_parts (u_path u)) \<le> 2"

lemma safe_NewPostHandler:
  assumes "n \<le> 2 ^ 64 - 1" "request_ok u" "2 < length (path_parts (u_path u))"
  shows "inv.safe E n b0 (NewPostHandler E u c)"
proof -
  have p: "\<not> length (path_parts (u_path u)) \<le> 2" using assms(3) by simp
  show ?thesis
    unfolding NewPostHandler_def Let_def if_not_P[OF p]
    by (auto intro!: safe_with_session inv.safe_bind inv.safe_tx inv.keeps_view safe_with_nudge
        safe_OnNewPost[OF assms(1)] query_length[OF assms(2)] split: option.split sum.split)
qed

lemma safe_CreateThreadHandler:
  assumes "n \<le> 2 ^ 64 - 1" "request_ok u"
  shows "inv.safe E n b0 (CreateThreadHandler E u c)"
proof -
  have t: "length title \<le> MaxValueSize" if "path_unescape (path_parts (u_path u) ! 3) = Inr title" "length (path_parts (u_path u)) = 4" for title
    using length_unescape[of False] that part_length[OF assms(2), of 3] by (fastforce simp: path_unescape_def)
  show ?thesis
    unfolding CreateThreadHandler_def Let_def
    by (auto intro!: safe_with_session safe_with_nudge safe_OnNewThread[OF assms(1)]
        simp: query_length[OF assms(2)] part_length[OF assms(2)] t split: option.split sum.split)
qed

lemma safe_reading [intro, simp]:
  "inv.safe E n b0 (RootHandler E c)" "inv.safe E n b0 (PageHandler E u c)"
  "inv.safe E n b0 (SubforumIndexHandler E (RootHandler E c) u c)" "inv.safe E n b0 (ThreadViewHandler E u c)"
  "inv.safe E n b0 (SearchHandler E u c)"
proof -
  show r: "inv.safe E n b0 (RootHandler E c)"
    unfolding RootHandler_def by (intro inv.safe_bind inv.safe_cases inv.keeps_cases; simp)
  show "inv.safe E n b0 (PageHandler E u c)" unfolding PageHandler_def Let_def by (intro inv.safe_cases; simp)
  show "inv.safe E n b0 (SubforumIndexHandler E (RootHandler E c) u c)"
    unfolding SubforumIndexHandler_def GetThreadsForSubforum_def Let_def
    by (intro inv.safe_cases inv.safe_bind inv.keeps_bind inv.keeps_cases inv.safe_tx inv.keeps_view inv.safe_map_go inv.keeps_map_go r; simp)
  show "inv.safe E n b0 (ThreadViewHandler E u c)"
    unfolding ThreadViewHandler_def viewer_priv_def Let_def
    by (intro inv.safe_cases inv.safe_bind inv.keeps_bind inv.keeps_cases inv.safe_tx inv.keeps_view inv.safe_map_go inv.keeps_map_go; simp)
  show "inv.safe E n b0 (SearchHandler E u c)"
    unfolding SearchHandler_def SearchUser_def by (intro inv.safe_cases inv.safe_bind inv.safe_tx inv.keeps_view; simp)
qed

lemma safe_validateUsername [intro, simp]: "inv.safe E n b0 (validateUsername E u)"
  unfolding validateUsername_def Let_def by (intro inv.safe_cases inv.safe_bind inv.safe_tx inv.keeps_view; simp)

lemma safe_OnRegister:
  assumes "u \<noteq> []" "length u \<le> UsernameMaxLength" "length email \<le> MaxValueSize" "hash_ok E"
  shows "inv.safe E n b0 (OnRegister E u email pw)"
proof -
  have h: "length phash \<le> MaxValueSize" if "e_hash E salt pw = Inr phash" for salt phash
    using assms(4) that by (simp add: hash_ok_def MaxValueSize_def)
  show ?thesis
    unfolding OnRegister_def Let_def
    by (auto intro!: inv.safe_bind inv.safe_tx safe_register[OF assms(1-3)] keeps_register[OF assms(1-3)] dest: h split: sum.split)
qed

lemma calm_ret: "fst (go_ret a w) \<noteq> Panic"
  by (simp add: go_ret_def)

lemma safe_RegisterUserHandler:
  assumes "request_ok u" "hash_ok E"
  shows "inv.safe E n b0 (RegisterUserHandler E u c)"
proof -
  let ?parts = "path_parts (u_path u)"
  have *: "inv.safe E n b0 (OnRegister E (trim_space name) (trim_space em) pw)"
    if "validateUsername E name w = (Ok None, w')" "query_unescape (?parts ! 2) = Inr em" "length ?parts = 3" for name em pw w w'
    using safe_OnRegister validateUsername_None[OF that(1)] assms(2) register_email[OF assms(1) that(2,3)] by blast
  show ?thesis
    unfolding RegisterUserHandler_def Let_def
    by (auto intro!: inv.safe_bind_res[OF safe_validateUsername keeps_validateUsername] inv.safe_then * simp: calm_ret
        split: option.splits sum.splits)
qed

lemma safe_accounts [intro, simp]:
  "inv.safe E n b0 (VerifyUserHandler E u c)" "inv.safe E n b0 (LogoutUserHandler E u c)" "inv.safe E n b0 (LoginUserHandler E u c)"
proof -
  show "inv.safe E n b0 (VerifyUserHandler E u c)"
    unfolding VerifyUserHandler_def Let_def
    by (auto intro!: inv.safe_then inv.safe_tx simp: calm_ret split: sum.splits)
  show "inv.safe E n b0 (LogoutUserHandler E u c)"
    unfolding LogoutUserHandler_def by (auto intro!: inv.safe_then inv.safe_tx simp: calm_ret split: sum.splits option.splits)
  show "inv.safe E n b0 (LoginUserHandler E u c)"
    unfolding LoginUserHandler_def Let_def
    by (auto intro!: inv.safe_bind inv.safe_then[OF inv.safe_tx(1)] inv.safe_tx inv.keeps_view simp: calm_ret split: option.splits sum.splits)
qed

lemma safe_ReportHandler [intro, simp]: "inv.safe E n b0 (ReportHandler E u (Some c))"
  unfolding ReportHandler_def Let_def
  by (intro inv.safe_cases inv.safe_bind inv.safe_tx inv.keeps_cases keeps_report_tx; simp)

lemma safe_reply: "inv.safe E n b0 m \<Longrightarrow> inv.safe E n b0 (reply m st d)"
  unfolding reply_def by (rule inv.safe_then) (auto simp: calm_ret split: sum.splits)

lemma safe_switch [intro, simp]: "inv.safe E n b0 (console_switch E fs)"
  unfolding console_switch_def MuteOrUnmuteThread_def Let_def
  by (intro inv.safe_cases inv.safe_ret safe_reply inv.safe_bind inv.safe_tx inv.keeps_view; simp)

lemma safe_log [intro, simp]: "inv.safe E n b0 (LogConsoleCommand u p c)"
  unfolding LogConsoleCommand_def by (rule inv.safe_then[OF inv.safe_tx(1)]) (simp_all add: calm_ret)

lemma safe_ConsoleCommand [intro, simp]: "inv.safe E n b0 (ConsoleCommand E u p c)"
  unfolding inv.safe_def
proof (intro allI impI)
  fix w :: world assume w: "kept E n b0 (w_db w)" "clock_ok (w_clock w)"
  obtain r w1 where 1: "console_switch E (strings_fields c) w = (r, w1)" by fastforce
  obtain q w2 where 2: "LogConsoleCommand u p c w1 = (q, w2)" by fastforce
  have w1: "kept E n b0 (w_db w1)" "clock_ok (w_clock w1)" using inv.keepsD[OF keeps_switch 1 w] by simp_all
  have "r \<noteq> Panic" "q \<noteq> Panic" using inv.safeD[OF safe_switch w 1] inv.safeD[OF safe_log w1 2] by simp_all
  then show "fst (ConsoleCommand E u p c w) \<noteq> Panic"
    using 1 2 by (cases q) (simp_all add: ConsoleCommand_def)
qed

lemma safe_ConsoleHandler [intro, simp]: "inv.safe E n b0 (ConsoleHandler E u c)"
  unfolding ConsoleHandler_def by (intro inv.safe_cases inv.safe_bind; simp)

lemma safe_dispatch:
  assumes "n \<le> 2 ^ 64 - 1" "request_ok u" "hash_ok E" "\<not> short_post_path u"
  shows "inv.safe E n b0 (dispatch E u c)"
proof -
  have "inv.safe E n b0 (NewPostHandler E u (Some c))" if "has_prefix (u_path u) ''/new/post/''"
    using safe_NewPostHandler[OF assms(1,2)] assms(4) that by (simp add: short_post_path_def)
  moreover note safe_CreateThreadHandler[OF assms(1,2)] safe_RegisterUserHandler[OF assms(2,3)]
  ultimately show ?thesis unfolding dispatch_def Let_def by auto
qed

lemma safe_handler:
  assumes "n \<le> 2 ^ 64 - 1" "request_ok u" "hash_ok E" "\<not> short_post_path u"
  shows "inv.safe E n b0 (handler E u c)"
  unfolding handler_def
  by (intro inv.safe_cases inv.safe_bind inv.safe_ret inv.safe_limiter inv.keeps_limiter safe_dispatch[OF assms])

section \<open>Every request is answered\<close>

text \<open>Code outside a transaction has no error to return: errors are values there.\<close>

definition nofail :: "'a go \<Rightarrow> bool" where
  "nofail m \<longleftrightarrow> (\<forall>w e. fst (m w) \<noteq> Fail e)"

lemma nofail_base [intro, simp]: "nofail (go_ret a)" "nofail go_panic" "nofail time_now" "nofail rand_uint64" "nofail read_salt"
  "nofail (db_update m)" "nofail (db_view m)"
  by (auto simp: nofail_def go_simps db_update_def db_view_def split: prod.split res.split)

lemma nofail_bind [intro]: "nofail m \<Longrightarrow> (\<And>a. nofail (f a)) \<Longrightarrow> nofail (go_bind m f)"
  unfolding nofail_def
proof (intro allI)
  fix w e assume a: "\<forall>w e. fst (m w) \<noteq> Fail e" "\<And>a. \<forall>w e. fst (f a w) \<noteq> Fail e"
  obtain r w' where r: "m w = (r, w')" by fastforce
  have "r \<noteq> Fail e" using a(1) r by (metis fst_conv)
  then show "fst (go_bind m f w) \<noteq> Fail e" using a(2) r by (cases r) (auto simp: go_bind_def)
qed

lemma nofail_cases [intro]:
  "(\<And>a. nofail (f a)) \<Longrightarrow> nofail m \<Longrightarrow> nofail (case x of None \<Rightarrow> m | Some a \<Rightarrow> f a)"
  "(\<And>e. nofail (g e)) \<Longrightarrow> (\<And>a. nofail (h a)) \<Longrightarrow> nofail (case y of Inl e \<Rightarrow> g e | Inr a \<Rightarrow> h a)"
  "(\<And>a b. nofail (j a b)) \<Longrightarrow> nofail (case z of (a, b) \<Rightarrow> j a b)"
  "nofail m \<Longrightarrow> nofail n \<Longrightarrow> nofail (if c then m else n)"
  "nofail (k v) \<Longrightarrow> nofail (Let v k)"
  by (simp_all split: option.split sum.split prod.split)

lemma nofail_map_go [intro]: "(\<And>x. nofail (f x)) \<Longrightarrow> nofail (map_go f xs)"
  by (induction xs) auto

lemma nofail_parts [intro, simp]:
  "nofail (limiter_Check l k)" "nofail (limiter_Inc l k)" "nofail (sendEmail E em)" "nofail (deref x)"
  "nofail (GetUsernameFromFP E fp)" "nofail (thread_line th)" "nofail (post_lines E y)" "nofail (validateUsername E u)"
  "nofail (CheckForPostNudge u)" "nofail (UpdateForPostNudge u)" "nofail (LogConsoleCommand u p s)"
proof -
  have s: "nofail (store_Get k a b)" for a b by (simp add: nofail_def store_Get_def)
  show "nofail (limiter_Check l k)" unfolding limiter_Check_def Let_def by (intro nofail_bind nofail_cases s; simp)
  have i: "nofail (\<lambda>w. (Ok (), w\<lparr>w_limits := f w\<rparr>))" for f by (simp add: nofail_def)
  show "nofail (limiter_Inc l k)" unfolding limiter_Inc_def store_Inc_def by (intro nofail_bind i; simp)
  show "nofail (sendEmail E em)" using sendEmail_ok[of E em] by (auto simp: nofail_def) (metis fst_conv res.distinct(1))
  show "nofail (deref x)" by (auto simp: deref_def)
  show "nofail (GetUsernameFromFP E fp)" unfolding GetUsernameFromFP_def by (intro nofail_bind nofail_cases; simp)
  have t: "nofail (time_since t)" for t unfolding time_since_def by (intro nofail_bind; simp)
  show "nofail (thread_line th)" unfolding thread_line_def TimeFormatForThread_def by (intro nofail_bind nofail_cases t; simp)
  show "nofail (post_lines E y)" unfolding post_lines_def TimeFormatForPost_def by (intro nofail_bind nofail_cases t; simp)
  show "nofail (validateUsername E u)" unfolding validateUsername_def Let_def by (intro nofail_bind nofail_cases; simp)
  show "nofail (CheckForPostNudge u)" "nofail (UpdateForPostNudge u)" by (simp_all add: CheckForPostNudge_def UpdateForPostNudge_def)
  show "nofail (LogConsoleCommand u p s)" unfolding LogConsoleCommand_def by (intro nofail_bind; simp)
qed

lemma nofail_ConsoleCommand [intro, simp]: "nofail (ConsoleCommand E u p s)"
proof -
  have sw: "nofail (console_switch E fs)" for fs
    unfolding console_switch_def reply_def MuteOrUnmuteThread_def Let_def by (intro nofail_bind nofail_cases; simp)
  show ?thesis
    unfolding nofail_def
  proof (intro allI)
    fix w e
    obtain r w1 where 1: "console_switch E (strings_fields s) w = (r, w1)" by fastforce
    obtain q w2 where 2: "LogConsoleCommand u p s w1 = (q, w2)" by fastforce
    have "r \<noteq> Fail e" "q \<noteq> Fail e" using sw[of "strings_fields s"] nofail_parts(11)[of u p s] 1 2
      unfolding nofail_def by (metis fst_conv)+
    then show "fst (ConsoleCommand E u p s w) \<noteq> Fail e" using 1 2 by (cases q) (auto simp: ConsoleCommand_def)
  qed
qed

lemma nofail_handler: "nofail (handler E u c)"
proof -
  have n: "nofail rest \<Longrightarrow> nofail (with_nudge x u k rest)" for x k rest
    unfolding with_nudge_def by (intro nofail_bind nofail_cases; simp)
  have "nofail (RootHandler E k)" for k unfolding RootHandler_def by (intro nofail_bind nofail_cases; simp)
  moreover have "nofail (RegisterUserHandler E u k)" for k
    unfolding RegisterUserHandler_def OnRegister_def SendEmailOnRegistration_def Let_def by (intro nofail_bind nofail_cases; simp)
  moreover have "nofail (LoginUserHandler E u k)" "nofail (LogoutUserHandler E u k)" "nofail (VerifyUserHandler E u k)" for k
    unfolding LoginUserHandler_def LogoutUserHandler_def VerifyUserHandler_def Let_def by (intro nofail_bind nofail_cases; simp)+
  moreover have "nofail (ConsoleHandler E u k)" for k
    unfolding ConsoleHandler_def by (intro nofail_bind nofail_cases; simp)
  moreover have "nofail (ReportHandler E u k)" for k
    unfolding ReportHandler_def SendEmailOnReport_def report_mail_def Let_def by (intro nofail_bind nofail_cases; simp)
  moreover have "nofail home \<Longrightarrow> nofail (SubforumIndexHandler E home u k)" for k home
    unfolding SubforumIndexHandler_def GetThreadsForSubforum_def Let_def by (intro nofail_bind nofail_cases nofail_map_go; simp)
  moreover have "nofail (ThreadViewHandler E u k)" for k
    unfolding ThreadViewHandler_def viewer_priv_def Let_def by (intro nofail_bind nofail_cases nofail_map_go; simp)
  moreover have "nofail (NewPostHandler E u k)" "nofail (CreateThreadHandler E u k)" for k
    unfolding NewPostHandler_def CreateThreadHandler_def OnNewPost_def OnNewThread_def Let_def
    by (intro nofail_bind nofail_cases n; simp)+
  moreover have "nofail (SearchHandler E u k)" "nofail (PageHandler E u k)" for k
    unfolding SearchHandler_def SearchUser_def PageHandler_def Let_def by (intro nofail_bind nofail_cases; simp)+
  ultimately have "nofail (dispatch E u c)" unfolding dispatch_def Let_def by auto
  then show ?thesis unfolding handler_def by (intro nofail_bind nofail_cases; simp)
qed

end
