(* ===== verification/Backup.thy ===== *)
theory Backup imports Env begin

text \<open>
  \<open>backup.go\<close>: once a day the database is written out as the snapshot of a read transaction,
  compressed and saved under the configured prefix with the time.  How a bucket becomes
  bytes, the compression, the creation of a file and how much of it can be written are the machine's.  The files are a map from names to contents.
\<close>

record archiver =
  ar_write_to :: "bucket \<Rightarrow> err + bytes"
  ar_xz_open :: "err option"
  ar_xz :: "bytes \<Rightarrow> err + bytes"
  ar_create :: "bytes \<Rightarrow> err option"
  ar_copy :: "bytes \<Rightarrow> bytes \<Rightarrow> nat"

type_synonym files = "bytes \<Rightarrow> bytes option"

text \<open>
  \<open>FileSaver.Save\<close>; \<open>os.Create\<close> empties a file that exists.  \<open>io.Copy\<close> may fail part of the way (a full disk):
  \<open>ar_copy\<close> is the number of bytes it gets written, and its error is dropped.
\<close>

definition FileSaver_Save :: "archiver \<Rightarrow> bytes \<Rightarrow> bytes \<Rightarrow> files \<Rightarrow> files go" where
  "FileSaver_Save A prefix content files =
     go_bind time_now (\<lambda>now.
       (let filename = prefix @ RFC3339 now @ ''.xz''
        in case ar_create A filename of
             Some e \<Rightarrow> go_ret files
           | None \<Rightarrow> go_ret (files(filename \<mapsto> take (ar_copy A filename content) content))))"

definition write_snapshot :: "archiver \<Rightarrow> bytes go" where
  "write_snapshot A w = lift_err (ar_write_to A (w_db w)) w"

definition runBackup :: "archiver \<Rightarrow> config \<Rightarrow> bytes \<Rightarrow> files \<Rightarrow> files go" where
  "runBackup A cfg prefix files =
     (case ar_xz_open A of
        Some e \<Rightarrow> go_ret files
      | None \<Rightarrow>
          go_bind (db_view (write_snapshot A)) (\<lambda>r.
          case r of
            Inl e \<Rightarrow> go_ret files
          | Inr raw \<Rightarrow>
              (case ar_xz A raw of
                 Inl e \<Rightarrow> go_ret files
               | Inr packed \<Rightarrow>
                   if fs_Enabled (backup_File (c_Backup cfg)) then FileSaver_Save A prefix packed files
                   else go_ret files)))"

text \<open>Every outcome of a backup.\<close>

lemma runBackup_eq:
  "runBackup A cfg prefix files w =
     (case ar_write_to A (w_db w) of
        Inr raw \<Rightarrow>
          (case ar_xz A raw of
             Inr packed \<Rightarrow>
               if ar_xz_open A = None \<and> fs_Enabled (backup_File (c_Backup cfg))
               then (let name = prefix @ RFC3339 (w_clock w 0) @ ''.xz''
                     in (Ok (if ar_create A name = None then files(name \<mapsto> take (ar_copy A name packed) packed) else files),
                         w\<lparr>w_clock := \<lambda>n. w_clock w (Suc n)\<rparr>))
               else (Ok files, w)
           | Inl e \<Rightarrow> (Ok files, w))
      | Inl e \<Rightarrow> (Ok files, w))"
  by (auto simp: runBackup_def FileSaver_Save_def write_snapshot_def db_view_def go_simps Let_def split: option.split sum.split)

lemma runBackup_world:
  assumes "runBackup A cfg prefix files w = (r, w')"
  shows "w_db w' = w_db w" "w_clock w' = w_clock w \<or> w_clock w' = (\<lambda>n. w_clock w (Suc n))"
  using assms by (auto simp: runBackup_eq Let_def split: sum.splits if_splits)

end
