(* ===== verification/System.thy ===== *)
theory System imports Safety Backup begin

text \<open>
  The running server.  \<open>Down b\<close> is the process not running, with the database file
  \<open>b\<close>; \<open>Up E w\<close> is it running with the configuration of \<open>E\<close>.  A step is one
  request, one line at the console, one entry taken from the index queue, one turn
  of the limiter's flush loop, one backup, a start or a stop; a panic is a stop, with the
  database as the transactions committed so far left it.  Requests are taken one
  after the other.
\<close>

datatype server = Down bucket | Up env world

definition env_ok :: "env \<Rightarrow> bool" where
  "env_ok E \<longleftrightarrow> hash_ok E \<and> [] \<notin> set (GetAllSubforumIDs (e_cfg E))"

inductive step :: "server \<Rightarrow> server \<Rightarrow> bool" where
  start: "env_ok E \<Longrightarrow> clock_ok (w_clock w) \<Longrightarrow> dbCreateBuckets E w = (Ok (Inr ()), w') \<Longrightarrow> step (Down (w_db w)) (Up E w')"
| serve: "request_ok u \<Longrightarrow> handler E u c w = (Ok r, w') \<Longrightarrow> step (Up E w) (Up E w')"
| crash: "request_ok u \<Longrightarrow> handler E u c w = (Panic, w') \<Longrightarrow> step (Up E w) (Down (w_db w'))"
| typed: "line \<noteq> ''quit'' \<Longrightarrow> OnSTDin E (go_ret ()) line w = (Ok r, w') \<Longrightarrow> step (Up E w) (Up E w')"
| indexed: "keywordDBloop_step w = Some (x, w') \<Longrightarrow> step (Up E w) (Up E w')"
| flushed: "store_flush ex w = (Ok (), w') \<Longrightarrow> step (Up E w) (Up E w')"
| backed_up: "runBackup A (e_cfg E) prefix files w = (r, w') \<Longrightarrow> step (Up E w) (Up E w')"
| stop: "step (Up E w) (Down (w_db w))"

inductive steps :: "nat \<Rightarrow> server \<Rightarrow> server \<Rightarrow> bool" where
  none: "steps 0 s s"
| more: "steps n s s' \<Longrightarrow> step s' s'' \<Longrightarrow> steps (Suc n) s s''"

text \<open>The states reached from an empty database file.\<close>

abbreviation reach :: "nat \<Rightarrow> server \<Rightarrow> bool" where
  "reach n s \<equiv> steps n (Down empty_bucket) s"

inductive_cases step_DownE: "step (Down b) s"
inductive_cases step_UpE: "step (Up E w) s"

text \<open>What holds of a database file while no server has it open.\<close>

definition sound :: "bucket \<Rightarrow> bool" where
  "sound b \<longleftrightarrow> b_wf b \<and> shape_ok b \<and> users_ok b \<and> threads_ok b \<and> posts_ok b \<and> refs_ok b"

lemma sound_schema: "schema E b \<Longrightarrow> sound b"
  using db_ready_wf by (auto simp: schema_def sound_def)

lemma dbis_empty: "dbis empty_bucket p \<longleftrightarrow> p = []"
  by (simp add: dbis_def b_at_empty)

lemma dbval_empty [simp]: "dbval empty_bucket p k = None"
  by (simp add: dbval_def b_at_empty)

lemma sound_empty: "sound empty_bucket" "counters_below 1 empty_bucket"
proof -
  show "sound empty_bucket"
    by (simp add: sound_def shape_ok_def users_ok_def threads_ok_def posts_ok_def refs_ok_def dbis_empty)
  have "dbseq empty_bucket p = 0" for p by (simp add: dbseq_def b_at_empty)
  then show "counters_below 1 empty_bucket" by (simp add: counters_below_def)
qed

text \<open>Starting on a sound file establishes the schema.\<close>

lemma start_schema:
  assumes b: "sound (w_db w)" and ids: "[] \<notin> set (GetAllSubforumIDs (e_cfg E))"
    and r: "dbCreateBuckets E w = (r, w')"
  shows "r = Ok (Inr ())" "schema E (w_db w')" "dbseq (w_db w') p = dbseq (w_db w) p" "w_clock w' = w_clock w"
    "dbval (w_db w') p k = dbval (w_db w) p k" "dbis (w_db w) p \<Longrightarrow> dbis (w_db w') p"
    "a \<noteq> DBSUBFORUMS \<Longrightarrow> dbis (w_db w') (a # x # q) = dbis (w_db w) (a # x # q)"
proof -
  have s: "shape_ok (w_db w)" using b by (simp add: sound_def)
  have "db_openable E (w_db w)"
    using b s ids by (auto simp: db_openable_def sound_def)
  then obtain b' where b': "dbCreateBuckets E w = (Ok (Inr ()), w\<lparr>w_db := b'\<rparr>)" "db_ready E b'"
    "\<And>p k. dbval b' p k = dbval (w_db w) p k" "\<And>p. dbseq b' p = dbseq (w_db w) p"
    "\<And>p. dbis b' p \<longleftrightarrow> dbis (w_db w) p \<or> (\<exists>k \<in> set db_buckets. p = [k])
            \<or> (\<exists>i \<in> set (GetAllSubforumIDs (e_cfg E)). p = [DBSUBFORUMS, i])"
    using dbCreateBuckets_ok by blast
  then show "r = Ok (Inr ())" "dbseq (w_db w') p = dbseq (w_db w) p" "w_clock w' = w_clock w"
    "dbval (w_db w') p k = dbval (w_db w) p k" "dbis (w_db w) p \<Longrightarrow> dbis (w_db w') p"
    "a \<noteq> DBSUBFORUMS \<Longrightarrow> dbis (w_db w') (a # x # q) = dbis (w_db w) (a # x # q)"
    using r by auto
  have sh: "shape_ok b'"
    by (rule shape_step[OF s]) (use b' in auto)
  have d: "dbis b' [a, x] \<longleftrightarrow> dbis (w_db w) [a, x]" if "a \<noteq> DBSUBFORUMS" for a x using b'(5) that by auto
  have d3: "dbis b' [a, x, y] \<longleftrightarrow> dbis (w_db w) [a, x, y]" for a x y using b'(5) by auto
  have "users_ok b'" "threads_ok b'" "posts_ok b'" "refs_ok b'"
    using b by (simp_all add: sound_def users_ok_def user_ok_def threads_ok_def thread_ok_def posts_ok_def
        post_ok_def refs_ok_def counted_def d d3 b'(3,4))
  then show "schema E (w_db w')" using sh b'(1,2) r by (simp add: schema_def)
qed

text \<open>The invariant of the reachable states, after \<open>n\<close> steps.\<close>

fun server_ok :: "nat \<Rightarrow> server \<Rightarrow> bool" where
  "server_ok n (Down b) \<longleftrightarrow> sound b \<and> counters_below n b"
| "server_ok n (Up E w) \<longleftrightarrow> env_ok E \<and> good E n (w_db w) \<and> clock_ok (w_clock w)"

fun db_of :: "server \<Rightarrow> bucket" where
  "db_of (Down b) = b"
| "db_of (Up E w) = w_db w"

lemma kept_refl: "good E n b \<Longrightarrow> kept E n b b"
  by (simp add: kept_def)

lemma leadsD: "(\<And>b0. inv.leads E n b0 (kept E (Suc n) b0) m) \<Longrightarrow> m w = (r, w') \<Longrightarrow> good E n (w_db w) \<Longrightarrow>
   clock_ok (w_clock w) \<Longrightarrow> good E (Suc n) (w_db w') \<and> extends (w_db w) (w_db w') \<and> clock_ok (w_clock w')"
  unfolding inv.leads_def using kept_refl keptD by (metis snd_conv)

lemma keeps_good: "(\<And>b0. inv.keeps E n b0 m) \<Longrightarrow> m w = (r, w') \<Longrightarrow> good E n (w_db w) \<Longrightarrow>
   clock_ok (w_clock w) \<Longrightarrow> good E n (w_db w') \<and> extends (w_db w) (w_db w') \<and> clock_ok (w_clock w')"
  using inv.keepsD kept_refl keptD by metis

lemma keeps_flush: "inv.keeps E n b0 (store_flush ex)"
proof -
  have f: "inv.keeps E n b0 (flush_entries ex l)" for l
    by (induction ex l rule: flush_entries.induct) (auto intro!: inv.keeps_bind)
  show ?thesis
    unfolding inv.keeps_def
  proof (intro allI impI)
    fix w :: world assume w: "kept E n b0 (w_db w)" "clock_ok (w_clock w)"
    obtain r w1 where 1: "flush_entries ex (w_limits w) w = (r, w1)" by fastforce
    have "w_db (snd (store_flush ex w)) = w_db w1 \<and> w_clock (snd (store_flush ex w)) = w_clock w1"
      using 1 by (cases r) (simp_all add: store_flush_def)
    then show "kept E n b0 (w_db (snd (store_flush ex w))) \<and> clock_ok (w_clock (snd (store_flush ex w)))"
      using inv.keepsD[OF f 1 w] by simp
  qed
qed

lemma flush_db: "store_flush ex w = (r, w') \<Longrightarrow> w_db w' = w_db w"
proof -
  have f: "w_db (snd (flush_entries ex l w)) = w_db w" for l w
  proof (induction ex l arbitrary: w rule: flush_entries.induct)
    case (2 ex k v t l)
    obtain x w1 where x: "flush_entries ex l (snd (time_now w)) = (x, w1)" by fastforce
    have "w_db w1 = w_db w" using 2[of "snd (time_now w)"] x by (simp add: time_now_def)
    then show ?case using x by (cases x) (simp_all add: go_bind_def time_now_def go_ret_def)
  qed (simp add: go_ret_def)
  show "store_flush ex w = (r, w') \<Longrightarrow> w_db w' = w_db w"
    using f[of "w_limits w" w] by (auto simp: store_flush_def split: prod.splits res.splits)
qed

lemma step_ok:
  assumes "step s s'" "server_ok n s" "n \<le> 2 ^ 64 - 1"
  shows "server_ok (Suc n) s' \<and> extends (db_of s) (db_of s')"
  using assms
proof (induction rule: step.induct)
  case (start E w w')
  then have i: "[] \<notin> set (GetAllSubforumIDs (e_cfg E))" "sound (w_db w)" by (simp_all add: env_ok_def)
  note st = start_schema[OF i(2,1) start.hyps(3)]
  show ?case
    using start st by (simp add: good_def counters_below_def less_SucI extends_def)
next
  case (serve u E c w r w')
  then show ?case using leadsD[OF leads_handler serve.hyps(2)] by (simp add: env_ok_def)
next
  case (crash u E c w w')
  then show ?case
    using leadsD[OF leads_handler crash.hyps(2)] by (auto simp: env_ok_def good_def intro: sound_schema)
next
  case (typed line E w r w')
  then have "ConsoleCommand E ''*Console*'' Admin line w = (Ok r, w')" by (simp add: OnSTDin_def go_bind_def go_ret_def)
  then show ?case using typed keeps_good[OF keeps_ConsoleCommand, of E "''*Console*''" Admin line w] good_mono by auto
next
  case (indexed w x w' E)
  then have "w_db w' = w_db w" "w_clock w' = w_clock w"
    by (auto simp: keywordDBloop_step_def split: option.splits list.splits)
  then show ?case using indexed good_mono by simp
next
  case (flushed ex w w' E)
  then show ?case using keeps_good[OF keeps_flush flushed.hyps(1), of E n] good_mono by simp
next
  case (backed_up A E prefix files w r w')
  then show ?case using runBackup_world[OF backed_up.hyps] good_mono by (auto simp: clock_ok_def)
next
  case (stop E w)
  then show ?case by (auto simp: good_def counters_below_def less_SucI intro: sound_schema)
qed

lemma steps_ok: "steps m s s' \<Longrightarrow> server_ok (Suc n) s \<Longrightarrow> n + m < 2 ^ 64 - 1 \<Longrightarrow>
   server_ok (Suc (n + m)) s' \<and> extends (db_of s) (db_of s')"
proof (induction rule: steps.induct)
  case (more m s s' s'')
  then have s: "server_ok (Suc (n + m)) s'" "extends (db_of s) (db_of s')" by simp_all
  then show ?case
    using step_ok[OF more.hyps(2) s(1)] more.prems(2) extends_trans[OF s(2)] by simp
qed simp

lemma reach_ok: "reach n s \<Longrightarrow> n < 2 ^ 64 - 1 \<Longrightarrow> server_ok (Suc n) s"
  using steps_ok[of n "Down empty_bucket" s 0] sound_empty by simp

end
