(* ===== verification/Frame.thy ===== *)
theory Frame imports Handler begin

text \<open>
  Which top-level buckets an operation writes.  \<open>confined A m\<close>: \<open>m\<close> leaves every
  top-level bucket outside \<open>A\<close> as it was, on any database.  Handles come from
  \<open>tx.Bucket(NAME)\<close>, so the rules follow a handle through the code that uses it.
\<close>

definition confined :: "bytes set \<Rightarrow> 'a go \<Rightarrow> bool" where
  "confined A m \<longleftrightarrow> (\<forall>w k. k \<notin> A \<longrightarrow> b_bucket (w_db (snd (m w))) k = b_bucket (w_db w) k)"

lemma confinedD: "confined A m \<Longrightarrow> m w = (r, w') \<Longrightarrow> k \<notin> A \<Longrightarrow> b_bucket (w_db w') k = b_bucket (w_db w) k"
  unfolding confined_def by (metis snd_conv)

lemma confined_mono: "confined A m \<Longrightarrow> A \<subseteq> B \<Longrightarrow> confined B m"
  by (auto simp: confined_def)

lemma confined_quiet: "(\<And>w. w_db (snd (m w)) = w_db w) \<Longrightarrow> confined A m"
  by (simp add: confined_def)

lemma confined_ret [intro, simp]: "confined A (go_ret a)" "confined A (go_fail e)" "confined A go_panic"
  "confined A time_now" "confined A rand_uint64" "confined A read_salt" "confined A (deref p)" "confined A (or_fail p e)"
  "confined A (lift_err r)" "confined A (guard_err c e)" "confined A (tx_bucket h k)" "confined A (tx_get h k)"
  "confined A (tx_cursor h)" "confined A (tx_must h k)"
  by (rule confined_quiet, auto simp: go_simps tx_bucket_def split: option.split sum.split)+

lemma confined_bind [intro]: "confined A m \<Longrightarrow> (\<And>a. confined A (f a)) \<Longrightarrow> confined A (go_bind m f)"
  unfolding confined_def
proof (intro allI impI)
  fix w k assume c: "\<forall>w k. k \<notin> A \<longrightarrow> b_bucket (w_db (snd (m w))) k = b_bucket (w_db w) k"
    "\<And>a. \<forall>w k. k \<notin> A \<longrightarrow> b_bucket (w_db (snd (f a w))) k = b_bucket (w_db w) k" and k: "k \<notin> A"
  obtain r w1 where r: "m w = (r, w1)" by fastforce
  then have "b_bucket (w_db w1) k = b_bucket (w_db w) k" using c(1) k by (metis snd_conv)
  then show "b_bucket (w_db (snd (go_bind m f w))) k = b_bucket (w_db w) k"
    using r c(2) k by (cases r) (auto simp: go_bind_def)
qed

lemma confined_cases [intro]:
  "(\<And>a. confined A (f a)) \<Longrightarrow> confined A m \<Longrightarrow> confined A (case x of None \<Rightarrow> m | Some a \<Rightarrow> f a)"
  "(\<And>e. confined A (g e)) \<Longrightarrow> (\<And>a. confined A (h a)) \<Longrightarrow> confined A (case y of Inl e \<Rightarrow> g e | Inr a \<Rightarrow> h a)"
  "(\<And>a b. confined A (j a b)) \<Longrightarrow> confined A (case z of (a, b) \<Rightarrow> j a b)"
  "confined A m \<Longrightarrow> confined A n \<Longrightarrow> confined A (if c then m else n)"
  "confined A (k v) \<Longrightarrow> confined A (Let v k)"
  by (simp_all split: option.split sum.split prod.split)

lemma confined_db [intro]: "confined A m \<Longrightarrow> confined A (db_update m)" "confined A (db_view n)"
proof -
  show "confined A (db_view n)" by (rule confined_quiet) simp
  assume c: "confined A m"
  show "confined A (db_update m)"
    unfolding confined_def
  proof (intro allI impI)
    fix w k assume "k \<notin> A"
    then show "b_bucket (w_db (snd (db_update m w))) k = b_bucket (w_db w) k"
      by (cases rule: db_update_cases[of m w]) (auto dest: confinedD[OF c])
  qed
qed

section \<open>Writes through a handle\<close>

lemma b_bucket_upd: "a \<in> A \<Longrightarrow> k \<notin> A \<Longrightarrow> b_bucket (b_upd (a # h) f b) k = b_bucket b k"
  by (auto split: option.split)

lemma confined_apply: "a \<in> A \<Longrightarrow> confined A (tx_apply (a # h) f)"
  unfolding confined_def tx_apply_def by (auto split: option.split sum.split simp del: b_upd.simps simp: b_bucket_upd)

lemma confined_write [intro]:
  assumes "a \<in> A"
  shows "confined A (tx_put (a # h) k v)" "confined A (tx_delete (a # h) k)" "confined A (tx_create_bucket (a # h) k)"
    "confined A (tx_create_bucket_if_not_exists (a # h) k)" "confined A (tx_next_sequence (a # h))"
    "confined A (put_fields (a # h) kvs)"
proof -
  note p = confined_apply[OF assms]
  show t: "confined A (tx_put (a # h) k v)" for k v by (simp add: tx_put_def p)
  show "confined A (tx_delete (a # h) k)" by (simp add: tx_delete_def p)
  show c: "confined A (tx_create_bucket (a # h) k)" unfolding tx_create_bucket_def by (intro confined_bind p) simp
  show "confined A (tx_create_bucket_if_not_exists (a # h) k)"
    unfolding tx_create_bucket_if_not_exists_def by (intro confined_bind c) simp
  show "confined A (tx_next_sequence (a # h))"
    unfolding confined_def tx_next_sequence_def using assms
    by (auto split: option.split prod.split simp del: b_upd.simps simp: b_bucket_upd)
  show "confined A (put_fields (a # h) kvs)"
    by (induction kvs) (auto simp: put_fields.simps ignore_err_def intro!: confined_bind t)
qed

lemma confined_wrap [intro]:
  "confined A m \<Longrightarrow> confined A (go_try m)" "confined A n \<Longrightarrow> confined A (return_err n)" "confined A n \<Longrightarrow> confined A (ignore_err n)"
  unfolding go_try_def return_err_def ignore_err_def by (intro confined_bind confined_cases; simp)+

text \<open>Following a handle.\<close>

lemma confined_bucket [intro]:
  "confined A (f None) \<Longrightarrow> confined A (f (Some (h @ [k]))) \<Longrightarrow> confined A (go_bind (tx_bucket h k) f)"
  unfolding confined_def go_bind_def tx_bucket_def by simp

lemma confined_must [intro]: "confined A (f (h @ [k])) \<Longrightarrow> confined A (go_bind (tx_must h k) f)"
  unfolding confined_def go_bind_def tx_must_def tx_bucket_def deref_def go_ret_def go_panic_def by simp

lemma confined_or_fail [intro]: "confined A (f h) \<Longrightarrow> confined A (go_bind (or_fail (Some h) e) f)"
  "confined A (go_bind (or_fail None e) f)"
  unfolding confined_def go_bind_def or_fail_def go_ret_def go_fail_def by simp_all

lemma tx_create_handle: "tx_create_bucket h k w = (Ok (Inr x), w') \<Longrightarrow> x = h @ [k]"
  by (auto simp: tx_create_bucket_def go_simps split: prod.splits res.splits option.splits)

lemma confined_create [intro]:
  "confined A (tx_create_bucket h k) \<Longrightarrow> confined A (f (h @ [k])) \<Longrightarrow> confined A (go_bind (go_try (tx_create_bucket h k)) f)"
  "confined A (tx_create_bucket_if_not_exists h k) \<Longrightarrow> confined A (f (h @ [k])) \<Longrightarrow>
     confined A (go_bind (go_try (tx_create_bucket_if_not_exists h k)) f)"
proof -
  have *: "confined A (go_bind (go_try m) f)"
    if "confined A m" "confined A (f (h @ [k]))" "\<And>w x w'. m w = (Ok (Inr x), w') \<Longrightarrow> x = h @ [k]" for m :: "(err + handle) go"
    unfolding confined_def
  proof (intro allI impI)
    fix w q assume q: "q \<notin> A"
    obtain r w1 where r: "m w = (r, w1)" by fastforce
    note s = confinedD[OF that(1) r q]
    show "b_bucket (w_db (snd (go_bind (go_try m) f w))) q = b_bucket (w_db w) q"
    proof (cases r)
      case (Ok x)
      then show ?thesis
        using r s that(2,3) q by (cases x) (auto simp: go_bind_def go_try_def go_ret_def go_fail_def confined_def)
    qed (use r s in \<open>simp_all add: go_bind_def go_try_def\<close>)
  qed
  show "confined A (tx_create_bucket h k) \<Longrightarrow> confined A (f (h @ [k])) \<Longrightarrow> confined A (go_bind (go_try (tx_create_bucket h k)) f)"
    by (rule *) (auto dest: tx_create_handle)
  have "x = h @ [k]" if "tx_create_bucket_if_not_exists h k w = (Ok (Inr x), w')" for w x w'
    using that tx_create_handle
    by (fastforce simp: tx_create_bucket_if_not_exists_def go_bind_def go_ret_def split: prod.splits res.splits if_splits)
  then show "confined A (tx_create_bucket_if_not_exists h k) \<Longrightarrow> confined A (f (h @ [k])) \<Longrightarrow>
     confined A (go_bind (go_try (tx_create_bucket_if_not_exists h k)) f)"
    by (intro *) auto
qed


section \<open>The transactions\<close>

lemmas follow = confined_must confined_bucket confined_or_fail confined_create

lemma go_bind_assoc: "go_bind (go_bind m f) g = go_bind m (\<lambda>x. go_bind (f x) g)"
  by (rule ext) (simp add: go_bind_def split: prod.split res.split)

lemma go_bind_ret: "go_bind (go_ret a) f = f a"
  by (rule ext) (simp add: go_bind_def go_ret_def)

text \<open>The records of threads and posts and the references between them.\<close>

abbreviation content :: "bytes set" where
  "content \<equiv> {DBALLTHREADS, DBALLPOSTS, DBUSERPOSTS, DBUSERTHREADS, DBSUBFORUMS, DBTHREADTOSF}"

lemma confined_send [intro, simp]: "confined A (sendPostToKeywordDB a x y z)"
  by (rule confined_quiet) (simp add: sendPostToKeywordDB_eq)

lemma confined_tx [intro, simp]:
  "confined {DBUSERS, DBVALIDATION} (register_tx E u email phash code)"
  "confined {DBUSERS, DBVALIDATION} (verify_tx code)"
  "confined {DBFP} (login_tx fp u)" "confined {DBFP} (logout_tx fp)"
  "confined {DBUSERS} (nudge_tx u)"
  "confined {DBALLTHREADS} (lock_tx t v)" "confined {DBUSERS} (mute_tx u period)" "confined {DBUSERS} (unmute_tx u)"
  "confined {DBCONSOLELOG} (log_tx u p c)"
  "confined {DBALLPOSTS} (report_tx E i)"
  "confined content (new_post_tx u t body priv)"
  "confined content (new_thread_tx s u title body)"
  unfolding register_tx_def verify_tx_def login_tx_def logout_tx_def nudge_tx_def lock_tx_def mute_tx_def unmute_tx_def
    log_tx_def report_tx_def unmarshal_time_def Let_def new_post_tx_def AddNewPostToDatabase_def
    new_thread_tx_def open_thread_def link_thread_def
  by (simp only: append_Nil append_Cons option.case go_bind_assoc go_bind_ret prod.case | rule follow
      | rule confined_bind confined_cases confined_wrap | (rule confined_write, simp; fail) | (simp; fail))+

section \<open>The handlers\<close>

lemma confined_reads [intro, simp]:
  "confined A (limiter_Check l k)" "confined A (limiter_Inc l k)" "confined A (sendEmail E em)"
  "confined A (GetUsernameFromFP E fp)" "confined A (thread_line th)" "confined A (post_lines E y)"
  "confined A (validateUsername E u)" "confined A (CheckForPostNudge u)"
proof -
  have s: "confined A (store_Get k a b)" for a b by (simp add: confined_def store_Get_def)
  show "confined A (limiter_Check l k)" unfolding limiter_Check_def Let_def by (intro confined_bind confined_cases s; simp)
  have i: "confined A (\<lambda>w. (Ok (), w\<lparr>w_limits := f w\<rparr>))" for f by (simp add: confined_def)
  show "confined A (limiter_Inc l k)" unfolding limiter_Inc_def store_Inc_def by (intro confined_bind i; simp)
  show "confined A (sendEmail E em)" by (rule confined_quiet) simp
  show "confined A (GetUsernameFromFP E fp)" by (rule confined_quiet) simp
  have t: "confined A (time_since t)" for t unfolding time_since_def by (intro confined_bind; simp)
  show "confined A (thread_line th)" unfolding thread_line_def TimeFormatForThread_def by (intro confined_bind confined_cases t; simp)
  show "confined A (post_lines E y)" unfolding post_lines_def TimeFormatForPost_def by (intro confined_bind confined_cases t; simp)
  show "confined A (validateUsername E u)" unfolding validateUsername_def Let_def by (intro confined_bind confined_cases confined_db(2); simp)
  show "confined A (CheckForPostNudge u)" unfolding CheckForPostNudge_def by (rule confined_db(2))
qed

lemma confined_map_go [intro]: "(\<And>x. confined A (f x)) \<Longrightarrow> confined A (map_go f xs)"
  by (induction xs) auto

text \<open>The reading handlers write nothing.\<close>

lemma confined_reading [intro, simp]:
  "confined {} (RootHandler E c)" "confined {} (PageHandler E u c)" "confined {} (SubforumIndexHandler E (RootHandler E c) u c)"
  "confined {} (ThreadViewHandler E u c)" "confined {} (SearchHandler E u c)"
proof -
  show r: "confined {} (RootHandler E c)" unfolding RootHandler_def by (intro confined_bind confined_cases; simp)
  show "confined {} (SubforumIndexHandler E (RootHandler E c) u c)"
    unfolding SubforumIndexHandler_def GetThreadsForSubforum_def Let_def
    by (intro confined_bind confined_cases confined_db(2) confined_map_go r; simp)
  show "confined {} (PageHandler E u c)" "confined {} (ThreadViewHandler E u c)" "confined {} (SearchHandler E u c)"
    unfolding PageHandler_def ThreadViewHandler_def SearchHandler_def SearchUser_def viewer_priv_def Let_def
    by (intro confined_bind confined_cases confined_db(2) confined_map_go; simp)+
qed

lemma confined_console [intro, simp]: "confined {DBUSERS, DBALLTHREADS, DBCONSOLELOG} (ConsoleCommand E u p s)"
proof -
  let ?A = "{DBUSERS, DBALLTHREADS, DBCONSOLELOG}"
  have tx: "confined ?A (lock_tx t v)" "confined ?A (mute_tx u' p')" "confined ?A (unmute_tx u')" "confined ?A (log_tx u' p'' c)"
    for t v u' p' p'' c
    by (rule confined_mono[OF confined_tx(6)], simp) (rule confined_mono[OF confined_tx(7)], simp,
        rule confined_mono[OF confined_tx(8)], simp, rule confined_mono[OF confined_tx(9)], simp)
  have sw: "confined ?A (console_switch E fs)" for fs
    unfolding console_switch_def reply_def MuteOrUnmuteThread_def Let_def
    by (intro confined_bind confined_cases confined_db tx confined_ret)
  have lg: "confined ?A (LogConsoleCommand u p s)"
    unfolding LogConsoleCommand_def by (intro confined_bind confined_db tx confined_ret)
  show ?thesis
    unfolding confined_def
  proof (intro allI impI)
    fix w k assume k: "k \<notin> ?A"
    obtain r w1 where 1: "console_switch E (strings_fields s) w = (r, w1)" by fastforce
    obtain q w2 where 2: "LogConsoleCommand u p s w1 = (q, w2)" by fastforce
    have "snd (ConsoleCommand E u p s w) = w2" using 1 2 by (cases q) (simp_all add: ConsoleCommand_def)
    then show "b_bucket (w_db (snd (ConsoleCommand E u p s w))) k = b_bucket (w_db w) k"
      using confinedD[OF sw 1 k] confinedD[OF lg 2 k] by simp
  qed
qed

lemma confined_accounts [intro, simp]:
  "confined {DBUSERS, DBVALIDATION} (RegisterUserHandler E u c)" "confined {DBUSERS, DBVALIDATION} (VerifyUserHandler E u c)"
  "confined {DBFP} (LoginUserHandler E u c)" "confined {DBFP} (LogoutUserHandler E u c)"
  unfolding RegisterUserHandler_def VerifyUserHandler_def LoginUserHandler_def LogoutUserHandler_def OnRegister_def
    SendEmailOnRegistration_def Let_def
  by (intro confined_bind confined_cases confined_db; simp)+

lemma confined_report [intro, simp]: "confined {DBALLPOSTS} (ReportHandler E u c)"
  unfolding ReportHandler_def SendEmailOnReport_def report_mail_def Let_def
  by (intro confined_bind confined_cases confined_db; simp)

lemma confined_ConsoleHandler [intro, simp]: "confined {DBUSERS, DBALLTHREADS, DBCONSOLELOG} (ConsoleHandler E u c)"
  unfolding ConsoleHandler_def Let_def by (intro confined_bind confined_cases confined_db; simp)

lemma confined_posting [intro, simp]:
  "confined (insert DBUSERS content) (NewPostHandler E u c)" "confined (insert DBUSERS content) (CreateThreadHandler E u c)"
proof -
  have tx: "confined (insert DBUSERS content) (nudge_tx v)" "confined (insert DBUSERS content) (new_post_tx v t body priv)"
    "confined (insert DBUSERS content) (new_thread_tx s v title body)" for v t body priv s title
    by (rule confined_mono[OF confined_tx(5)], simp) (rule confined_mono[OF confined_tx(11)], blast,
      rule confined_mono[OF confined_tx(12)], blast)
  show "confined (insert DBUSERS content) (NewPostHandler E u c)" "confined (insert DBUSERS content) (CreateThreadHandler E u c)"
    unfolding NewPostHandler_def CreateThreadHandler_def OnNewPost_def OnNewThread_def with_nudge_def UpdateForPostNudge_def Let_def
    by (intro confined_bind confined_cases confined_db tx; simp)+
qed

end
