(* ===== verification/Forum.thy ===== *)
theory Forum imports System Frame begin

text \<open>
  The forum as its users see it: for each thread its title, author, subforum, lock
  and the list of its posts, each an author and a text.  \<open>forum\<close> reads it off a
  database; the transactions of \<open>threads.go\<close> and the locks of \<open>console.go\<close> are shown
  to act on it as the obvious updates.
\<close>

record athread =
  at_title :: bytes
  at_author :: bytes
  at_subforum :: bytes
  at_locked :: bool
  at_posts :: "(bytes \<times> bytes) list"

text \<open>Author and text of a post.\<close>

definition post_line :: "bucket \<Rightarrow> bytes \<Rightarrow> bytes \<times> bytes" where
  "post_line b p = (str_of (dbval b [DBALLPOSTS, p] ''user''), str_of (dbval b [DBALLPOSTS, p] ''text''))"

definition forum :: "bucket \<Rightarrow> bytes \<Rightarrow> athread option" where
  "forum b t =
     (if dbis b [DBALLTHREADS, t] then
        Some \<lparr>at_title = str_of (dbval b [DBALLTHREADS, t] ''title''),
              at_author = str_of (dbval b [DBALLTHREADS, t] ''user''),
              at_subforum = str_of (dbval b [DBTHREADTOSF] t),
              at_locked = (dbval b [DBALLTHREADS, t] ''locked'' = Some ''1''),
              at_posts = map (post_line b) (thread_posts b t)\<rparr>
      else None)"

text \<open>The number the next thread gets.\<close>

definition next_thread :: "bucket \<Rightarrow> bytes" where
  "next_thread b = itob (dbseq b [DBALLTHREADS] + 1)"

text \<open>When a thread was last changed, as its record says.\<close>

definition last_changed :: "bucket \<Rightarrow> bytes \<Rightarrow> gtime option" where
  "last_changed b t = (if dbis b [DBALLTHREADS, t] then parse_time (str_of (dbval b [DBALLTHREADS, t] ''lastmodified'')) else None)"

definition forum_post :: "bytes \<Rightarrow> bytes \<Rightarrow> bytes \<Rightarrow> (bytes \<Rightarrow> athread option) \<Rightarrow> bytes \<Rightarrow> athread option" where
  "forum_post u t body f = f(t := map_option (\<lambda>a. a\<lparr>at_posts := at_posts a @ [(u, body)]\<rparr>) (f t))"

definition forum_open :: "bytes \<Rightarrow> bytes \<Rightarrow> bytes \<Rightarrow> bytes \<Rightarrow> bytes \<Rightarrow> (bytes \<Rightarrow> athread option) \<Rightarrow> bytes \<Rightarrow> athread option" where
  "forum_open t s u title body f =
     f(t \<mapsto> \<lparr>at_title = title, at_author = u, at_subforum = s, at_locked = False, at_posts = [(u, body)]\<rparr>)"

definition forum_lock :: "bytes \<Rightarrow> bool \<Rightarrow> (bytes \<Rightarrow> athread option) \<Rightarrow> bytes \<Rightarrow> athread option" where
  "forum_lock t l f = f(t := map_option (\<lambda>a. a\<lparr>at_locked := l\<rparr>) (f t))"

section \<open>Appending to a numbered bucket\<close>

lemma values_append:
  assumes b: "b_wf b" "\<And>k. \<not> dbis b (p @ [k])" and b': "b_wf b'" "\<And>k. \<not> dbis b' (p @ [k])"
    and c: "counters_free b" "\<And>k x. dbval b p k = Some x \<Longrightarrow> counted b p k"
    and v: "\<And>k. dbval b' p k = (if k = itob (dbseq b p + 1) then Some v else dbval b p k)"
  shows "values_at b' p = values_at b p @ [v]"
proof -
  let ?k = "itob (dbseq b p + 1)"
  have "counted b p k" if m: "k \<in> fst ` set (dbcur b p)" for k
  proof -
    obtain x where x: "(k, x) \<in> set (dbcur b p)" using m by (auto elim!: imageE)
    then obtain y where "x = Some y" using flat_cursor[OF b, of k] by (cases x) auto
    then show ?thesis using c(2)[of k y] dbcur_val[OF b(1)] x by blast
  qed
  then have "itob.counted (dbseq b p) (dbcur b p)" by (auto simp: itob.counted_def counted_def)
  then have a: "al_put ?k (Some v) (dbcur b p) = dbcur b p @ [(?k, Some v)]"
    by (rule itob.counted_append) (rule counters_free_next(3)[OF c(1)])
  have "dbcur b' p = al_put ?k (Some v) (dbcur b p)"
  proof (rule al_ordered_ext[OF dbcur_ordered[OF b'(1)] al_ordered_put[OF dbcur_ordered[OF b(1)]]])
    show "map_of (dbcur b' p) = map_of (al_put ?k (Some v) (dbcur b p))"
      using b(2) b'(2) v by (auto simp: fun_eq_iff map_of_dbcur cur_entry_def)
  qed
  then have "dbcur b' p = dbcur b p @ [(?k, Some v)]" using a by simp
  then show ?thesis using values_at_map(1)[OF b] values_at_map(1)[OF b'] by simp
qed

lemma values_same:
  assumes "b_wf b" "b_wf b'" "\<And>k. dbis b' (p @ [k]) = dbis b (p @ [k])" "\<And>k. dbval b' p k = dbval b p k"
  shows "values_at b' p = values_at b p"
proof -
  have "dbcur b p = dbcur b' p" by (rule dbcur_cong[OF assms(1,2)]) (simp add: cur_entry_def assms(3,4))
  then show ?thesis by (simp add: values_at_def)
qed

section \<open>The transactions on the forum\<close>

lemma post_of_thread:
  assumes "schema E b" "p \<in> set (thread_posts b t)"
  shows "dbis b [DBALLPOSTS, p]"
  using thread_posts_post[OF assms] .

lemma new_post_forum:
  assumes s: "schema E b" and c: "counters_free b" and t: "dbis b [DBALLTHREADS, t]" and now: "parse_time now \<noteq> None"
  shows "forum (new_post_db u t body now b) = forum_post u t body (forum b)"
proof
  fix x
  let ?b = "new_post_db u t body now b"
  let ?p = "itob (dbseq b [DBALLPOSTS] + 1)"
  note f = new_post_flat[OF s c t, of u body now]
  have s': "schema E ?b" by (rule new_post_keeps[OF s c t now])
  note top = schema_top[OF s] and top' = schema_top[OF s']
  have fresh: "\<not> dbis b [DBALLPOSTS, ?p]" by (rule schema_fresh(1)[OF s c])
  have ps: "thread_posts ?b x = thread_posts b x @ (if x = t then [?p] else [])"
  proof (cases "x = t")
    case True
    have "values_at ?b [DBALLTHREADS, t, ''posts''] = values_at b [DBALLTHREADS, t, ''posts''] @ [?p]"
      by (rule values_append[OF _ _ _ _ c])
         (use top top' schemaD(6)[OF s] f in \<open>auto simp: refs_ok_def\<close>)
    then show ?thesis using True by (simp add: thread_posts_def)
  next
    case False
    have "values_at ?b [DBALLTHREADS, x, ''posts''] = values_at b [DBALLTHREADS, x, ''posts'']"
      by (rule values_same) (use top top' f False in auto)
    then show ?thesis using False by (simp add: thread_posts_def)
  qed
  have old: "post_line ?b p = post_line b p" if "p \<in> set (thread_posts b x)" for p
    using thread_posts_post[OF s that] fresh by (auto simp: post_line_def f(3))
  have new: "post_line ?b ?p = (u, body)"
    by (simp add: post_line_def f(3) post_record_def)
  have fields: "dbis ?b [DBALLTHREADS, y] = dbis b [DBALLTHREADS, y]" "dbval ?b [DBTHREADTOSF] y = dbval b [DBTHREADTOSF] y"
    "k \<noteq> ''lastmodified'' \<Longrightarrow> dbval ?b [DBALLTHREADS, y] k = dbval b [DBALLTHREADS, y] k" for k y
    by (simp_all add: f(2,3))
  have "map (post_line ?b) (thread_posts ?b x) = map (post_line b) (thread_posts b x) @ (if x = t then [(u, body)] else [])"
    using old new by (simp add: ps)
  then show "forum ?b x = forum_post u t body (forum b) x"
    using t by (cases "x = t") (simp_all add: forum_def forum_post_def fields)
qed

lemma new_thread_forum:
  assumes s: "schema E b" and c: "counters_free b" and sf: "dbis b [DBSUBFORUMS, s]" and now: "parse_time now \<noteq> None"
  shows "forum (new_thread_db s u title body now b) = forum_open (next_thread b) s u title body (forum b)"
proof
  fix x
  let ?b = "new_thread_db s u title body now b"
  let ?p = "itob (dbseq b [DBALLPOSTS] + 1)" and ?t = "next_thread b"
  note f = new_thread_flat(1-4)[OF s c sf, where u = u and title = title and body = body and now = now, folded next_thread_def]
  note f5 = new_thread_flat(5)[OF s c sf, folded next_thread_def]
  have s': "schema E ?b" by (rule new_thread_keeps[OF s c sf now])
  note top = schema_top[OF s] and top' = schema_top[OF s']
  note fresh = schema_fresh[OF s c, folded next_thread_def]
  have fresh': "\<not> dbis b [DBALLTHREADS, ?t, ''posts'']"
    using fresh(2) dbis_snoc[of b "[DBALLTHREADS, ?t]" "''posts''"] by auto
  have ps: "thread_posts ?b x = (if x = ?t then [?p] else thread_posts b x)"
  proof (cases "x = ?t")
    case True
    have "values_at ?b [DBALLTHREADS, ?t, ''posts''] = values_at b [DBALLTHREADS, ?t, ''posts''] @ [?p]"
      by (rule values_append[OF _ _ _ _ c])
         (use top top' f(3) f5 fresh' not_dbis_val[OF fresh'] in auto)
    moreover have "values_at b [DBALLTHREADS, ?t, ''posts''] = []"
      using fresh' by (simp add: values_at_def dbcur_def dbis_def)
    ultimately show ?thesis using True by (simp add: thread_posts_def)
  next
    case False
    have "values_at ?b [DBALLTHREADS, x, ''posts''] = values_at b [DBALLTHREADS, x, ''posts'']"
      by (rule values_same) (use top top' f(2,3) False in auto)
    then show ?thesis using False by (simp add: thread_posts_def)
  qed
  have old: "post_line ?b p = post_line b p" if "p \<in> set (thread_posts b x)" for p
    using thread_posts_post[OF s that] fresh by (auto simp: post_line_def f(3))
  have new: "post_line ?b ?p = (u, body)"
    by (simp add: post_line_def f(3) post_record_def)
  have fields: "x \<noteq> ?t \<Longrightarrow> dbis ?b [DBALLTHREADS, x] = dbis b [DBALLTHREADS, x]"
    "x \<noteq> ?t \<Longrightarrow> dbval ?b [DBTHREADTOSF] x = dbval b [DBTHREADTOSF] x"
    "x \<noteq> ?t \<Longrightarrow> dbval ?b [DBALLTHREADS, x] k = dbval b [DBALLTHREADS, x] k"
    "dbis ?b [DBALLTHREADS, ?t]" "dbval ?b [DBTHREADTOSF] ?t = Some s"
    "dbval ?b [DBALLTHREADS, ?t] k = map_of (thread_record title u now) k" for k
    by (simp_all add: f(2,3))
  have "map (post_line ?b) (thread_posts ?b x) = (if x = ?t then [(u, body)] else map (post_line b) (thread_posts b x))"
    using old new by (simp add: ps)
  then show "forum ?b x = forum_open ?t s u title body (forum b) x"
    by (cases "x = ?t") (simp_all add: forum_def forum_open_def fields thread_record_def)
qed

section \<open>The locks\<close>

lemma lock_forum:
  assumes s: "schema E b" and t: "dbis b [DBALLTHREADS, t]"
  shows "forum (bput [DBALLTHREADS, t] ''locked'' v b) = forum_lock t (v = ''1'') (forum b)"
proof
  fix x
  let ?b = "bput [DBALLTHREADS, t] ''locked'' v b"
  note top = schema_top[OF s]
  have n: "\<not> dbis b ([DBALLTHREADS, t] @ [''locked''])" using schemaD(2)[OF s] by simp
  note f = dbis_bput[OF n, of v] dbval_bput[OF n t, of v] b_wf_bput
  have ps: "thread_posts ?b y = thread_posts b y" for y
    unfolding thread_posts_def by (rule values_same) (use top f in auto)
  have pl: "post_line ?b = post_line b" by (simp add: post_line_def f fun_eq_iff)
  show "forum ?b x = forum_lock t (v = ''1'') (forum b) x"
    using t by (cases "x = t") (simp_all add: forum_def forum_lock_def ps pl f)
qed

lemma forum_None: "forum b t = None \<longleftrightarrow> \<not> dbis b [DBALLTHREADS, t]"
  by (simp add: forum_def)

lemma forum_locked: "dbis b [DBALLTHREADS, t] \<Longrightarrow> at_locked (the (forum b t)) \<longleftrightarrow> dbval b [DBALLTHREADS, t] ''locked'' = Some ''1''"
  by (simp add: forum_def)

section \<open>The posting operations\<close>

lemma OnNewPost_forum:
  assumes "good E n (w_db w)" "n \<le> 2 ^ 64 - 1" "clock_ok (w_clock w)"
    and "u \<noteq> []" "length u \<le> UsernameMaxLength" "length body \<le> MaxValueSize"
  shows "(case forum (w_db w) t of
      None \<Rightarrow> OnNewPost u t body priv w = (Ok (ErrorResponse TemporaryFailure ErrNotFound), w)
    | Some a \<Rightarrow>
        if at_locked a \<and> \<not> Is priv Mod then OnNewPost u t body priv w = (Ok (ErrorResponse TemporaryFailure ErrThreadIsLocked), w)
        else \<exists>w'. OnNewPost u t body priv w = (Ok (Response RedirectTemporary (''/thread/'' @ t @ ''/'')), w')
               \<and> forum (w_db w') = forum_post u t body (forum (w_db w))
               \<and> w_kw w' = map_option (\<lambda>q. q @ [makeKeywordIndex u body (itob (dbseq (w_db w) [DBALLPOSTS] + 1)) t]) (w_kw w))"
proof (cases "forum (w_db w) t")
  case None
  then have "\<not> dbis (w_db w) [DBALLTHREADS, t]" by (simp add: forum_None)
  then show ?thesis
    using None new_post_tx_missing[OF goodD(1)[OF assms(1)], of t u body priv]
    by (simp add: OnNewPost_def go_simps db_update_def)
next
  case (Some a)
  note s = goodD(1)[OF assms(1)] and c = good_free[OF assms(1,2)]
  have t: "dbis (w_db w) [DBALLTHREADS, t]" using Some by (auto simp: forum_def split: if_splits)
  have l: "at_locked a \<longleftrightarrow> dbval (w_db w) [DBALLTHREADS, t] ''locked'' = Some ''1''" using forum_locked[OF t] Some by simp
  show ?thesis
  proof (cases "at_locked a \<and> \<not> Is priv Mod")
    case True
    then show ?thesis
      using Some l new_post_tx_locked[OF s t, of priv] by (simp add: OnNewPost_def go_simps db_update_def)
  next
    case False
    have "clock_time (w_clock w 0)" using assms(3) by (simp add: clock_ok_def)
    then obtain now where now: "marshal_text (w_clock w 0) = Inr now" "length now \<le> 35" "parse_time now = Some (w_clock w 0)"
      by (rule clock_marshal)
    show ?thesis
      using False Some l new_post_tx_eq[OF s c t _ assms(4-6) now(1,2), of priv]
        new_post_forum[OF s c t, of now u body] now(3)
      by (auto simp: OnNewPost_def go_simps db_update_def)
  qed
qed

lemma OnNewThread_forum:
  fixes E w title0
  defines "title \<equiv> trim_space title0" and "f \<equiv> forum (w_db w)"
  assumes "good E n (w_db w)" "n \<le> 2 ^ 64 - 1" "clock_ok (w_clock w)"
    and "u \<noteq> []" "length u \<le> UsernameMaxLength" "length body \<le> MaxValueSize"
    and "s \<in> set (GetAllSubforumIDs (e_cfg E))" "length s \<le> MaxValueSize" "length title0 \<le> MaxValueSize"
  shows "case ValidateThreadTitle E title of
      Some e \<Rightarrow> OnNewThread E s u title0 body w = (Ok (ErrorResponse BadRequest e), w)
    | None \<Rightarrow> \<exists>w'. OnNewThread E s u title0 body w = (Ok (Response RedirectTemporary (''/f/'' @ s @ ''/'')), w')
        \<and> f (next_thread (w_db w)) = None
        \<and> forum (w_db w') = forum_open (next_thread (w_db w)) s u title body f
        \<and> subforum_ids (w_db w') s = subforum_ids (w_db w) s @ [next_thread (w_db w)]"
proof (cases "ValidateThreadTitle E title")
  case None
  note sc = goodD(1)[OF assms(3)] and c = good_free[OF assms(3,4)]
  have sf: "dbis (w_db w) [DBSUBFORUMS, s]" using schemaD(1)[OF sc] assms(9) by (auto simp: db_ready_def)
  have "clock_time (w_clock w 0)" using assms(5) by (simp add: clock_ok_def)
  then obtain now where now: "marshal_text (w_clock w 0) = Inr now" "length now \<le> 35" "parse_time now = Some (w_clock w 0)"
    by (rule clock_marshal)
  have l: "length title \<le> MaxValueSize"
    using length_trim_space[of title0] assms(11) by (simp add: title_def)
  have fr: "f (next_thread (w_db w)) = None"
    using schema_fresh(2)[OF sc c] by (simp add: f_def forum_None next_thread_def)
  have si: "subforum_ids (new_thread_db s u title body now (w_db w)) s = subforum_ids (w_db w) s @ [next_thread (w_db w)]"
    unfolding subforum_ids_def
    by (rule values_append[OF _ _ _ _ c])
       (use schema_top[OF sc] schema_top[OF new_thread_keeps[OF sc c sf]] now(3) new_thread_flat(1-4)[OF sc c sf]
          refsD(4)[OF schemaD(6)[OF sc]] in \<open>auto simp: next_thread_def\<close>)
  show ?thesis
    using None fr si new_thread_tx_eq[OF sc c sf assms(6-8) l assms(10) now(1,2)] new_thread_forum[OF sc c sf, of now u title body] now(3)
    by (simp add: OnNewThread_def go_simps db_update_def title_def Let_def f_def)
qed (simp add: OnNewThread_def title_def Let_def go_simps)

section \<open>What leaves the forum alone\<close>

lemma forum_cong:
  assumes "\<And>a. a \<in> {DBALLTHREADS, DBALLPOSTS, DBTHREADTOSF} \<Longrightarrow> b_bucket b' a = b_bucket b a"
  shows "forum b' = forum b"
proof -
  have at: "b_at b' (a # p) = b_at b (a # p)" if "a \<in> {DBALLTHREADS, DBALLPOSTS, DBTHREADTOSF}" for a p
    using assms[OF that] by simp
  have "dbval b' (a # p) k = dbval b (a # p) k" "dbis b' (a # p) = dbis b (a # p)" "dbcur b' (a # p) = dbcur b (a # p)"
    if "a \<in> {DBALLTHREADS, DBALLPOSTS, DBTHREADTOSF}" for a p k
    using at[OF that, of p] by (simp_all add: dbval_def dbis_def dbcur_def)
  then show ?thesis
    by (simp add: fun_eq_iff forum_def post_line_def thread_posts_def values_at_def)
qed

lemma confined_forum:
  assumes "confined A m" "m w = (r, w')" "A \<inter> {DBALLTHREADS, DBALLPOSTS, DBTHREADTOSF} = {}"
  shows "forum (w_db w') = forum (w_db w)"
  by (rule forum_cong) (use confinedD[OF assms(1,2)] assms(3) in blast)

end
