(* ===== verification/Authority.thy ===== *)
theory Authority imports Forum begin

text \<open>
  Which requests change the forum, and what they check first: new posts, new threads
  and the moderators' locks, and no other.  The rest of the handlers is dealt with by
  the buckets they are confined to.
\<close>

section \<open>Who may write\<close>

text \<open>
  The user of the certificate, logged in and not muted at \<open>now\<close>; and the level the
  user needs in a subforum to open threads (\<open>fst\<close>) or to answer (\<open>snd\<close>).
\<close>

definition writer :: "bucket \<Rightarrow> conn \<Rightarrow> gtime \<Rightarrow> bytes \<Rightarrow> bool" where
  "writer b c now u \<longleftrightarrow> (\<exists>fp. GetFingerprint (Some c) = Some fp \<and> u = session_user b fp \<and> u \<noteq> [] \<and> \<not> session_muted b fp now)"

definition may_in :: "env \<Rightarrow> bytes \<Rightarrow> bytes \<Rightarrow> (UserPriviledge \<times> UserPriviledge \<Rightarrow> UserPriviledge) \<Rightarrow> bool" where
  "may_in E s u pr \<longleftrightarrow> (\<exists>p. GetSubforumPrivFromID (e_cfg E) s = Inr p \<and> Is (config_priv (e_cfg E) u) (pr p))"

lemma session_step:
  assumes "schema E (w_db w)" "clock_ok (w_clock w)" "go_bind (GetUsernameFromFP E fp) f w = (r, w')"
  obtains s k where "f s (w\<lparr>w_clock := k\<rparr>) = (r, w')" "clock_ok k" "s_username s = session_user (w_db w) fp"
    "s_priv s = config_priv (e_cfg E) (session_user (w_db w) fp)" "s_muted s = session_muted (w_db w) fp (w_clock w 0)"
proof -
  obtain st k where g: "GetUsernameFromFP E fp w =
    (Ok \<lparr>s_username = session_user (w_db w) fp, s_priv = config_priv (e_cfg E) (session_user (w_db w) fp),
         s_muted = session_muted (w_db w) fp (w_clock w 0), s_status = st\<rparr>, w\<lparr>w_clock := k\<rparr>)" (is "_ = (Ok ?s, _)")
    by (rule GetUsernameFromFP_eq[OF schemaD(1)[OF assms(1)]])
  have "clock_ok k"
    using inv.ticks_session assms(2) g unfolding inv.ticks_def by (metis snd_conv world.select_convs(5) world.surjective world.update_convs(5))
  then show ?thesis
    using that[of ?s k] assms(3) g by (simp add: go_bind_def)
qed

lemma session_name:
  assumes "schema E b" "session_user b fp \<noteq> []"
  shows "length (session_user b fp) \<le> UsernameMaxLength"
proof -
  have "dbis b [DBUSERS, session_user b fp]"
    using assms(2) by (auto simp: session_user_def split: option.splits if_splits)
  then show ?thesis using schemaD(3)[OF assms(1)] by (simp add: users_ok_def user_ok_def UsernameMaxLength_def)
qed

text \<open>The nudge keeps the forum; without it the handler goes on.\<close>

lemma nudge_step:
  assumes "schema E (w_db w)" "with_nudge v u k rest w = (r, w')"
  shows "forum (w_db w') = forum (w_db w) \<or> rest w = (r, w')"
proof (cases "CheckForPostNudge v w")
  case (Pair q w1)
  then have w1: "w1 = w" using CheckForPostNudge_eq[OF assms(1), of v] by simp
  have n: "confined {DBUSERS} (UpdateForPostNudge v)"
    unfolding UpdateForPostNudge_def by (intro confined_db) simp
  have f: "forum (w_db w'') = forum (w_db w)" if "UpdateForPostNudge v w = (x, w'')" for x w''
    by (rule confined_forum[OF n that]) simp
  show ?thesis
    using assms(2) Pair w1 f
    by (cases q) (auto simp: with_nudge_def go_simps split: sum.splits if_splits res.splits prod.splits)
qed

lemma subforum_of_view_eq:
  assumes "schema E (w_db w)"
  shows "db_view (subforum_of_view t) w =
    (Ok (case dbval (w_db w) [DBTHREADTOSF] t of None \<Rightarrow> Inl (ErrNew ''Thread ID not found'') | Some s \<Rightarrow> Inr s), w)"
  using schema_top[OF assms] by (simp add: subforum_of_view_def db_view_def go_simps split: option.split)

lemma NewPost_changes:
  assumes g: "good E n (w_db w)" "n \<le> 2 ^ 64 - 1" "clock_ok (w_clock w)" "request_ok q"
    and r: "NewPostHandler E q (Some c) w = (r, w')" and f: "forum (w_db w') \<noteq> forum (w_db w)"
  shows "\<exists>u t body a. writer (w_db w) c (w_clock w 0) u \<and> forum (w_db w) t = Some a
     \<and> may_in E (at_subforum a) u snd \<and> (at_locked a \<longrightarrow> Is (config_priv (e_cfg E) u) Mod)
     \<and> forum (w_db w') = forum_post u t body (forum (w_db w))
     \<and> r = Ok (Response RedirectTemporary (''/thread/'' @ t @ ''/''))"
proof -
  note s = goodD(1)[OF g(1)]
  obtain fp where fp: "GetFingerprint (Some c) = Some fp"
    using r f by (cases "GetFingerprint (Some c)") (auto simp: NewPostHandler_def go_ret_def)
  let ?u = "session_user (w_db w) fp" and ?parts = "path_parts (u_path q)"
  let ?t = "?parts ! 2" and ?priv = "config_priv (e_cfg E) (session_user (w_db w) fp)"
  obtain k sf p1 p2 body where k: "clock_ok k" and u: "?u \<noteq> []" "\<not> session_muted (w_db w) fp (w_clock w 0)"
    and sf: "dbval (w_db w) [DBTHREADTOSF] ?t = Some sf"
    and p: "GetSubforumPrivFromID (e_cfg E) sf = Inr (p1, p2)" "Is ?priv p2"
    and b: "query_unescape (u_query q) = Inr body" and o: "OnNewPost ?u ?t body ?priv (w\<lparr>w_clock := k\<rparr>) = (r, w')"
  proof -
    have "NewPostHandler E q (Some c) w = (r, w')" by fact
    from this[unfolded NewPostHandler_def Let_def fp option.case] show ?thesis
    proof (rule session_step[OF s g(3)], goal_cases)
      case (1 x k)
      have se: "schema E (w_db (w\<lparr>w_clock := k\<rparr>))" using s by simp
      from 1(1) f have 2: "?u \<noteq> []" "\<not> session_muted (w_db w) fp (w_clock w 0)"
        by (auto simp: 1(3-5) go_ret_def split: if_splits)
      with 1(1) f obtain sf p1 p2 where 3: "dbval (w_db w) [DBTHREADTOSF] ?t = Some sf" "GetSubforumPrivFromID (e_cfg E) sf = Inr (p1, p2)"
        "Is ?priv p2" "with_nudge ?u q (Some c)
           (if u_query q = [] then go_ret (Response Input ''New post'')
            else case query_unescape (u_query q) of Inl e \<Rightarrow> go_ret (ErrorResponse TemporaryFailure e)
              | Inr text \<Rightarrow> OnNewPost ?u ?t text ?priv) (w\<lparr>w_clock := k\<rparr>) = (r, w')"
        by (auto simp: 1(3-5) go_bind_def subforum_of_view_eq[OF se] go_ret_def go_panic_def
            split: option.splits sum.splits if_splits)
      from nudge_step[OF se 3(4)] f obtain body where "query_unescape (u_query q) = Inr body"
        "OnNewPost ?u ?t body ?priv (w\<lparr>w_clock := k\<rparr>) = (r, w')"
        by (auto simp: go_ret_def split: sum.splits if_splits)
      with that[OF 1(2) 2 3(1-3)] show ?case by blast
    qed
  qed
  have n: "length ?u \<le> UsernameMaxLength" by (rule session_name[OF s u(1)])
  have t: "dbis (w_db w) [DBALLTHREADS, ?t]" using schemaD(6)[OF s] sf by (auto simp: refs_ok_def)
  then obtain a where a: "forum (w_db w) ?t = Some a" "at_subforum a = sf" using sf by (simp add: forum_def)
  have "good E n (w_db (w\<lparr>w_clock := k\<rparr>))" "clock_ok (w_clock (w\<lparr>w_clock := k\<rparr>))" using g(1) k by simp_all
  note O = OnNewPost_forum[OF this(1) g(2) this(2) u(1) n query_length[OF g(4) b], of ?t ?priv, simplified]
  have l: "at_locked a \<longrightarrow> Is ?priv Mod" using O a(1) o f by (auto split: if_splits)
  then show ?thesis
    using O a o fp u p
    by (intro exI[of _ ?u] exI[of _ ?t] exI[of _ body] exI[of _ a]) (auto simp: writer_def may_in_def)
qed


lemma CreateThread_changes:
  assumes g: "good E n (w_db w)" "n \<le> 2 ^ 64 - 1" "clock_ok (w_clock w)" "request_ok q"
    and r: "CreateThreadHandler E q (Some c) w = (r, w')" and f: "forum (w_db w') \<noteq> forum (w_db w)"
  shows "\<exists>u s title body. writer (w_db w) c (w_clock w 0) u \<and> may_in E s u fst
     \<and> ValidateThreadTitle E title = None \<and> forum (w_db w) (next_thread (w_db w)) = None
     \<and> forum (w_db w') = forum_open (next_thread (w_db w)) s u title body (forum (w_db w))
     \<and> r = Ok (Response RedirectTemporary (''/f/'' @ s @ ''/''))"
proof -
  note s = goodD(1)[OF g(1)]
  obtain fp where fp: "GetFingerprint (Some c) = Some fp"
    using r f by (cases "GetFingerprint (Some c)") (auto simp: CreateThreadHandler_def go_ret_def)
  let ?u = "session_user (w_db w) fp" and ?parts = "path_parts (u_path q)"
  let ?s = "?parts ! 2" and ?priv = "config_priv (e_cfg E) (session_user (w_db w) fp)"
  obtain k p1 p2 title body where k: "clock_ok k" and u: "?u \<noteq> []" "\<not> session_muted (w_db w) fp (w_clock w 0)"
    and l: "length ?parts = 4" and p: "GetSubforumPrivFromID (e_cfg E) ?s = Inr (p1, p2)" "Is ?priv p1"
    and b: "path_unescape (?parts ! 3) = Inr title" "query_unescape (u_query q) = Inr body"
    and o: "OnNewThread E ?s ?u title body (w\<lparr>w_clock := k\<rparr>) = (r, w')"
  proof -
    have "CreateThreadHandler E q (Some c) w = (r, w')" by fact
    from this[unfolded CreateThreadHandler_def Let_def fp option.case] show ?thesis
    proof (rule session_step[OF s g(3)], goal_cases)
      case (1 x k)
      have se: "schema E (w_db (w\<lparr>w_clock := k\<rparr>))" using s by simp
      from 1(1) f have 2: "?u \<noteq> []" "\<not> session_muted (w_db w) fp (w_clock w 0)"
        by (auto simp: 1(3-5) go_ret_def split: if_splits)
      then have "with_nudge ?u q (Some c) (if length ?parts < 3 then go_ret (Response BadRequest ''Bad request'')
             else case GetSubforumPrivFromID (e_cfg E) ?s of
                Inl e \<Rightarrow> go_ret (ErrorResponse BadRequest e)
              | Inr (threadPriv, _) \<Rightarrow>
                  (if \<not> Is ?priv threadPriv
                   then go_ret (Response BadRequest ''User is not authorized to make a thread in this subforum'')
                   else if length ?parts = 3 then
                     (if u_query q = [] then go_ret (Response Input ''Thread title'')
                      else go_ret (Response RedirectTemporary (''/'' @ join ''/'' ?parts @ ''/'' @ u_query q @ ''/'')))
                   else if length ?parts = 4 then
                     (if u_query q = [] then go_ret (Response Input ''Thread title'')
                      else (case path_unescape (?parts ! 3) of
                              Inl e \<Rightarrow> go_ret (ErrorResponse BadRequest e)
                            | Inr title \<Rightarrow>
                                (case query_unescape (u_query q) of
                                   Inl e \<Rightarrow> go_ret (ErrorResponse BadRequest e)
                                 | Inr text \<Rightarrow> OnNewThread E ?s ?u title text)))
                   else go_ret BadUserInput)) (w\<lparr>w_clock := k\<rparr>) = (r, w')"
        using 1(1) by (simp only: 1(3-5) 2 if_False)
      from nudge_step[OF se this] f show ?case
        by (auto simp: go_ret_def split: sum.splits if_splits intro: that[OF 1(2) 2])
    qed
  qed
  have n: "length ?u \<le> UsernameMaxLength" by (rule session_name[OF s u(1)])
  have "good E n (w_db (w\<lparr>w_clock := k\<rparr>))" "clock_ok (w_clock (w\<lparr>w_clock := k\<rparr>))" using g(1) k by simp_all
  note O = OnNewThread_forum[OF this(1) g(2) this(2) u(1) n query_length[OF g(4) b(2)], of ?s title]
  have i: "?s \<in> set (GetAllSubforumIDs (e_cfg E))"
    using p(1) subforum_priv_found[of "c_Forum (e_cfg E)"] by (simp add: GetSubforumPrivFromID_def ids_all_subs)
  have t: "length title \<le> MaxValueSize"
    using length_unescape[of False] b(1) l part_length[OF g(4), of 3] by (fastforce simp: path_unescape_def)
  show ?thesis
    using O[OF i _ t] part_length[OF g(4), of 2] l o fp u p f
    by (intro exI[of _ ?u] exI[of _ ?s] exI[of _ "trim_space title"] exI[of _ body])
       (auto simp: writer_def may_in_def split: option.splits)
qed


section \<open>Reports and the console\<close>

lemma reports_forum:
  assumes s: "schema E b" and p: "dbis b [DBALLPOSTS, p]"
  shows "forum (bput [DBALLPOSTS, p] ''reports'' v b) = forum b"
proof -
  let ?b = "bput [DBALLPOSTS, p] ''reports'' v b"
  note top = schema_top[OF s]
  have n: "\<not> dbis b ([DBALLPOSTS, p] @ [''reports''])" using schemaD(2)[OF s] by simp
  note f = dbis_bput[OF n, of v] dbval_bput[OF n p, of v] b_wf_bput
  have "thread_posts ?b y = thread_posts b y" for y
    unfolding thread_posts_def by (rule values_same) (use top f in auto)
  then show ?thesis by (simp add: fun_eq_iff forum_def post_line_def f)
qed

interpretation same: go_invariant clock_ok "\<lambda>b. schema E b \<and> forum b = f" for E f
  by unfold_locales (simp add: clock_ok_def)

lemma same_report: "same.keeps E f (ReportHandler E' u c)"
proof -
  have "same.keeps E f (db_update (report_tx E' i))" for i
  proof (rule same.keeps_update[OF ticks_report], elim conjE, intro conjI)
    fix w a w' assume s: "schema E (w_db w)" and f: "forum (w_db w) = f" and r: "report_tx E' i w = (Ok a, w')"
    note o = report_tx_ok[OF s r]
    show "schema E (w_db w')" using put_post_reports[OF s o(2)] o(1) by (simp add: flag_ok_def)
    show "forum (w_db w') = f" using reports_forum[OF s o(2)] o(1) f by simp
  qed
  then show ?thesis unfolding ReportHandler_def Let_def by (intro same.keeps_cases same.keeps_bind; simp)
qed

lemma ConsoleCommand_changes:
  assumes s: "schema E (w_db w)" and r: "ConsoleCommand E' u p c w = (r, w')" and f: "forum (w_db w') \<noteq> forum (w_db w)"
  shows "\<exists>t l. strings_fields c = [if l then ''lock'' else ''unlock'', t] \<and> forum (w_db w') = forum_lock t l (forum (w_db w))"
proof -
  let ?fs = "strings_fields c"
  obtain x w1 where 1: "console_switch E' ?fs w = (x, w1)" by fastforce
  obtain y w2 where 2: "LogConsoleCommand u p c w1 = (y, w2)" by fastforce
  have w2: "w' = w2" using r 1 2 by (cases y) (auto simp: ConsoleCommand_def)
  have lg: "confined {DBCONSOLELOG} (LogConsoleCommand u p c)"
    unfolding LogConsoleCommand_def by (intro confined_bind confined_db) simp_all
  have "forum (w_db w2) = forum (w_db w1)" by (rule confined_forum[OF lg 2]) simp
  with f w2 have f1: "forum (w_db w1) \<noteq> forum (w_db w)" "forum (w_db w') = forum (w_db w1)" by simp_all
  have n: "?fs \<noteq> []" using 1 f1 by (auto simp: console_switch_def go_ret_def)
  show ?thesis
  proof (cases "hd ?fs = ''lock'' \<or> hd ?fs = ''unlock''")
    case True
    define l where "l \<longleftrightarrow> hd ?fs = ''lock''"
    let ?v = "if l then ''1'' else ''0''"
    have len: "length ?fs = 2" using 1 f1 True n by (auto simp: console_switch_def go_ret_def split: if_splits)
    then have fs: "?fs = [if l then ''lock'' else ''unlock'', ?fs ! 1]"
      using True by (cases ?fs) (auto simp: l_def length_Suc_conv numeral_2_eq_2)
    have v: "length ?v \<le> MaxValueSize" by (simp add: MaxValueSize_def)
    obtain st d where "reply (MuteOrUnmuteThread (?fs ! 1) ?v) st d w = (x, w1)"
      using 1 True len n by (auto simp: console_switch_def l_def)
    then have "w_db w1 = bput [DBALLTHREADS, ?fs ! 1] ''locked'' ?v (w_db w) \<and> dbis (w_db w) [DBALLTHREADS, ?fs ! 1]"
      using f1(1) lock_tx_eq[OF s v, of "?fs ! 1"]
      by (auto simp: reply_def MuteOrUnmuteThread_def go_bind_def db_update_def go_ret_def split: if_splits)
    then have "forum (w_db w1) = forum_lock (?fs ! 1) l (forum (w_db w))" using lock_forum[OF s, of "?fs ! 1" ?v] by simp
    then show ?thesis using fs f1(2) by (intro exI[of _ "?fs ! 1"] exI[of _ l]) simp
  next
    case False
    then have sw: "confined {DBUSERS} (console_switch E' ?fs)"
      unfolding console_switch_def reply_def Let_def
      by (simp only: de_Morgan_disj if_False) (intro confined_bind confined_cases confined_db; simp)
    have "forum (w_db w1) = forum (w_db w)" by (rule confined_forum[OF sw 1]) simp
    then show ?thesis using f1 by simp
  qed
qed

text \<open>The console runs a command for moderators only.\<close>

lemma ConsoleHandler_runs:
  assumes s: "schema E (w_db w)" and k: "clock_ok (w_clock w)"
    and r: "ConsoleHandler E q (Some c) w = (r, w')" and d: "w_db w' \<noteq> w_db w"
  shows "\<exists>fp u p cmd y k. GetFingerprint (Some c) = Some fp \<and> Is (config_priv (e_cfg E) (session_user (w_db w) fp)) Mod
     \<and> clock_ok k \<and> ConsoleCommand E u p cmd (w\<lparr>w_clock := k\<rparr>) = (y, w')"
proof -
  obtain fp where fp: "GetFingerprint (Some c) = Some fp"
    using r d by (cases "GetFingerprint (Some c)") (auto simp: ConsoleHandler_def go_ret_def)
  have "ConsoleHandler E q (Some c) w = (r, w')" by fact
  from this[unfolded ConsoleHandler_def fp option.case] show ?thesis
  proof (rule session_step[OF s k], goal_cases)
    case (1 x k)
    from 1(1) d have m: "Is (config_priv (e_cfg E) (session_user (w_db w) fp)) Mod"
      by (auto simp: 1(3-5) go_ret_def split: if_splits)
    from 1(1) d m obtain cmd y where "ConsoleCommand E (s_username x) (s_priv x) cmd (w\<lparr>w_clock := k\<rparr>) = (y, w')"
      by (auto simp: 1(3-5) go_ret_def go_bind_def split: if_splits sum.splits prod.splits res.splits)
    with m fp 1(2) show ?case by blast
  qed
qed

lemma Console_changes:
  assumes g: "good E n (w_db w)" "clock_ok (w_clock w)"
    and r: "ConsoleHandler E q (Some c) w = (r, w')" and f: "forum (w_db w') \<noteq> forum (w_db w)"
  shows "\<exists>fp t l. GetFingerprint (Some c) = Some fp \<and> Is (config_priv (e_cfg E) (session_user (w_db w) fp)) Mod
     \<and> forum (w_db w') = forum_lock t l (forum (w_db w))"
proof -
  note s = goodD(1)[OF g(1)]
  obtain fp u p cmd y k where c: "GetFingerprint (Some c) = Some fp" "Is (config_priv (e_cfg E) (session_user (w_db w) fp)) Mod"
    "ConsoleCommand E u p cmd (w\<lparr>w_clock := k\<rparr>) = (y, w')"
    using ConsoleHandler_runs[OF s g(2) r] f by fastforce
  have "schema E (w_db (w\<lparr>w_clock := k\<rparr>))" using s by simp
  from ConsoleCommand_changes[OF this c(3)] f c(1,2) show ?thesis by auto
qed

section \<open>Every request\<close>

lemma dispatch_changes:
  assumes g: "good E n (w_db w)" "n \<le> 2 ^ 64 - 1" "clock_ok (w_clock w)" "request_ok q"
    and r: "dispatch E q c w = (r, w')" and f: "forum (w_db w') \<noteq> forum (w_db w)"
  shows "has_prefix (u_path q) ''/console/'' \<and> ConsoleHandler E q (Some c) w = (r, w')
    \<or> has_prefix (u_path q) ''/new/thread/'' \<and> CreateThreadHandler E q (Some c) w = (r, w')
    \<or> has_prefix (u_path q) ''/new/post/'' \<and> NewPostHandler E q (Some c) w = (r, w')"
proof -
  let ?P = "\<lambda>m. m w = (r, w') \<longrightarrow> forum (w_db w') = forum (w_db w)"
  have q: "?P m" if "confined A m" "A \<inter> {DBALLTHREADS, DBALLPOSTS, DBTHREADTOSF} = {}" for A and m :: "response go"
    using confined_forum[OF that(1) _ that(2)] by blast
  have "?P (ReportHandler E q (Some c))"
    using same.keepsD[OF same_report, of E q "Some c" w r w' E "forum (w_db w)"] goodD(1)[OF g(1)] g(3) by auto
  moreover have "?P (RootHandler E (Some c))" "?P (PageHandler E q (Some c))" "?P (SubforumIndexHandler E (RootHandler E (Some c)) q (Some c))"
    "?P (ThreadViewHandler E q (Some c))" "?P (SearchHandler E q (Some c))"
    by (rule confined_reading[THEN q], simp)+
  moreover have "?P (RegisterUserHandler E q (Some c))" "?P (VerifyUserHandler E q (Some c))"
    "?P (LoginUserHandler E q (Some c))" "?P (LogoutUserHandler E q (Some c))"
    by (rule confined_accounts[THEN q], simp)+
  ultimately show ?thesis
    using r f unfolding dispatch_def Let_def by (auto simp: go_ret_def split: if_splits)
qed

section \<open>Around the dispatch\<close>

lemma limiter_quiet:
  "\<exists>st k. limiter_Check l ip w = (Ok st, w\<lparr>w_clock := k\<rparr>) \<and> (clock_ok (w_clock w) \<longrightarrow> clock_ok k)"
  "\<exists>k m. limiter_Inc l ip w = (Ok (), w\<lparr>w_clock := k, w_limits := m\<rparr>) \<and> (clock_ok (w_clock w) \<longrightarrow> clock_ok k)"
  by (auto simp: limiter_Check_def limiter_Inc_def store_Get_def store_Inc_def go_simps Let_def clock_ok_def split: prod.split)

lemma handler_dispatch:
  assumes "handler E q c w = (r, w')" "clock_ok (w_clock w)"
  obtains (refused) x where "r = Ok x" "w_db w' = w_db w" "clock_ok (w_clock w')"
  | (served) w1 where "w_db w1 = w_db w" "clock_ok (w_clock w1)" "dispatch E q c w1 = (r, w')"
proof (cases "split_host_port (cn_remote c)")
  case (Inl e)
  then show ?thesis using assms refused by (auto simp: handler_def go_ret_def)
next
  case (Inr ip)
  show ?thesis
  proof (cases "e_limiter E")
    case None
    then show ?thesis using assms Inr served by (simp add: handler_def)
  next
    case (Some l)
    obtain st k where k: "limiter_Check l ip w = (Ok st, w\<lparr>w_clock := k\<rparr>)" "clock_ok k"
      using limiter_quiet(1)[of l ip w] assms(2) by auto
    obtain k' m where k': "limiter_Inc l ip (w\<lparr>w_clock := k\<rparr>) = (Ok (), w\<lparr>w_clock := k', w_limits := m\<rparr>)" "clock_ok k'"
      using limiter_quiet(2)[of l ip "w\<lparr>w_clock := k\<rparr>"] k(2) by auto
    show ?thesis
      using assms Inr Some k k' refused served[of "w\<lparr>w_clock := k', w_limits := m\<rparr>"]
      by (cases "IsLimited st") (auto simp: handler_def go_bind_def go_ret_def)
  qed
qed

end
