(* ===== verification/Accounts.thy ===== *)
theory Accounts imports Authority begin

text \<open>
  The accounts as the log in sees them: for each name whether it is verified, its
  password hash, mail address and mute; the verification codes that are out; and
  the user each certificate is logged in as.  The transactions of \<open>users.go\<close> and
  the mutes of \<open>console.go\<close> are shown to act on them as the obvious updates.
\<close>

record account =
  ac_verified :: bool
  ac_hash :: bytes
  ac_email :: bytes
  ac_muted :: bytes

definition accounts :: "bucket \<Rightarrow> bytes \<Rightarrow> account option" where
  "accounts b u =
     (if dbis b [DBUSERS, u] then
        Some \<lparr>ac_verified = (dbval b [DBUSERS, u] ''verified'' = Some ''1''),
              ac_hash = str_of (dbval b [DBUSERS, u] ''password''),
              ac_email = str_of (dbval b [DBUSERS, u] ''email''),
              ac_muted = str_of (dbval b [DBUSERS, u] ''muted'')\<rparr>
      else None)"

definition codes :: "bucket \<Rightarrow> bytes \<Rightarrow> bytes option" where
  "codes b = dbval b [DBVALIDATION]"

definition sessions :: "bucket \<Rightarrow> bytes \<Rightarrow> bytes option" where
  "sessions b = dbval b [DBFP]"

definition acc_upd :: "bytes \<Rightarrow> (account \<Rightarrow> account) \<Rightarrow> (bytes \<Rightarrow> account option) \<Rightarrow> bytes \<Rightarrow> account option" where
  "acc_upd u g A = A(u := map_option g (A u))"

section \<open>The transactions on the accounts\<close>

lemma register_accounts:
  assumes s: "schema E b" and n: "\<not> dbis b [DBUSERS, u]"
  shows "accounts (register_db E u email h code b) =
      (accounts b)(u \<mapsto> \<lparr>ac_verified = (\<not> smtp_Enabled (c_Smtp (e_cfg E))), ac_hash = h, ac_email = email, ac_muted = []\<rparr>)"
    "codes (register_db E u email h code b) = (codes b)(code \<mapsto> u)"
    "sessions (register_db E u email h code b) = sessions b"
proof -
  note f = register_db_flat[OF s n]
  show "accounts (register_db E u email h code b) =
      (accounts b)(u \<mapsto> \<lparr>ac_verified = (\<not> smtp_Enabled (c_Smtp (e_cfg E))), ac_hash = h, ac_email = email, ac_muted = []\<rparr>)"
    by (auto simp: fun_eq_iff accounts_def f user_record_def)
  show "codes (register_db E u email h code b) = (codes b)(code \<mapsto> u)" "sessions (register_db E u email h code b) = sessions b"
    by (auto simp: fun_eq_iff codes_def sessions_def f)
qed

lemma put_field_accounts:
  assumes s: "schema E b" and u: "dbis b [DBUSERS, u]"
  shows "accounts (bput [DBUSERS, u] ''verified'' ''1'' b) = acc_upd u (\<lambda>a. a\<lparr>ac_verified := True\<rparr>) (accounts b)"
    "accounts (bput [DBUSERS, u] ''muted'' v b) = acc_upd u (\<lambda>a. a\<lparr>ac_muted := v\<rparr>) (accounts b)"
    "codes (bput [DBUSERS, u] k v b) = codes b" "sessions (bput [DBUSERS, u] k v b) = sessions b"
proof -
  have n: "\<not> dbis b ([DBUSERS, u] @ [k])" for k using schemaD(2)[OF s] by simp
  note f = dbis_bput[OF n] dbval_bput[OF n u]
  show "accounts (bput [DBUSERS, u] ''verified'' ''1'' b) = acc_upd u (\<lambda>a. a\<lparr>ac_verified := True\<rparr>) (accounts b)"
    "accounts (bput [DBUSERS, u] ''muted'' v b) = acc_upd u (\<lambda>a. a\<lparr>ac_muted := v\<rparr>) (accounts b)"
    using u by (auto simp: fun_eq_iff accounts_def acc_upd_def f)
  show "codes (bput [DBUSERS, u] k v b) = codes b" "sessions (bput [DBUSERS, u] k v b) = sessions b"
    by (auto simp: fun_eq_iff codes_def sessions_def f)
qed

lemma verify_accounts:
  assumes s: "schema E b" and c: "codes b c = Some u"
  shows "accounts (bdel [DBVALIDATION] c (bput [DBUSERS, u] ''verified'' ''1'' b)) = acc_upd u (\<lambda>a. a\<lparr>ac_verified := True\<rparr>) (accounts b)"
    "codes (bdel [DBVALIDATION] c (bput [DBUSERS, u] ''verified'' ''1'' b)) = (codes b)(c := None)"
    "sessions (bdel [DBVALIDATION] c (bput [DBUSERS, u] ''verified'' ''1'' b)) = sessions b"
    "dbis b [DBUSERS, u]"
proof -
  show u: "dbis b [DBUSERS, u]" using schemaD(3)[OF s] c by (auto simp: users_ok_def codes_def)
  let ?b = "bput [DBUSERS, u] ''verified'' ''1'' b"
  have n: "\<not> dbis ?b ([DBVALIDATION] @ [c])" using schema_top[OF s] by simp
  note f = dbis_bdel[OF n] dbval_bdel[OF n]
  have "accounts (bdel [DBVALIDATION] c ?b) = accounts ?b" by (auto simp: fun_eq_iff accounts_def f)
  then show "accounts (bdel [DBVALIDATION] c ?b) = acc_upd u (\<lambda>a. a\<lparr>ac_verified := True\<rparr>) (accounts b)"
    using put_field_accounts(1)[OF s u] by simp
  have "codes (bdel [DBVALIDATION] c ?b) = (codes ?b)(c := None)" "sessions (bdel [DBVALIDATION] c ?b) = sessions ?b"
    by (auto simp: fun_eq_iff codes_def sessions_def f)
  then show "codes (bdel [DBVALIDATION] c ?b) = (codes b)(c := None)" "sessions (bdel [DBVALIDATION] c ?b) = sessions b"
    using put_field_accounts(3,4)[OF s u] by simp_all
qed

lemma session_accounts:
  assumes s: "schema E b"
  shows "accounts (bput [DBFP] fp u b) = accounts b" "codes (bput [DBFP] fp u b) = codes b" "sessions (bput [DBFP] fp u b) = (sessions b)(fp \<mapsto> u)"
    "accounts (bdel [DBFP] fp b) = accounts b" "codes (bdel [DBFP] fp b) = codes b" "sessions (bdel [DBFP] fp b) = (sessions b)(fp := None)"
proof -
  have n: "\<not> dbis b ([DBFP] @ [fp])" "dbis b [DBFP]" using schema_top[OF s] by simp_all
  note f = dbis_bput[OF n(1)] dbval_bput[OF n] dbis_bdel[OF n(1)] dbval_bdel[OF n(1)]
  show "accounts (bput [DBFP] fp u b) = accounts b" "codes (bput [DBFP] fp u b) = codes b" "sessions (bput [DBFP] fp u b) = (sessions b)(fp \<mapsto> u)"
    "accounts (bdel [DBFP] fp b) = accounts b" "codes (bdel [DBFP] fp b) = codes b" "sessions (bdel [DBFP] fp b) = (sessions b)(fp := None)"
    by (auto simp: fun_eq_iff accounts_def codes_def sessions_def f)
qed

lemma session_user_is: "session_user b fp = (case sessions b fp of None \<Rightarrow> [] | Some u \<Rightarrow> if accounts b u = None then [] else u)"
  by (simp add: session_user_def sessions_def accounts_def split: option.split)

section \<open>The handlers\<close>

lemma OnRegister_cases:
  assumes s: "schema E (w_db w)" and u: "u \<noteq> []" "length u \<le> UsernameMaxLength" "length email \<le> MaxValueSize"
    and h: "e_hash E (w_salt w 0) pw = Inr phash" "length phash \<le> MaxValueSize"
  shows "accounts (w_db w) u \<noteq> None \<Longrightarrow> \<exists>w'. OnRegister E u email pw w = (Ok (Some ErrUserAlreadyExists), w') \<and> w_db w' = w_db w \<and> w_sent w' = w_sent w"
    "accounts (w_db w) u = None \<Longrightarrow> \<exists>w1. OnRegister E u email pw w = SendEmailOnRegistration E u email (itob (w_rand w 0)) w1
       \<and> w_db w1 = register_db E u email phash (itob (w_rand w 0)) (w_db w) \<and> w_sent w1 = w_sent w \<and> w_clock w1 = w_clock w \<and> w_smtp w1 = w_smtp w"
proof -
  let ?w = "w\<lparr>w_salt := \<lambda>n. w_salt w (Suc n), w_rand := \<lambda>n. w_rand w (Suc n)\<rparr>"
  have se: "schema E (w_db ?w)" using s by simp
  { assume "accounts (w_db w) u \<noteq> None"
    then have "dbis (w_db ?w) [DBUSERS, u]" by (simp add: accounts_def split: if_splits)
    from register_tx_exists[OF se this] show "\<exists>w'. OnRegister E u email pw w = (Ok (Some ErrUserAlreadyExists), w') \<and> w_db w' = w_db w \<and> w_sent w' = w_sent w"
      using h by (simp add: OnRegister_def go_simps db_update_def Let_def) }
  { assume "accounts (w_db w) u = None"
    then have "\<not> dbis (w_db ?w) [DBUSERS, u]" by (simp add: accounts_def split: if_splits)
    from register_tx_eq[OF se this u h(2)] show "\<exists>w1. OnRegister E u email pw w = SendEmailOnRegistration E u email (itob (w_rand w 0)) w1
       \<and> w_db w1 = register_db E u email phash (itob (w_rand w 0)) (w_db w) \<and> w_sent w1 = w_sent w \<and> w_clock w1 = w_clock w \<and> w_smtp w1 = w_smtp w"
      using h by (auto simp: OnRegister_def go_simps db_update_def Let_def) }
qed

lemma Verify_cases:
  assumes s: "schema E (w_db w)" and p: "path_parts (u_path q) = [a, code]"
  shows "VerifyUserHandler E q c w = (case codes (w_db w) code of
      None \<Rightarrow> (Ok (ErrorResponse BadRequest UserNotFound), w)
    | Some u \<Rightarrow> (Ok (Response RedirectTemporary ''/''), w\<lparr>w_db := bdel [DBVALIDATION] code (bput [DBUSERS, u] ''verified'' ''1'' (w_db w))\<rparr>))"
  using verify_tx_eq[OF s, of code] p
  by (simp add: VerifyUserHandler_def go_simps db_update_def codes_def split: option.split)

lemma Login_cases:
  assumes s: "schema E (w_db w)" and fp: "GetFingerprint c = Some fp"
    and p: "path_parts (u_path q) = [a, name]" "query_unescape name = Inr u"
    and pw: "u_query q \<noteq> []" "query_unescape (u_query q) = Inr pass"
  shows "LoginUserHandler E q c w = (case accounts (w_db w) u of
      None \<Rightarrow> (Ok (ErrorResponse BadRequest UserNotFound), w)
    | Some acc \<Rightarrow>
        if \<not> ac_verified acc then (Ok (ErrorResponse BadRequest (ErrNew ''User not verified'')), w)
        else if e_compare E (ac_hash acc) pass \<noteq> None then (Ok (Response BadRequest ''Login unsuccessful''), w)
        else (Ok (Response RedirectTemporary ''/''), w\<lparr>w_db := bput [DBFP] fp u (w_db w)\<rparr>))"
proof -
  have l: "length u \<le> UsernameMaxLength" if "dbis (w_db w) [DBUSERS, u]"
    using schemaD(3)[OF s] that by (simp add: users_ok_def user_ok_def UsernameMaxLength_def)
  show ?thesis
    using login_view_eq[OF s, of u] login_tx_eq[OF s, of fp u] fingerprint_form[OF fp] l fp p pw
    by (auto simp: LoginUserHandler_def go_simps db_view_def db_update_def accounts_def split: option.splits)
qed


section \<open>Names\<close>

lemma user_keys:
  assumes "schema E b"
  shows "k \<in> fst ` set (dbcur b [DBUSERS]) \<longleftrightarrow> accounts b k \<noteq> None"
proof -
  have "k \<in> fst ` set (dbcur b [DBUSERS]) \<longleftrightarrow> (\<exists>v. cur_entry b [DBUSERS] k = Some v)"
    using dbcur_mem[OF schema_top(1)[OF assms], of k _ "[DBUSERS]"] by force
  then show ?thesis using schema_top(2)[OF assms] by (auto simp: cur_entry_def accounts_def)
qed

text \<open>A name that is free: no account has it up to the case of its letters.\<close>

definition free_name :: "env \<Rightarrow> bucket \<Rightarrow> bytes \<Rightarrow> bool" where
  "free_name E b u \<longleftrightarrow> (\<forall>v. accounts b v \<noteq> None \<longrightarrow> \<not> equal_fold E v u)"

lemma free_name_new: "free_name E b u \<Longrightarrow> accounts b u = None"
  using equal_fold_refl by (auto simp: free_name_def)

lemma validateUsername_eq:
  assumes s: "schema E (w_db w)"
  shows "validateUsername E u w = (Ok
     (if trim_space u = [] then Some ErrUsernameTooShort
      else if UsernameMaxLength < length (trim_space u) then Some ErrUsernameTooLong
      else if \<not> list_all (username_rune E) (runes (trim_space u)) then Some ErrUnallowedChar
      else if e_db E \<and> \<not> free_name E (w_db w) (trim_space u) then Some ErrUserAlreadyExists else None), w)"
proof -
  have "list_ex (\<lambda>(k, v). equal_fold E k x) (dbcur (w_db w) [DBUSERS]) \<longleftrightarrow> \<not> free_name E (w_db w) x" for x
  proof -
    have "list_ex (\<lambda>(k, v). equal_fold E k x) (dbcur (w_db w) [DBUSERS]) \<longleftrightarrow> (\<exists>k \<in> fst ` set (dbcur (w_db w) [DBUSERS]). equal_fold E k x)"
      by (force simp: list_ex_iff)
    then show ?thesis using user_keys[OF s] unfolding free_name_def by blast
  qed
  then show ?thesis
    using schema_top[OF s] by (simp add: validateUsername_def name_taken_view_def go_simps db_view_def)
qed

section \<open>What changes the sessions and the accounts\<close>

lemma confined_sessions: "confined A m \<Longrightarrow> m w = (r, w') \<Longrightarrow> DBFP \<notin> A \<Longrightarrow> sessions (w_db w') = sessions (w_db w)"
  using confinedD[of A m w r w' DBFP] by (simp add: sessions_def dbval_def fun_eq_iff)

definition users_flat :: "bucket \<Rightarrow> bool" where
  "users_flat b \<longleftrightarrow> (\<forall>u k. \<not> dbis b [DBUSERS, u, k])"

lemma same_users: "b_bucket b' DBUSERS = b_bucket b DBUSERS \<Longrightarrow> users_flat b' = users_flat b \<and> accounts b' = accounts b"
  by (simp add: users_flat_def accounts_def dbis_def dbval_def fun_eq_iff)

lemma confined_users: "confined A m \<Longrightarrow> m w = (r, w') \<Longrightarrow> DBUSERS \<notin> A \<Longrightarrow> accounts (w_db w') = accounts (w_db w)"
  using same_users confinedD by blast

interpretation acc: go_invariant "\<lambda>_. True" "\<lambda>b. users_flat b \<and> accounts b = f" for f
  by unfold_locales

lemma acc_confined: "confined A m \<Longrightarrow> DBUSERS \<notin> A \<Longrightarrow> acc.keeps f m"
  unfolding acc.keeps_def using confinedD[of A m] same_users by (metis prod.collapse)

lemma acc_nudge [intro, simp]: "acc.keeps f (UpdateForPostNudge u)"
  unfolding UpdateForPostNudge_def
proof (rule acc.keeps_update)
  show "still.ticks (nudge_tx u)" by (simp add: still.ticks_def)
  fix w a w' assume b: "users_flat (w_db w) \<and> accounts (w_db w) = f" and r: "nudge_tx u w = (Ok a, w')"
  have n: "\<not> dbis (w_db w) ([DBUSERS, u] @ [''postnudge''])" using b by (simp add: users_flat_def)
  have u: "dbis (w_db w) [DBUSERS, u]" "dbis (w_db w) [DBUSERS]"
    using r dbis_snoc[of "w_db w" "[DBUSERS]" u]
    by (auto simp: nudge_tx_def go_bind_def tx_must_def tx_bucket_def deref_def go_ret_def go_panic_def go_fail_def split: if_splits)
  have "w_db w' = bput [DBUSERS, u] ''postnudge'' ''0'' (w_db w)"
    using r u n by (auto simp: nudge_tx_def go_simps MaxKeySize_def MaxValueSize_def)
  moreover have "accounts (bput [DBUSERS, u] ''postnudge'' ''0'' (w_db w)) = accounts (w_db w)"
    using u n by (simp add: accounts_def fun_eq_iff)
  ultimately show "users_flat (w_db w') \<and> accounts (w_db w') = f"
    using b n by (simp add: users_flat_def)
qed

lemma acc_posting [intro, simp]: "acc.keeps f (NewPostHandler E q c)" "acc.keeps f (CreateThreadHandler E q c)"
proof -
  have "confined content (OnNewPost u t body priv)" "confined content (OnNewThread E s u title body)" for u t body priv s title
    unfolding OnNewPost_def OnNewThread_def Let_def by (intro confined_bind confined_cases confined_db; simp)+
  note p = this[THEN acc_confined, simplified]
  have r: "acc.keeps f (GetUsernameFromFP E fp)" "acc.keeps f (CheckForPostNudge u)" "acc.keeps f (db_view m)" for fp u m
    by (rule acc_confined[where A = "{}"], (simp | rule confined_db(2)), simp)+
  show "acc.keeps f (NewPostHandler E q c)" "acc.keeps f (CreateThreadHandler E q c)"
    unfolding NewPostHandler_def CreateThreadHandler_def with_nudge_def Let_def
    by (intro acc.keeps_bind acc.keeps_cases p r; simp)+
qed

lemma schema_flat: "schema E b \<Longrightarrow> users_flat b"
  using schema_top(2) by (auto simp: users_flat_def)


text \<open>The commands change an account only by its mute.\<close>

lemma ConsoleCommand_accounts:
  assumes s: "schema E (w_db w)" and k: "clock_ok (w_clock w)" and r: "ConsoleCommand E' x p c w = (r, w')"
    and f: "accounts (w_db w') \<noteq> accounts (w_db w)"
  shows "\<exists>u v. accounts (w_db w') = acc_upd u (\<lambda>a. a\<lparr>ac_muted := v\<rparr>) (accounts (w_db w))"
proof -
  let ?fs = "strings_fields c"
  obtain a w1 where 1: "console_switch E' ?fs w = (a, w1)" by fastforce
  obtain y w2 where 2: "LogConsoleCommand x p c w1 = (y, w2)" by fastforce
  have w2: "w' = w2" using r 1 2 by (cases y) (auto simp: ConsoleCommand_def)
  have lg: "confined {DBCONSOLELOG} (LogConsoleCommand x p c)"
    unfolding LogConsoleCommand_def by (intro confined_bind confined_db) simp_all
  have "accounts (w_db w2) = accounts (w_db w1)" by (rule confined_users[OF lg 2]) simp
  with f w2 have f1: "accounts (w_db w1) \<noteq> accounts (w_db w)" "accounts (w_db w') = accounts (w_db w1)" by simp_all
  have n: "?fs \<noteq> []" using 1 f1 by (auto simp: console_switch_def go_ret_def)
  have m: "w_db w1 = bput [DBUSERS, ?fs ! 1] ''muted'' (the (mute_value (?fs ! 2) (w_clock w 0))) (w_db w) \<and> dbis (w_db w) [DBUSERS, ?fs ! 1]"
    if "reply (db_update (mute_tx (?fs ! 1) (?fs ! 2))) st d w = (a, w1)" for st d
  proof (cases rule: mute_tx_eq[OF s k, of "?fs ! 1" "?fs ! 2"])
    case (1 e c)
    then show ?thesis
      using that f1(1) by (cases "dbis (w_db w) [DBUSERS, ?fs ! 1] \<and> mute_value (?fs ! 2) (w_clock w 0) \<noteq> None")
        (auto simp: reply_def go_bind_def db_update_def go_ret_def)
  qed
  have um: "w_db w1 = bput [DBUSERS, ?fs ! 1] ''muted'' [] (w_db w) \<and> dbis (w_db w) [DBUSERS, ?fs ! 1]"
    if "reply (db_update (unmute_tx (?fs ! 1))) st d w = (a, w1)" for st d
    using that f1(1) unmute_tx_eq[OF s, of "?fs ! 1"]
    by (auto simp: reply_def go_bind_def db_update_def go_ret_def split: if_splits)
  consider (mute) "hd ?fs = ''mute''" | (unmute) "hd ?fs = ''unmute''" | (other) "hd ?fs \<noteq> ''mute''" "hd ?fs \<noteq> ''unmute''" by blast
  then obtain v where "w_db w1 = bput [DBUSERS, ?fs ! 1] ''muted'' v (w_db w)" "dbis (w_db w) [DBUSERS, ?fs ! 1]"
  proof cases
    case mute
    then obtain st d where "reply (db_update (mute_tx (?fs ! 1) (?fs ! 2))) st d w = (a, w1)"
      using 1 n f1(1) by (auto simp: console_switch_def go_ret_def split: if_splits)
    from m[OF this] that show ?thesis by blast
  next
    case unmute
    then obtain st d where "reply (db_update (unmute_tx (?fs ! 1))) st d w = (a, w1)"
      using 1 n f1(1) by (auto simp: console_switch_def go_ret_def split: if_splits)
    from um[OF this] that show ?thesis by blast
  next
    case other
    then have sw: "confined {DBALLTHREADS} (console_switch E' ?fs)"
      unfolding console_switch_def reply_def MuteOrUnmuteThread_def Let_def
      by (simp only: if_False) (intro confined_bind confined_cases confined_db; simp)
    have "accounts (w_db w1) = accounts (w_db w)" by (rule confined_users[OF sw 1]) simp
    then show ?thesis using f1(1) by simp
  qed
  then show ?thesis using put_field_accounts(2)[OF s] f1(2) by (intro exI[of _ "?fs ! 1"] exI[of _ v]) simp
qed

lemma Console_accounts:
  assumes s: "schema E (w_db w)" and k: "clock_ok (w_clock w)"
    and r: "ConsoleHandler E q (Some c) w = (r, w')" and f: "accounts (w_db w') \<noteq> accounts (w_db w)"
  shows "\<exists>fp u v. GetFingerprint (Some c) = Some fp \<and> Is (config_priv (e_cfg E) (session_user (w_db w) fp)) Mod
     \<and> accounts (w_db w') = acc_upd u (\<lambda>a. a\<lparr>ac_muted := v\<rparr>) (accounts (w_db w))"
proof -
  obtain fp u p cmd y k' where c: "GetFingerprint (Some c) = Some fp" "Is (config_priv (e_cfg E) (session_user (w_db w) fp)) Mod"
    "clock_ok k'" "ConsoleCommand E u p cmd (w\<lparr>w_clock := k'\<rparr>) = (y, w')"
    using ConsoleHandler_runs[OF s k r] f by fastforce
  have "schema E (w_db (w\<lparr>w_clock := k'\<rparr>))" "clock_ok (w_clock (w\<lparr>w_clock := k'\<rparr>))" using s c(3) by simp_all
  from ConsoleCommand_accounts[OF this c(4)] f c(1,2) show ?thesis by auto
qed

lemma RegisterUserHandler_accounts:
  assumes s: "schema E (w_db w)" and q: "request_ok q" "hash_ok E"
    and r: "RegisterUserHandler E q c w = (r, w')" and f: "accounts (w_db w') \<noteq> accounts (w_db w)"
  shows "\<exists>u a. accounts (w_db w) u = None \<and> (e_db E \<longrightarrow> free_name E (w_db w) u) \<and> accounts (w_db w') = (accounts (w_db w))(u \<mapsto> a)"
proof -
  let ?parts = "path_parts (u_path q)"
  obtain V where V: "\<And>name. validateUsername E name w = (Ok (V name), w)"
    by (rule that) (rule validateUsername_eq[OF s])
  note R = r[unfolded RegisterUserHandler_def Let_def]
  have l: "length ?parts = 3" using R f by (auto simp: go_ret_def go_bind_def V split: if_splits sum.splits option.splits)
  obtain pw where pw: "query_unescape (u_query q) = Inr pw" using R f l by (auto simp: go_ret_def split: if_splits sum.splits)
  obtain name where name: "query_unescape (?parts ! 1) = Inr name" using R f l pw by (auto simp: go_ret_def split: if_splits sum.splits option.splits)
  have v0: "V name = None" using R f l pw name by (auto simp: go_ret_def go_bind_def V split: if_splits option.splits)
  obtain em where em: "query_unescape (?parts ! 2) = Inr em"
    using R f l pw name v0 by (auto simp: go_ret_def go_bind_def V split: if_splits sum.splits option.splits)
  obtain x w1 where x: "OnRegister E (trim_space name) (trim_space em) (trim_space pw) w = (x, w1)" by fastforce
  have "w1 = w'" using R f l pw name v0 em x
    by (cases x) (auto simp: go_ret_def go_bind_def V split: if_splits option.splits)
  then have o: "\<exists>x. OnRegister E (trim_space name) (trim_space em) (trim_space pw) w = (x, w')" using x by blast
  have n: "length ?parts = 3" "query_unescape (?parts ! 1) = Inr name" "query_unescape (?parts ! 2) = Inr em" by fact+
  have v: "validateUsername E name w = (Ok None, w)" using V v0 by simp
  from validateUsername_None[OF v] have u: "trim_space name \<noteq> []" "length (trim_space name) \<le> UsernameMaxLength" by simp_all
  have fr: "e_db E \<longrightarrow> free_name E (w_db w) (trim_space name)"
    using v validateUsername_eq[OF s, of name] by (auto split: if_splits)
  show ?thesis
  proof (cases "e_hash E (w_salt w 0) (trim_space pw)")
    case (Inl e)
    then show ?thesis using o f by (auto simp: OnRegister_def go_simps)
  next
    case (Inr h)
    then have "length h \<le> MaxValueSize" using q(2) by (auto simp: hash_ok_def MaxValueSize_def)
    note O = OnRegister_cases[OF s u register_email[OF q(1) n(3,1)] Inr this]
    have z: "accounts (w_db w) (trim_space name) = None"
    proof (rule ccontr)
      assume "accounts (w_db w) (trim_space name) \<noteq> None"
      from O(1)[OF this] o have "w_db w' = w_db w" by auto
      then show False using f by simp
    qed
    from O(2)[OF this] obtain w1 where w1: "OnRegister E (trim_space name) (trim_space em) (trim_space pw) w =
        SendEmailOnRegistration E (trim_space name) (trim_space em) (itob (w_rand w 0)) w1"
      "w_db w1 = register_db E (trim_space name) (trim_space em) h (itob (w_rand w 0)) (w_db w)" by blast
    have "w_db (snd (OnRegister E (trim_space name) (trim_space em) (trim_space pw) w)) = w_db w1" by (simp add: w1(1))
    then have "w_db w' = w_db w1" using o by auto
    moreover have "\<not> dbis (w_db w) [DBUSERS, trim_space name]" using z by (simp add: accounts_def split: if_splits)
    ultimately show ?thesis using register_accounts(1)[OF s] w1(2) z fr by auto
  qed
qed


lemma dispatch_sessions:
  assumes s: "schema E (w_db w)" and r: "dispatch E q c w = (r, w')" and f: "sessions (w_db w') \<noteq> sessions (w_db w)"
  shows "has_prefix (u_path q) ''/login/'' \<and> LoginUserHandler E q (Some c) w = (r, w')
    \<or> has_prefix (u_path q) ''/logout/'' \<and> LogoutUserHandler E q (Some c) w = (r, w')"
proof -
  let ?P = "\<lambda>m. m w = (r, w') \<longrightarrow> sessions (w_db w') = sessions (w_db w)"
  have q: "?P m" if "confined A m" "DBFP \<notin> A" for A and m :: "response go"
    using confined_sessions[OF that(1) _ that(2)] by blast
  have "?P (RootHandler E (Some c))" "?P (PageHandler E q (Some c))" "?P (SubforumIndexHandler E (RootHandler E (Some c)) q (Some c))"
    "?P (ThreadViewHandler E q (Some c))" "?P (SearchHandler E q (Some c))"
    by (rule confined_reading[THEN q], simp)+
  moreover have "?P (RegisterUserHandler E q (Some c))" "?P (VerifyUserHandler E q (Some c))"
    by (rule confined_accounts[THEN q], simp)+
  moreover have "?P (ReportHandler E q (Some c))" "?P (ConsoleHandler E q (Some c))"
    by (rule confined_report[THEN q], simp) (rule confined_ConsoleHandler[THEN q], simp)
  moreover have "?P (NewPostHandler E q (Some c))" "?P (CreateThreadHandler E q (Some c))"
    by (rule confined_posting[THEN q], simp)+
  ultimately show ?thesis
    using r f unfolding dispatch_def Let_def by (auto simp: go_ret_def split: if_splits)
qed

lemma dispatch_accounts:
  assumes s: "schema E (w_db w)" and r: "dispatch E q c w = (r, w')" and f: "accounts (w_db w') \<noteq> accounts (w_db w)"
  shows "has_prefix (u_path q) ''/register/'' \<and> RegisterUserHandler E q (Some c) w = (r, w')
    \<or> has_prefix (u_path q) ''/verify/'' \<and> VerifyUserHandler E q (Some c) w = (r, w')
    \<or> has_prefix (u_path q) ''/console/'' \<and> ConsoleHandler E q (Some c) w = (r, w')"
proof -
  let ?P = "\<lambda>m. m w = (r, w') \<longrightarrow> accounts (w_db w') = accounts (w_db w)"
  have q: "?P m" if "confined A m" "DBUSERS \<notin> A" for A and m :: "response go"
    using confined_users[OF that(1) _ that(2)] by blast
  have "?P (RootHandler E (Some c))" "?P (PageHandler E q (Some c))" "?P (SubforumIndexHandler E (RootHandler E (Some c)) q (Some c))"
    "?P (ThreadViewHandler E q (Some c))" "?P (SearchHandler E q (Some c))"
    by (rule confined_reading[THEN q], simp)+
  moreover have "?P (LoginUserHandler E q (Some c))" "?P (LogoutUserHandler E q (Some c))"
    by (rule confined_accounts[THEN q], simp)+
  moreover have "?P (ReportHandler E q (Some c))"
    by (rule confined_report[THEN q], simp)
  moreover have "?P (NewPostHandler E q (Some c))" "?P (CreateThreadHandler E q (Some c))"
    using acc.keepsD[OF acc_posting(1), of E q "Some c" w r w' "accounts (w_db w)"]
      acc.keepsD[OF acc_posting(2), of E q "Some c" w r w' "accounts (w_db w)"] schema_flat[OF s] by auto
  ultimately show ?thesis
    using r f unfolding dispatch_def Let_def by (auto simp: go_ret_def split: if_splits)
qed

end
