(* ===== verification/Demo.thy ===== *)
theory Demo imports Accounts begin

text \<open>
  A small forum the witnesses run: two subforums, an administrator and a user, one
  certificate, a thread of two posts.  Its database is built with the
  operations of the code, so that it has the schema by the lemmas on them.
\<close>

section \<open>The outside\<close>

definition demo_cfg :: config where
  "demo_cfg = \<lparr>c_ForumName = ''Demo'', c_Hostname = ''localhost'', c_OnionAddress = [], c_Listen = '':1965'',
     c_Priviledges = [(''root'', Admin)], c_Cert = ''cert'', c_Key = ''key'', c_Database = ''db'', c_Keywords = ''kw'',
     c_Backup = \<lparr>backup_File = \<lparr>fs_Enabled = True, fs_Prefix = ''backup''\<rparr>\<rparr>,
     c_LimitConnections = 3, c_LimitWindow = 60, c_Log = ''log'', c_Page = [(''about'', ''about.gmi'')],
     c_Admin = \<lparr>admin_Email = [''root@localhost'']\<rparr>,
     c_Smtp = \<lparr>smtp_Enabled = False, smtp_Type = ''plain'', smtp_From = [], smtp_Address = [], smtp_Port = [],
       smtp_User = [], smtp_Pass = []\<rparr>,
     c_Forum = [\<lparr>f_Name = ''Main'', f_Subforum =
       [\<lparr>sf_Name = ''General'', sf_ID = ''gen'', sf_ThreadPriviledge = User, sf_ReplyPriviledge = User\<rparr>,
        \<lparr>sf_Name = ''News'', sf_ID = ''news'', sf_ThreadPriviledge = Admin, sf_ReplyPriviledge = User\<rparr>]\<rparr>]\<rparr>"

text \<open>A hash that keeps the password in clear, so that comparing is easy to follow.\<close>

definition demo_hash :: "bytes \<Rightarrow> bytes" where
  "demo_hash p = take 60 (p @ replicate 60 CHR ''$'')"

definition demo_env :: env where
  "demo_env = \<lparr>e_cfg = demo_cfg, e_db = True, e_limiter = None, e_report_limiter = None,
     e_letter = (\<lambda>r. False), e_number = (\<lambda>r. False), e_latin = (\<lambda>r. False), e_separator = (\<lambda>r. False),
     e_punct = (\<lambda>r. False), e_fold = (\<lambda>a b. False), e_hash = (\<lambda>salt p. Inr (demo_hash p)),
     e_compare = (\<lambda>h p. if demo_hash p = h then None else Some (ErrNew ''mismatch'')),
     e_search = (\<lambda>q. Inr []), e_lookup_addr = (\<lambda>a. Inr [''localhost'']), e_read_file = (\<lambda>f. Inr ''text''),
     e_time_string = (\<lambda>t. []), e_parse_error = (\<lambda>s. s), e_sort = insertion_sort\<rparr>"

definition demo_time :: gtime where
  "demo_time = \<lparr>t_ns = 1700000000 * nsec_per_sec, t_off = 0\<rparr>"

definition demo_world :: "bucket \<Rightarrow> world" where
  "demo_world b = \<lparr>w_db = b, w_kw = Some [], w_limits = [], w_sent = [], w_clock = (\<lambda>n. demo_time),
     w_rand = (\<lambda>n. 7), w_salt = (\<lambda>n. []), w_smtp = (\<lambda>n. None)\<rparr>"

lemma demo_world_simps [simp]:
  "w_db (demo_world b) = b" "w_kw (demo_world b) = Some []" "w_clock (demo_world b) = (\<lambda>n. demo_time)"
  "w_limits (demo_world b) = []" "w_sent (demo_world b) = []" "w_rand (demo_world b) = (\<lambda>n. 7)"
  "w_salt (demo_world b) = (\<lambda>n. [])"
  by (simp_all add: demo_world_def)

lemma demo_env_simps [simp]:
  "e_cfg demo_env = demo_cfg" "e_db demo_env" "e_limiter demo_env = None" "e_report_limiter demo_env = None"
  "e_hash demo_env salt p = Inr (demo_hash p)" "e_sort demo_env = insertion_sort"
  "e_compare demo_env h p = (if demo_hash p = h then None else Some (ErrNew ''mismatch''))"
  "smtp_Enabled (c_Smtp demo_cfg) = False" "GetAllSubforumIDs demo_cfg = [''gen'', ''news'']"
  "c_Priviledges demo_cfg = [(''root'', Admin)]"
  by (simp_all add: demo_env_def demo_cfg_def GetAllSubforumIDs_def)

lemma demo_clock [simp]: "clock_time demo_time" "clock_ok (\<lambda>n. demo_time)"
  by (simp_all add: clock_ok_def clock_time_def demo_time_def nsec_per_sec_def zone_ok_def)

lemma demo_env_ok [simp]: "env_ok demo_env" "hash_ok demo_env"
  by (auto simp: env_ok_def hash_ok_def demo_hash_def min_def)

section \<open>The database\<close>

text \<open>Opened, with users, with sessions, with a thread, with an answer.\<close>

definition demo_db0 :: bucket where
  "demo_db0 = w_db (snd (dbCreateBuckets demo_env (demo_world empty_bucket)))"

definition demo_users :: bucket where
  "demo_users = register_db demo_env ''bob'' ''bob@x'' (demo_hash ''password2'') (itob 8)
     (register_db demo_env ''root'' ''root@x'' (demo_hash ''password1'') (itob 7) demo_db0)"

definition demo_conn :: conn where
  "demo_conn = \<lparr>cn_certs = [''B''], cn_remote = ''127.0.0.1:4000''\<rparr>"

definition demo_fp :: bytes where "demo_fp = CertFP ''B''"

definition demo_now :: bytes where "demo_now = RFC3339Nano demo_time"

definition demo_sessions :: bucket where
  "demo_sessions = bput [DBUSERS, ''bob''] ''postnudge'' ''0'' (bput [DBFP] demo_fp ''bob'' demo_users)"

definition demo_thread :: bucket where
  "demo_thread = new_thread_db ''gen'' ''bob'' ''Hello'' ''first'' demo_now demo_sessions"

definition demo_db :: bucket where
  "demo_db = new_post_db ''root'' (itob 1) ''second'' demo_now demo_thread"

section \<open>Its schema\<close>

lemma demo_db0: "good demo_env 1 demo_db0"
proof -
  obtain r w where r: "dbCreateBuckets demo_env (demo_world empty_bucket) = (r, w)" by fastforce
  have "[] \<notin> set (GetAllSubforumIDs (e_cfg demo_env))" "sound (w_db (demo_world empty_bucket))"
    using sound_empty by simp_all
  note s = start_schema[OF this(2,1) r]
  show ?thesis
    using s(2,3) r sound_empty(2) by (simp add: good_def demo_db0_def counters_below_def)
qed

lemma demo_users: "good demo_env 1 demo_users"
proof -
  let ?b = "register_db demo_env ''root'' ''root@x'' (demo_hash ''password1'') (itob 7) demo_db0"
  have 1: "\<not> dbis demo_db0 [DBUSERS, ''root'']" "\<not> dbis ?b [DBUSERS, ''bob'']" by code_simp+
  note s = goodD(1)[OF demo_db0]
  have s1: "schema demo_env ?b" by (rule register_keeps[OF s 1(1)]) (simp_all add: UsernameMaxLength_def)
  have "schema demo_env demo_users"
    unfolding demo_users_def by (rule register_keeps[OF s1 1(2)]) (simp_all add: UsernameMaxLength_def)
  then show ?thesis
    using register_db_flat(4)[OF s1 1(2)] register_db_flat(4)[OF s 1(1)]
    by (intro good_step[OF demo_db0]) (simp_all add: demo_users_def)
qed

lemma demo_bob: "dbis demo_users [DBUSERS, ''bob'']" "dbis demo_users [DBUSERS, ''root'']"
  by code_simp+

lemma demo_sessions: "good demo_env 1 demo_sessions" "dbval demo_sessions [DBFP] demo_fp = Some ''bob''"
  "dbis demo_sessions p = dbis demo_users p" "dbseq demo_sessions p = dbseq demo_users p"
  "dbval demo_sessions [DBUSERS, ''bob''] ''muted'' = Some []"
proof -
  note top = schema_top[OF goodD(1)[OF demo_users]]
  have v: "dbval demo_users [DBUSERS, ''bob''] ''muted'' = Some []" by code_simp
  have s: "schema demo_env (bput [DBFP] demo_fp ''bob'' demo_users)"
    by (rule put_session[OF goodD(1)[OF demo_users] demo_bob(1)])
  have "schema demo_env demo_sessions"
    unfolding demo_sessions_def using put_user_field[OF s, of "''bob''"] top demo_bob by (simp add: flag_ok_def)
  then show "good demo_env 1 demo_sessions"
    by (rule good_step[OF demo_users]) (use top in \<open>simp add: demo_sessions_def\<close>)
  show "dbval demo_sessions [DBFP] demo_fp = Some ''bob''" "dbis demo_sessions p = dbis demo_users p"
    "dbseq demo_sessions p = dbseq demo_users p" "dbval demo_sessions [DBUSERS, ''bob''] ''muted'' = Some []"
    using top v demo_bob by (simp_all add: demo_sessions_def)
qed

lemma demo_now: "parse_time demo_now = Some demo_time" "length demo_now \<le> 35" "marshal_text demo_time = Inr demo_now"
proof -
  note y = clock_year_now[OF demo_clock(1)]
  then show "marshal_text demo_time = Inr demo_now" by (simp add: marshal_text_def demo_now_def)
  then show "parse_time demo_now = Some demo_time" by (rule marshal_round_trip) (rule y)
  show "length demo_now \<le> 35" using length_format_time[OF y] by (simp add: demo_now_def RFC3339Nano_def)
qed

lemma demo_thread: "good demo_env 2 demo_thread"
proof -
  have sf: "dbis demo_sessions [DBSUBFORUMS, ''gen'']" unfolding demo_sessions by code_simp
  have c: "counters_free demo_sessions" by (rule good_free[OF demo_sessions(1)]) simp
  note s = goodD(1)[OF demo_sessions(1)]
  have "good demo_env (Suc 1) demo_thread"
    using new_thread_keeps[OF s c sf] new_thread_counters[OF s c sf goodD(2)[OF demo_sessions(1)]] demo_now(1)
    by (simp add: good_def demo_thread_def)
  then show ?thesis by (simp only: Suc_1)
qed

lemma demo_thread_is: "dbis demo_thread [DBALLTHREADS, itob 1]" "dbseq demo_sessions p = 0"
proof -
  have sf: "dbis demo_sessions [DBSUBFORUMS, ''gen'']" unfolding demo_sessions by code_simp
  show z: "dbseq demo_sessions p = 0" for p
    using goodD(2)[OF demo_sessions(1)] by (simp add: counters_below_def unat_eq_0)
  show "dbis demo_thread [DBALLTHREADS, itob 1]"
    using new_thread_flat(2)[OF goodD(1)[OF demo_sessions(1)] good_free[OF demo_sessions(1)] sf] z
    by (simp add: demo_thread_def)
qed

lemma demo_db: "good demo_env 3 demo_db"
proof -
  have c: "counters_free demo_thread" by (rule good_free[OF demo_thread]) simp
  note s = goodD(1)[OF demo_thread]
  have "good demo_env (Suc 2) demo_db"
    using new_post_keeps[OF s c demo_thread_is(1)] new_post_counters[OF s c demo_thread_is(1) goodD(2)[OF demo_thread]] demo_now(1)
    by (simp add: good_def demo_db_def)
  then show ?thesis by (simp add: eval_nat_numeral)
qed

lemma demo_forum:
  "forum demo_thread (itob 1) = Some \<lparr>at_title = ''Hello'', at_author = ''bob'', at_subforum = ''gen'',
     at_locked = False, at_posts = [(''bob'', ''first'')]\<rparr>"
  "forum demo_db (itob 1) = Some \<lparr>at_title = ''Hello'', at_author = ''bob'', at_subforum = ''gen'',
     at_locked = False, at_posts = [(''bob'', ''first''), (''root'', ''second'')]\<rparr>"
proof -
  have sf: "dbis demo_sessions [DBSUBFORUMS, ''gen'']" unfolding demo_sessions by code_simp
  have c: "counters_free demo_sessions" "counters_free demo_thread"
    by (rule good_free[OF demo_sessions(1)], simp) (rule good_free[OF demo_thread], simp)
  have p: "parse_time demo_now \<noteq> None" by (simp add: demo_now)
  show 1: "forum demo_thread (itob 1) = Some \<lparr>at_title = ''Hello'', at_author = ''bob'', at_subforum = ''gen'',
     at_locked = False, at_posts = [(''bob'', ''first'')]\<rparr>"
    unfolding demo_thread_def new_thread_forum[OF goodD(1)[OF demo_sessions(1)] c(1) sf p]
    by (simp add: forum_open_def next_thread_def demo_thread_is(2))
  show "forum demo_db (itob 1) = Some \<lparr>at_title = ''Hello'', at_author = ''bob'', at_subforum = ''gen'',
     at_locked = False, at_posts = [(''bob'', ''first''), (''root'', ''second'')]\<rparr>"
    unfolding demo_db_def new_post_forum[OF goodD(1)[OF demo_thread] c(2) demo_thread_is(1) p]
    by (simp add: forum_post_def 1)
qed

section \<open>A first request\<close>

definition demo_register :: url where
  "demo_register = \<lparr>u_path = ''/register/alice/a@x/'', u_query = ''password3'', u_force = False\<rparr>"

definition demo_up :: world where "demo_up = snd (dbCreateBuckets demo_env (demo_world empty_bucket))"

lemma demo_start: "step (Down empty_bucket) (Up demo_env demo_up)"
proof -
  obtain r w where r: "dbCreateBuckets demo_env (demo_world empty_bucket) = (r, w)" by fastforce
  have i: "[] \<notin> set (GetAllSubforumIDs (e_cfg demo_env))" "sound (w_db (demo_world empty_bucket))"
    using sound_empty by simp_all
  have "r = Ok (Inr ())" by (rule start_schema(1)[OF i(2,1) r])
  then have "dbCreateBuckets demo_env (demo_world empty_bucket) = (Ok (Inr ()), demo_up)"
    using r by (simp add: demo_up_def)
  from step.start[OF demo_env_ok(1) _ this] show ?thesis by simp
qed

lemma demo_served: "\<exists>r. handler demo_env demo_register demo_conn demo_up = (Ok r, snd (handler demo_env demo_register demo_conn demo_up))"
proof -
  have "(case fst (handler demo_env demo_register demo_conn demo_up) of Ok r \<Rightarrow> resp_status r | _ \<Rightarrow> None) = Some RedirectTemporary"
    by code_simp
  then show ?thesis
    by (cases "handler demo_env demo_register demo_conn demo_up"; cases "fst (handler demo_env demo_register demo_conn demo_up)") auto
qed

lemma demo_reach: "reach 2 (Up demo_env (snd (handler demo_env demo_register demo_conn demo_up)))"
proof -
  have "request_ok demo_register" by (simp add: request_ok_def demo_register_def)
  then have "step (Up demo_env demo_up) (Up demo_env (snd (handler demo_env demo_register demo_conn demo_up)))"
    using demo_served step.serve by blast
  from steps.more[OF steps.more[OF steps.none demo_start] this] show ?thesis by (simp add: eval_nat_numeral)
qed

section \<open>Requests of the demo\<close>

definition demo_post :: url where
  "demo_post = \<lparr>u_path = ''/new/post/0000000000000001/'', u_query = ''third'', u_force = False\<rparr>"

lemma demo_fields: "dbval demo_db [DBFP] demo_fp = Some ''bob''" "dbis demo_db [DBUSERS, ''bob'']"
  "dbval demo_db [DBUSERS, ''bob''] ''muted'' = Some []" "dbval demo_db [DBUSERS, ''bob''] ''postnudge'' = Some ''0''"
  "dbval demo_db [DBTHREADTOSF] (itob 1) = Some ''gen''"
proof -
  have sf: "dbis demo_sessions [DBSUBFORUMS, ''gen'']" unfolding demo_sessions by code_simp
  have c: "counters_free demo_sessions" "counters_free demo_thread"
    by (rule good_free[OF demo_sessions(1)], simp) (rule good_free[OF demo_thread], simp)
  note f = new_thread_flat(2,3)[OF goodD(1)[OF demo_sessions(1)] c(1) sf, of "''bob''" "''Hello''" "''first''" demo_now, folded demo_thread_def]
    new_post_flat(2,3)[OF goodD(1)[OF demo_thread] c(2) demo_thread_is(1), of "''root''" "''second''" demo_now, folded demo_db_def]
  have b: "dbis demo_users [DBUSERS, ''bob'']" by (rule demo_bob)
  have n: "\<not> dbis (bput [DBFP] demo_fp ''bob'' demo_users) ([DBUSERS, ''bob''] @ [''postnudge''])"
    using schema_top[OF goodD(1)[OF demo_users]] by simp
  have "dbval demo_sessions [DBUSERS, ''bob''] ''postnudge'' = Some ''0''"
    using schema_top[OF goodD(1)[OF demo_users]] b by (simp add: demo_sessions_def)
  then show "dbval demo_db [DBFP] demo_fp = Some ''bob''" "dbis demo_db [DBUSERS, ''bob'']"
    "dbval demo_db [DBUSERS, ''bob''] ''muted'' = Some []" "dbval demo_db [DBUSERS, ''bob''] ''postnudge'' = Some ''0''"
    "dbval demo_db [DBTHREADTOSF] (itob 1) = Some ''gen''"
    using demo_sessions b by (simp_all add: f demo_thread_is(2))
qed

lemma demo_fingerprint [simp]: "GetFingerprint (Some demo_conn) = Some demo_fp"
  by (simp add: GetFingerprint_def demo_conn_def demo_fp_def)

lemma demo_session:
  "session_user demo_db demo_fp = ''bob''" "\<not> session_muted demo_db demo_fp t"
  using demo_fields by (simp_all add: session_user_def session_muted_def muted_at_def PERMANENTLYMUTED_def)

text \<open>Bob's post is taken: the forum has it.\<close>

lemma demo_dispatch_post:
  "dispatch demo_env demo_post demo_conn (demo_world demo_db) = OnNewPost ''bob'' (itob 1) ''third'' User (demo_world demo_db)"
proof -
  note top = schema_top[OF goodD(1)[OF demo_db]]
  have p: "path_parts (u_path demo_post) = [''new'', ''post'', itob 1]" by code_simp
  have x: "u_path demo_post \<noteq> ''/''" "\<not> has_prefix (u_path demo_post) ''/register/''" "\<not> has_prefix (u_path demo_post) ''/login/''"
    "\<not> has_prefix (u_path demo_post) ''/logout/''" "\<not> has_prefix (u_path demo_post) ''/console/''"
    "\<not> has_prefix (u_path demo_post) ''/verify/''" "\<not> has_prefix (u_path demo_post) ''/report/''"
    "\<not> has_prefix (u_path demo_post) ''/f/''" "\<not> has_prefix (u_path demo_post) ''/thread/''"
    "\<not> has_prefix (u_path demo_post) ''/new/thread/''" "has_prefix (u_path demo_post) ''/new/post/''" by code_simp+
  have q: "query_unescape (u_query demo_post) = Inr ''third''" "u_query demo_post \<noteq> []" by code_simp+
  have pr: "GetSubforumPrivFromID demo_cfg ''gen'' = Inr (User, User)" by code_simp
  have gu: "GetUsernameFromFP demo_env demo_fp (demo_world demo_db) =
     (Ok \<lparr>s_username = ''bob'', s_priv = User, s_muted = False, s_status = no_status\<rparr>, demo_world demo_db)"
    using top demo_fields
    by (simp add: GetUsernameFromFP_def db_view_def go_simps IsUserCurrentlyMuted_def config_priv_def GetUserPriviledge_def User_def)
  have sv: "db_view (subforum_of_view (itob 1)) (demo_world demo_db) = (Ok (Inr ''gen''), demo_world demo_db)"
    using subforum_of_view_eq[of demo_env "demo_world demo_db"] goodD(1)[OF demo_db] demo_fields by simp
  have nu: "CheckForPostNudge ''bob'' (demo_world demo_db) = (Ok (Inr ()), demo_world demo_db)"
    using CheckForPostNudge_eq[of demo_env "demo_world demo_db"] goodD(1)[OF demo_db] demo_fields by simp
  show ?thesis
    by (simp add: dispatch_def Let_def x NewPostHandler_def p with_nudge_def go_bind_def gu sv pr Is_def nu q)
qed

lemma demo_posted:
  obtains w' where "dispatch demo_env demo_post demo_conn (demo_world demo_db) = (Ok (Response RedirectTemporary (''/thread/'' @ itob 1 @ ''/'')), w')"
    "map_option at_posts (forum (w_db w') (itob 1)) = Some [(''bob'', ''first''), (''root'', ''second''), (''bob'', ''third'')]"
  using OnNewPost_forum[of demo_env 3 "demo_world demo_db" "''bob''" "''third''" "itob 1" User] demo_db demo_dispatch_post
  by (auto simp: demo_forum forum_post_def UsernameMaxLength_def MaxValueSize_def)

section \<open>Accounts of the demo\<close>

lemma demo_account_fields: "dbis demo_db (DBUSERS # p) = dbis demo_users (DBUSERS # p)"
  "dbval demo_db [DBUSERS, u] k = dbval demo_sessions [DBUSERS, u] k" "dbval demo_db [DBVALIDATION] k = dbval demo_users [DBVALIDATION] k"
proof -
  have sf: "dbis demo_sessions [DBSUBFORUMS, ''gen'']" unfolding demo_sessions by code_simp
  have c: "counters_free demo_sessions" "counters_free demo_thread"
    by (rule good_free[OF demo_sessions(1)], simp) (rule good_free[OF demo_thread], simp)
  note f = new_thread_flat(2,3)[OF goodD(1)[OF demo_sessions(1)] c(1) sf, of "''bob''" "''Hello''" "''first''" demo_now, folded demo_thread_def]
    new_post_flat(2,3)[OF goodD(1)[OF demo_thread] c(2) demo_thread_is(1), of "''root''" "''second''" demo_now, folded demo_db_def]
  show "dbis demo_db (DBUSERS # p) = dbis demo_users (DBUSERS # p)" "dbval demo_db [DBUSERS, u] k = dbval demo_sessions [DBUSERS, u] k"
    by (simp_all add: f demo_sessions(3))
  have "dbval demo_db [DBVALIDATION] k = dbval demo_sessions [DBVALIDATION] k" by (simp add: f)
  also have "\<dots> = dbval demo_users [DBVALIDATION] k"
    using schema_top[OF goodD(1)[OF demo_users]] demo_bob by (simp add: demo_sessions_def)
  finally show "dbval demo_db [DBVALIDATION] k = dbval demo_users [DBVALIDATION] k" .
qed

lemma demo_accounts: "accounts demo_db ''bob'' = Some \<lparr>ac_verified = True, ac_hash = demo_hash ''password2'', ac_email = ''bob@x'', ac_muted = []\<rparr>"
  "accounts demo_db ''eve'' = None" "codes demo_db (itob 8) = Some ''bob''"
proof -
  have v: "dbval demo_users [DBUSERS, ''bob''] ''verified'' = Some ''1''"
    "dbval demo_users [DBUSERS, ''bob''] ''password'' = Some (demo_hash ''password2'')"
    "dbval demo_users [DBUSERS, ''bob''] ''email'' = Some ''bob@x''" "dbval demo_users [DBUSERS, ''bob''] ''muted'' = Some []"
    "dbval demo_users [DBVALIDATION] (itob 8) = Some ''bob''" "\<not> dbis demo_users [DBUSERS, ''eve'']"
    by code_simp+
  note top = schema_top[OF goodD(1)[OF demo_users]]
  have "k \<noteq> ''postnudge'' \<Longrightarrow> dbval demo_sessions [DBUSERS, ''bob''] k = dbval demo_users [DBUSERS, ''bob''] k" for k
    using top demo_bob by (simp add: demo_sessions_def)
  then show "accounts demo_db ''bob'' = Some \<lparr>ac_verified = True, ac_hash = demo_hash ''password2'', ac_email = ''bob@x'', ac_muted = []\<rparr>"
    using v demo_bob by (simp add: accounts_def demo_account_fields)
  show "accounts demo_db ''eve'' = None" "codes demo_db (itob 8) = Some ''bob''"
    using v by (simp_all add: accounts_def codes_def demo_account_fields)
qed

end
