(* ===== verification/Content.thy ===== *)
theory Content imports Demo begin

text \<open>
  Posting and moderation, as statements on the forum: what the posting operations do
  to it, who may do it, and that nothing written is lost.
\<close>

text \<open>A post sets the time its thread was last changed, and of no other thread.\<close>

lemma OnNewPost_changed:
  assumes g: "good E n (w_db w)" "n \<le> 2 ^ 64 - 1" "clock_ok (w_clock w)"
    and u: "u \<noteq> []" "length u \<le> UsernameMaxLength" "length body \<le> MaxValueSize"
    and r: "OnNewPost u t body priv w = (Ok (Response RedirectTemporary x), w')"
  shows "last_changed (w_db w') = (last_changed (w_db w))(t \<mapsto> w_clock w 0)"
proof -
  obtain a w1 where a: "new_post_tx u t body priv w = (Ok a, w1)" "w_db w' = w_db w1"
    using r by (auto simp: OnNewPost_def go_bind_def go_ret_def db_update_def ErrorResponse_def Response_def split: prod.splits res.splits sum.splits)
  note s = goodD(1)[OF g(1)] and c = good_free[OF g(1,2)]
  obtain now where now: "parse_time now = Some (w_clock w 0)" "w_db w1 = new_post_db u t body now (w_db w)" "dbis (w_db w) [DBALLTHREADS, t]"
    by (rule new_post_tx_ok[OF s c g(3) u a(1)])
  note f = new_post_flat(2,3)[OF s c now(3), of u body now]
  show ?thesis unfolding a(2) now(2) using now(3) by (auto simp: fun_eq_iff last_changed_def f now(1,3) DBALLTHREADS_def DBALLPOSTS_def DBUSERPOSTS_def)
qed

text \<open>
  C4: new posts refine the forum: posting in a missing thread or, below the level of
  moderator, in a locked one is refused and changes nothing; otherwise the thread gets
  the post as its last one and the time of it as its last change, nothing else of the forum
  changes, and the keyword index gets the entry for it.
\<close>
theorem OnNewPost_refines:
  assumes "good E n (w_db w)" "n \<le> 2 ^ 64 - 1" "clock_ok (w_clock w)"
    and "u \<noteq> []" "length u \<le> UsernameMaxLength" "length body \<le> MaxValueSize"
  shows "(case forum (w_db w) t of
      None \<Rightarrow> OnNewPost u t body priv w = (Ok (ErrorResponse TemporaryFailure ErrNotFound), w)
    | Some a \<Rightarrow>
        if at_locked a \<and> \<not> Is priv Mod then OnNewPost u t body priv w = (Ok (ErrorResponse TemporaryFailure ErrThreadIsLocked), w)
        else \<exists>w'. OnNewPost u t body priv w = (Ok (Response RedirectTemporary (''/thread/'' @ t @ ''/'')), w')
               \<and> forum (w_db w') = forum_post u t body (forum (w_db w))
               \<and> last_changed (w_db w') = (last_changed (w_db w))(t \<mapsto> w_clock w 0)
               \<and> w_kw w' = map_option (\<lambda>q. q @ [makeKeywordIndex u body (itob (dbseq (w_db w) [DBALLPOSTS] + 1)) t]) (w_kw w))"
proof -
  note O = OnNewPost_forum[OF assms, of t priv] and C = OnNewPost_changed[OF assms, of t priv]
  show ?thesis using O C by (cases "forum (w_db w) t") (fastforce split: if_splits)+
qed
theorem OnNewPost_refines_witness:
  "\<exists>w'. OnNewPost ''bob'' (itob 1) ''third'' User (demo_world demo_db) = (Ok (Response RedirectTemporary (''/thread/'' @ itob 1 @ ''/'')), w')
     \<and> map_option at_posts (forum (w_db w') (itob 1)) = Some [(''bob'', ''first''), (''root'', ''second''), (''bob'', ''third'')]"
  using OnNewPost_refines[of demo_env 3 "demo_world demo_db" "''bob''" "''third''" "itob 1" User] demo_db
  by (auto simp: demo_forum forum_post_def UsernameMaxLength_def MaxValueSize_def)

text \<open>
  C13: new threads refine the forum: the title is validated after trimming, and refused
  titles change nothing; otherwise a thread with a number not in use appears, in the
  subforum asked for, unlocked and with the one post, and is the last of its subforum.
\<close>
theorem OnNewThread_refines:
  assumes "good E n (w_db w)" "n \<le> 2 ^ 64 - 1" "clock_ok (w_clock w)"
    and "u \<noteq> []" "length u \<le> UsernameMaxLength" "length body \<le> MaxValueSize"
    and "s \<in> set (GetAllSubforumIDs (e_cfg E))" "length s \<le> MaxValueSize" "length title \<le> MaxValueSize"
  shows "case ValidateThreadTitle E (trim_space title) of
      Some e \<Rightarrow> OnNewThread E s u title body w = (Ok (ErrorResponse BadRequest e), w)
    | None \<Rightarrow> \<exists>w'. OnNewThread E s u title body w = (Ok (Response RedirectTemporary (''/f/'' @ s @ ''/'')), w')
        \<and> forum (w_db w) (next_thread (w_db w)) = None
        \<and> forum (w_db w') = forum_open (next_thread (w_db w)) s u (trim_space title) body (forum (w_db w))
        \<and> subforum_ids (w_db w') s = subforum_ids (w_db w) s @ [next_thread (w_db w)]"
  by (rule OnNewThread_forum[OF assms])

theorem OnNewThread_refines_witness:
  "\<exists>w'. OnNewThread demo_env ''gen'' ''root'' '' A title '' ''body'' (demo_world demo_db)
        = (Ok (Response RedirectTemporary ''/f/gen/''), w')
     \<and> map_option at_title (forum (w_db w') (next_thread demo_db)) = Some ''A title''
     \<and> map_option at_posts (forum (w_db w') (next_thread demo_db)) = Some [(''root'', ''body'')]"
proof -
  have t: "trim_space '' A title '' = ''A title''" by code_simp
  have "ValidateThreadTitle demo_env ''A title'' = None" by code_simp
  then show ?thesis
    using OnNewThread_refines[of demo_env 3 "demo_world demo_db" "''root''" "''body''" "''gen''" "'' A title ''"] demo_db
    by (auto simp: t forum_open_def UsernameMaxLength_def MaxValueSize_def)
qed

text \<open>
  C2: whatever the request, the forum only changes by a post of a logged-in user who is not
  muted, has the level the thread's subforum asks for and is a moderator if the thread is
  locked; by a thread of such a user with a valid title; or by a moderator's lock.
\<close>
theorem forum_authorised:
  assumes "good E n (w_db w)" "n \<le> 2 ^ 64 - 1" "clock_ok (w_clock w)" "request_ok q"
    and "dispatch E q c w = (r, w')" "forum (w_db w') \<noteq> forum (w_db w)"
  shows "(has_prefix (u_path q) ''/new/post/'' \<and> (\<exists>u t body a. writer (w_db w) c (w_clock w 0) u \<and> forum (w_db w) t = Some a
            \<and> may_in E (at_subforum a) u snd \<and> (at_locked a \<longrightarrow> Is (config_priv (e_cfg E) u) Mod)
            \<and> forum (w_db w') = forum_post u t body (forum (w_db w))))
    \<or> (has_prefix (u_path q) ''/new/thread/'' \<and> (\<exists>u s title body. writer (w_db w) c (w_clock w 0) u \<and> may_in E s u fst
            \<and> ValidateThreadTitle E title = None \<and> forum (w_db w) (next_thread (w_db w)) = None
            \<and> forum (w_db w') = forum_open (next_thread (w_db w)) s u title body (forum (w_db w))))
    \<or> (has_prefix (u_path q) ''/console/'' \<and> (\<exists>fp t l. GetFingerprint (Some c) = Some fp
            \<and> Is (config_priv (e_cfg E) (session_user (w_db w) fp)) Mod
            \<and> forum (w_db w') = forum_lock t l (forum (w_db w))))"
  using dispatch_changes[OF assms]
proof (elim disjE conjE)
  assume p: "has_prefix (u_path q) ''/console/''" and r: "ConsoleHandler E q (Some c) w = (r, w')"
  show ?thesis using p Console_changes[OF assms(1,3) r assms(6)] by blast
next
  assume p: "has_prefix (u_path q) ''/new/thread/''" and r: "CreateThreadHandler E q (Some c) w = (r, w')"
  show ?thesis using p CreateThread_changes[OF assms(1-4) r assms(6)] by blast
next
  assume p: "has_prefix (u_path q) ''/new/post/''" and r: "NewPostHandler E q (Some c) w = (r, w')"
  show ?thesis using p NewPost_changes[OF assms(1-4) r assms(6)] by blast
qed

theorem forum_authorised_witness:
  "\<exists>r w'. dispatch demo_env demo_post demo_conn (demo_world demo_db) = (r, w') \<and> forum (w_db w') \<noteq> forum demo_db
     \<and> (\<exists>u. writer demo_db demo_conn demo_time u)"
proof -
  obtain w' where w': "dispatch demo_env demo_post demo_conn (demo_world demo_db) = (Ok (Response RedirectTemporary (''/thread/'' @ itob 1 @ ''/'')), w')"
    "map_option at_posts (forum (w_db w') (itob 1)) = Some [(''bob'', ''first''), (''root'', ''second''), (''bob'', ''third'')]"
    by (rule demo_posted)
  then have f: "forum (w_db w') \<noteq> forum (w_db (demo_world demo_db))" by (auto simp: demo_forum)
  have g: "good demo_env 3 (w_db (demo_world demo_db))" "clock_ok (w_clock (demo_world demo_db))" "request_ok demo_post"
    using demo_db by (simp_all add: request_ok_def demo_post_def)
  have n: "\<not> has_prefix (u_path demo_post) ''/console/''" by code_simp
  have "\<exists>u. writer demo_db demo_conn demo_time u"
    using forum_authorised[OF g(1) _ g(2,3) w'(1) f] n by auto
  then show ?thesis using w'(1) f by auto
qed

text \<open>
  Without a certificate that is logged in, or while the user is muted, neither posts nor threads are
  taken: both handlers give the same answer and leave the database as it is, whatever is in the request.
\<close>
theorem posting_rejected:
  assumes "schema E (w_db w)" "h \<in> {NewPostHandler E q (Some c), CreateThreadHandler E q (Some c)}"
  shows "case GetFingerprint (Some c) of
      None \<Rightarrow> h w = (Ok CertRequired, w)
    | Some fp \<Rightarrow>
       (session_user (w_db w) fp = [] \<longrightarrow> (\<exists>w'. h w = (Ok UnauthorizedCert, w') \<and> w_db w' = w_db w))
       \<and> (session_user (w_db w) fp \<noteq> [] \<and> session_muted (w_db w) fp (w_clock w 0) \<longrightarrow>
            (\<exists>w'. h w = (Ok CurrentlyMutedResponse, w') \<and> w_db w' = w_db w))"
proof (cases "GetFingerprint (Some c)")
  case None
  then show ?thesis using assms(2) by (auto simp: NewPostHandler_def CreateThreadHandler_def go_ret_def)
next
  case (Some fp)
  obtain st k where "GetUsernameFromFP E fp w =
      (Ok \<lparr>s_username = session_user (w_db w) fp, s_priv = config_priv (e_cfg E) (session_user (w_db w) fp),
           s_muted = session_muted (w_db w) fp (w_clock w 0), s_status = st\<rparr>, w\<lparr>w_clock := k\<rparr>)"
    by (rule GetUsernameFromFP_eq[OF schemaD(1)[OF assms(1)]])
  then show ?thesis
    using Some assms(2) by (auto simp: NewPostHandler_def CreateThreadHandler_def go_bind_def go_ret_def)
qed

theorem posting_rejected_witness:
  "\<exists>w'. NewPostHandler demo_env demo_post (Some demo_conn) (demo_world (bput [DBUSERS, ''bob''] ''muted'' ''permanent'' demo_db))
     = (Ok CurrentlyMutedResponse, w') \<and> forum (w_db w') = forum demo_db"
proof -
  let ?b = "bput [DBUSERS, ''bob''] ''muted'' ''permanent'' demo_db"
  note s = goodD(1)[OF demo_db]
  have n: "\<not> dbis demo_db ([DBUSERS, ''bob''] @ [''muted''])" using schema_top[OF s] by simp
  have s': "schema demo_env ?b"
    by (rule put_user_field[OF s demo_fields(2)]) (simp add: muted_ok_def PERMANENTLYMUTED_def)
  have "session_user ?b demo_fp = ''bob''" "session_muted ?b demo_fp demo_time"
    using demo_fields n by (simp_all add: session_user_def session_muted_def muted_at_def PERMANENTLYMUTED_def)
  moreover have "forum ?b = forum demo_db"
    by (rule forum_cong) (auto simp: bput_def b_bucket_upd[where A = "{DBUSERS}"] simp del: b_upd.simps)
  ultimately show ?thesis
    using posting_rejected[of demo_env "demo_world ?b" "NewPostHandler demo_env demo_post (Some demo_conn)" demo_post demo_conn] s'
    by auto
qed

text \<open>
  C22: a moderator's \<open>lock\<close> or \<open>unlock\<close> sets or clears the lock of that thread and nothing else of the forum, says so
  if there is no such thread, and leaves the command in the log under the time it was given.
\<close>
theorem lock_command:
  assumes "schema E (w_db w)" "clock_ok (w_clock w)" "length u \<le> UsernameMaxLength" "length c \<le> MaxValueSize - 50"
    and "strings_fields c = [if l then ''lock'' else ''unlock'', t]"
  shows "\<exists>w'. ConsoleCommand E u p c w =
        (Ok (if forum (w_db w) t = None then (''Thread not found.'', TemporaryFailure)
             else (if l then ''thread has been locked.'' else ''thread has been unlocked.'', Success)), w')
     \<and> forum (w_db w') = forum_lock t l (forum (w_db w))
     \<and> dbval (w_db w') [DBCONSOLELOG] (RFC3339Nano (w_clock w 0)) = Some (u @ ''/'' @ priv_string p @ '':'' @ c)"
proof -
  let ?v = "if l then ''1'' else ''0''"
  let ?b = "if dbis (w_db w) [DBALLTHREADS, t] then bput [DBALLTHREADS, t] ''locked'' ?v (w_db w) else w_db w"
  have v: "length ?v \<le> MaxValueSize" by (simp add: MaxValueSize_def)
  have s: "schema E ?b" using put_thread_lock[OF assms(1)] assms(1) by (simp add: flag_ok_def)
  have f: "forum ?b = forum_lock t l (forum (w_db w))"
  proof (cases "forum (w_db w) t")
    case None
    then have "\<not> dbis (w_db w) [DBALLTHREADS, t]" by (simp add: forum_None)
    then show ?thesis using None by (simp add: forum_lock_def fun_upd_idem)
  next
    case (Some a)
    then have "dbis (w_db w) [DBALLTHREADS, t]" by (simp add: forum_def split: if_splits)
    then show ?thesis using lock_forum[OF assms(1), of t ?v] by simp
  qed
  have sw: "console_switch E (strings_fields c) w = (Ok (if forum (w_db w) t = None then (''Thread not found.'', TemporaryFailure)
             else (if l then ''thread has been locked.'' else ''thread has been unlocked.'', Success)), w\<lparr>w_db := ?b\<rparr>)"
    using lock_tx_eq[OF assms(1) v, of t]
    by (auto simp: assms(5) console_switch_def reply_def MuteOrUnmuteThread_def go_bind_def db_update_def go_ret_def forum_None)
  let ?e = "u @ ''/'' @ priv_string p @ '':'' @ c" and ?k = "RFC3339Nano (w_clock w 0)"
  have lg: "log_tx u p c (w\<lparr>w_db := ?b\<rparr>) = (Ok (), w\<lparr>w_db := bput [DBCONSOLELOG] ?k ?e ?b, w_clock := \<lambda>n. w_clock w (Suc n)\<rparr>)"
    using log_tx_eq[of E "w\<lparr>w_db := ?b\<rparr>" u c p] s assms(2-4) by simp
  have c: "confined {DBCONSOLELOG} (log_tx u p c)" by simp
  have "forum (bput [DBCONSOLELOG] ?k ?e ?b) = forum ?b" using confined_forum[OF c lg] by simp
  moreover have "dbval (bput [DBCONSOLELOG] ?k ?e ?b) [DBCONSOLELOG] ?k = Some ?e"
    using schema_top[OF s] by simp
  ultimately show ?thesis
    using lg f by (simp add: ConsoleCommand_def sw LogConsoleCommand_def go_bind_def db_update_def go_ret_def)
qed

theorem lock_command_witness:
  "\<exists>w'. ConsoleCommand demo_env ''root'' Admin (''lock '' @ itob 1) (demo_world demo_db) = (Ok (''thread has been locked.'', Success), w')
     \<and> map_option at_locked (forum (w_db w') (itob 1)) = Some True"
proof -
  have f: "strings_fields (''lock '' @ itob 1) = [''lock'', itob 1]" by code_simp
  then show ?thesis
    using lock_command[of demo_env "demo_world demo_db" "''root''" "''lock '' @ itob 1" True "itob 1" Admin] goodD(1)[OF demo_db]
    by (auto simp: UsernameMaxLength_def MaxValueSize_def demo_forum forum_lock_def)
qed

end
