(* ===== verification/Simulation.thy ===== *)
theory Simulation imports Demo begin

text \<open>
  The whole server as an implementation of the forum: every step of the server is a
  step of the abstract forum, or leaves it alone.
\<close>

inductive forum_step :: "(bytes \<Rightarrow> athread option) \<Rightarrow> (bytes \<Rightarrow> athread option) \<Rightarrow> bool" where
  idle: "forum_step f f"
| post: "f t = Some a \<Longrightarrow> forum_step f (forum_post u t body f)"
| opened: "f t = None \<Longrightarrow> forum_step f (forum_open t s u title body f)"
| lock: "forum_step f (forum_lock t l f)"

lemma handler_forum:
  assumes g: "good E n (w_db w)" "n \<le> 2 ^ 64 - 1" "clock_ok (w_clock w)" "request_ok q" and r: "handler E q c w = (r, w')"
  shows "forum_step (forum (w_db w)) (forum (w_db w'))"
  using r g(3)
proof (cases rule: handler_dispatch)
  case (refused x)
  then show ?thesis by (simp add: idle)
next
  case (served w1)
  have g1: "good E n (w_db w1)" using g(1) served(1) by simp
  show ?thesis
  proof (cases "forum (w_db w') = forum (w_db w1)")
    case True
    then show ?thesis using served(1) by (simp add: idle)
  next
    case False
    show ?thesis
      using dispatch_changes[OF g1 g(2) served(2) g(4) served(3) False]
    proof (elim disjE conjE)
      assume "ConsoleHandler E q (Some c) w1 = (r, w')"
      from Console_changes[OF g1 served(2) this False] show ?thesis using served(1) by (auto intro: lock)
    next
      assume "CreateThreadHandler E q (Some c) w1 = (r, w')"
      from CreateThread_changes[OF g1 g(2) served(2) g(4) this False] show ?thesis using served(1) by (auto intro: opened)
    next
      assume "NewPostHandler E q (Some c) w1 = (r, w')"
      from NewPost_changes[OF g1 g(2) served(2) g(4) this False] show ?thesis using served(1) by (auto intro: post)
    qed
  qed
qed

lemma step_forum:
  assumes "step s s'" "server_ok n s" "n \<le> 2 ^ 64 - 1"
  shows "forum_step (forum (db_of s)) (forum (db_of s'))"
  using assms
proof (induction rule: step.induct)
  case (start E w w')
  then have i: "[] \<notin> set (GetAllSubforumIDs (e_cfg E))" "sound (w_db w)" by (simp_all add: env_ok_def)
  note st = start_schema[OF i(2,1) start.hyps(3)]
  have wf: "b_wf (w_db w)" "b_wf (w_db w')" using i(2) schema_top(1)[OF st(2)] by (simp_all add: sound_def)
  have "thread_posts (w_db w') t = thread_posts (w_db w) t" for t
    unfolding thread_posts_def by (rule values_same[OF wf]) (simp_all add: st)
  then have "forum (w_db w') = forum (w_db w)"
    by (simp add: fun_eq_iff forum_def post_line_def st)
  then show ?case by (simp add: idle)
next
  case (serve u E c w r w')
  then show ?case using handler_forum[OF _ _ _ serve.hyps(1,2)] by (auto simp: env_ok_def)
next
  case (crash u E c w w')
  then show ?case using handler_forum[OF _ _ _ crash.hyps(1,2)] by (auto simp: env_ok_def)
next
  case (typed line E w r w')
  then have "ConsoleCommand E ''*Console*'' Admin line w = (Ok r, w')" by (simp add: OnSTDin_def go_bind_def go_ret_def)
  from ConsoleCommand_changes[OF _ this, of E] typed show ?case
    by (cases "forum (w_db w') = forum (w_db w)") (auto simp: good_def intro: idle lock)
next
  case (indexed w x w' E)
  then have "w_db w' = w_db w" by (auto simp: keywordDBloop_step_def split: option.splits list.splits)
  then show ?case by (simp add: idle)
next
  case (flushed ex w w' E)
  then show ?case using flush_db[OF flushed.hyps(1)] by (simp add: idle)
next
  case (backed_up A E prefix files w r w')
  then show ?case using runBackup_world(1)[OF backed_up.hyps] by (simp add: idle)
qed (simp add: idle)


section \<open>The abstract forum\<close>

text \<open>What a thread keeps over a step: everything but its lock, and more posts at its end.\<close>

definition continues :: "athread \<Rightarrow> athread \<Rightarrow> bool" where
  "continues a a' \<longleftrightarrow> at_title a' = at_title a \<and> at_author a' = at_author a \<and> at_subforum a' = at_subforum a
     \<and> (\<exists>more. at_posts a' = at_posts a @ more)"

lemma forum_step_continues: "forum_step f g \<Longrightarrow> f t = Some a \<Longrightarrow> \<exists>a'. g t = Some a' \<and> continues a a'"
  by (induction rule: forum_step.induct)
     (auto simp: continues_def forum_post_def forum_open_def forum_lock_def)

lemma continues_trans: "continues a b \<Longrightarrow> continues b c \<Longrightarrow> continues a c"
  by (auto simp: continues_def)

lemma steps_forum:
  "steps m s s' \<Longrightarrow> server_ok (Suc n) s \<Longrightarrow> n + m < 2 ^ 64 - 1 \<Longrightarrow> forum (db_of s) t = Some a \<Longrightarrow>
   \<exists>a'. forum (db_of s') t = Some a' \<and> continues a a'"
proof (induction rule: steps.induct)
  case (none s)
  then show ?case by (auto simp: continues_def)
next
  case (more m s s' s'')
  obtain a' where a: "forum (db_of s') t = Some a'" "continues a a'" using more.IH more.prems by auto
  have "server_ok (Suc (n + m)) s'" using steps_ok[OF more.hyps(1) more.prems(1)] more.prems(2) by simp
  then have "forum_step (forum (db_of s')) (forum (db_of s''))"
    using step_forum[OF more.hyps(2)] more.prems(2) by simp
  from forum_step_continues[OF this a(1)] a(2) show ?case using continues_trans by blast
qed

lemma demo_server: "server_ok 3 (Up demo_env (demo_world demo_db))"
  using demo_db by simp

lemma demo_step: obtains w' where "step (Up demo_env (demo_world demo_db)) (Up demo_env w')"
    "map_option at_posts (forum (w_db w') (itob 1)) = Some [(''bob'', ''first''), (''root'', ''second''), (''bob'', ''third'')]"
proof -
  obtain w' where w': "dispatch demo_env demo_post demo_conn (demo_world demo_db) = (Ok (Response RedirectTemporary (''/thread/'' @ itob 1 @ ''/'')), w')"
    "map_option at_posts (forum (w_db w') (itob 1)) = Some [(''bob'', ''first''), (''root'', ''second''), (''bob'', ''third'')]"
    by (rule demo_posted)
  have "split_host_port (cn_remote demo_conn) = Inr ''127.0.0.1''" by code_simp
  then have "handler demo_env demo_post demo_conn (demo_world demo_db) = (Ok (Response RedirectTemporary (''/thread/'' @ itob 1 @ ''/'')), w')"
    using w'(1) by (simp add: handler_def)
  then have "step (Up demo_env (demo_world demo_db)) (Up demo_env w')"
    by (rule step.serve[rotated]) (simp add: request_ok_def demo_post_def)
  with that w'(2) show ?thesis by blast
qed

text \<open>
  C1: the server refines the abstract forum: every step, whether a request, a console line, background
  work, a start, a stop or a crash, acts on the stored forum as a new post in an existing thread, a
  new thread under an unused number, a lock or nothing.
\<close>
theorem server_refines_forum:
  assumes "server_ok n s" "n \<le> 2 ^ 64 - 1" "step s s'"
  shows "forum_step (forum (db_of s)) (forum (db_of s'))"
  by (rule step_forum[OF assms(3,1,2)])

theorem server_refines_forum_witness:
  "\<exists>s'. step (Up demo_env (demo_world demo_db)) s' \<and> forum_step (forum demo_db) (forum (db_of s'))
     \<and> map_option at_posts (forum (db_of s') (itob 1)) = Some [(''bob'', ''first''), (''root'', ''second''), (''bob'', ''third'')]"
proof -
  obtain w' where "step (Up demo_env (demo_world demo_db)) (Up demo_env w')"
    "map_option at_posts (forum (w_db w') (itob 1)) = Some [(''bob'', ''first''), (''root'', ''second''), (''bob'', ''third'')]"
    by (rule demo_step)
  then show ?thesis using server_refines_forum[OF demo_server, of "Up demo_env w'"] by (intro exI[of _ "Up demo_env w'"]) simp
qed

text \<open>
  C3: nothing that was written is lost or changed: over any run, restarts and crashes included, a thread keeps its
  title, author and subforum, and its list of posts only grows at its end.
\<close>
theorem nothing_lost:
  assumes "steps m s s'" "server_ok (Suc n) s" "n + m < 2 ^ 64 - 1" "forum (db_of s) t = Some a"
  shows "\<exists>a' more. forum (db_of s') t = Some a' \<and> at_title a' = at_title a \<and> at_author a' = at_author a
     \<and> at_subforum a' = at_subforum a \<and> at_posts a' = at_posts a @ more"
  using steps_forum[OF assms] by (auto simp: continues_def)

theorem nothing_lost_witness:
  "\<exists>s'. steps 2 (Up demo_env (demo_world demo_db)) s'
     \<and> (\<exists>a more. forum (db_of s') (itob 1) = Some a \<and> at_posts a = [(''bob'', ''first''), (''root'', ''second'')] @ more)"
proof -
  obtain w' where "step (Up demo_env (demo_world demo_db)) (Up demo_env w')" by (rule demo_step)
  from steps.more[OF steps.more[OF steps.none this] step.stop]
  have s: "steps 2 (Up demo_env (demo_world demo_db)) (Down (w_db w'))" by (simp add: eval_nat_numeral)
  have "server_ok (Suc 2) (Up demo_env (demo_world demo_db))" using demo_server by (simp add: eval_nat_numeral)
  from nothing_lost[OF s this, of "itob 1"] s show ?thesis by (fastforce simp: demo_forum)
qed

end
