(* ===== verification/Browsing.thy ===== *)
theory Browsing imports Demo begin

text \<open>
  What the readers see, as statements on the forum; and that the keyword index gets
  every post.
\<close>

text \<open>
  C23: looking changes nothing: the home page, the subforum lists, the threads, the searches and the pages leave the
  database exactly as it is.
\<close>
theorem reading_keeps_database:
  assumes "h \<in> {RootHandler E k, PageHandler E q k, SubforumIndexHandler E (RootHandler E k) q k, ThreadViewHandler E q k,
              SearchHandler E q k}"
  shows "w_db (snd (h w)) = w_db w"
proof -
  have "still.keeps (w_db w) h"
    using assms by (auto intro: still.keeps_SubforumIndexHandler)
  then show ?thesis by (simp add: still.keeps_def)
qed

theorem reading_keeps_database_witness:
  "w_db (snd (SearchHandler demo_env \<lparr>u_path = ''/search/'', u_query = ''bob'', u_force = False\<rparr> (Some demo_conn) (demo_world demo_db))) = demo_db"
  using reading_keeps_database[of "SearchHandler demo_env \<lparr>u_path = ''/search/'', u_query = ''bob'', u_force = False\<rparr> (Some demo_conn)"
      demo_env "Some demo_conn" "\<lparr>u_path = ''/search/'', u_query = ''bob'', u_force = False\<rparr>" "demo_world demo_db"] by simp

section \<open>Lists\<close>

lemma subforum_threads:
  assumes s: "schema E b"
  shows "t \<in> set (subforum_ids b s) \<longleftrightarrow> (\<exists>a. forum b t = Some a \<and> at_subforum a = s)"
proof
  assume "t \<in> set (subforum_ids b s)"
  then obtain k where "dbval b [DBSUBFORUMS, s] k = Some t" using subforum_ids_mem[OF s] by blast
  then have "dbval b [DBTHREADTOSF] t = Some s" using refsD(4)[OF schemaD(6)[OF s]] by blast
  moreover from this have "dbis b [DBALLTHREADS, t]" using refsD(5)[OF schemaD(6)[OF s]] by blast
  ultimately show "\<exists>a. forum b t = Some a \<and> at_subforum a = s" by (simp add: forum_def)
next
  assume "\<exists>a. forum b t = Some a \<and> at_subforum a = s"
  then have t: "dbis b [DBALLTHREADS, t]" "str_of (dbval b [DBTHREADTOSF] t) = s" by (auto simp: forum_def split: if_splits)
  then have "thread_ok b t" using schemaD(4)[OF s] by (simp add: threads_ok_def)
  then obtain s' k where "dbval b [DBTHREADTOSF] t = Some s'" "dbval b [DBSUBFORUMS, s'] k = Some t" by (auto simp: thread_ok_def)
  then show "t \<in> set (subforum_ids b s)" using t(2) subforum_ids_mem[OF s] by auto
qed

text \<open>What a list entry says of a thread.\<close>

definition entry_of :: "Thread \<Rightarrow> bytes \<times> bytes \<times> bytes \<times> bool \<times> gtime" where
  "entry_of x = (th_ID x, th_Title x, th_User x, th_Locked x, th_LastModified x)"

lemma thread_info_forum:
  assumes "schema E b" "forum b t = Some a"
  obtains m where "last_changed b t = Some m" "entry_of (thread_info b t) = (t, at_title a, at_author a, at_locked a, m)"
proof -
  have d: "dbis b [DBALLTHREADS, t]" using assms(2) by (simp add: forum_def split: if_splits)
  then have "thread_ok b t" using schemaD(4)[OF assms(1)] by (simp add: threads_ok_def)
  then obtain m where "last_changed b t = Some m" using d by (auto simp: thread_ok_def time_ok_def last_changed_def)
  moreover from this have "entry_of (thread_info b t) = (t, at_title a, at_author a, at_locked a, m)"
    using d assms(2) by (auto simp: forum_def thread_info_def entry_of_def last_changed_def)
  ultimately show ?thesis by (rule that)
qed

text \<open>
  C12: the list of a subforum is complete and in order: it has an entry for exactly the threads of the forum that
  are in this subforum, with their title, author, lock and the time their record was last changed (which a post sets to its own time), the most
  recently changed first.
\<close>
theorem subforum_listing:
  assumes "schema E (w_db w)" "sorter (e_sort E)" "s \<in> set (GetAllSubforumIDs (e_cfg E))"
  shows "\<exists>ts. GetThreadsForSubforum E s w = (Ok (Inr ts), w)
     \<and> entry_of ` set ts = {(t, at_title a, at_author a, at_locked a, m) |t a m. forum (w_db w) t = Some a \<and> at_subforum a = s
          \<and> last_changed (w_db w) t = Some m}
     \<and> sorted_wrt (\<lambda>x y. t_ns (th_LastModified y) \<le> t_ns (th_LastModified x)) ts"
proof -
  let ?ts = "map (thread_info (w_db w)) (subforum_ids (w_db w) s)"
  have d: "dbis (w_db w) [DBSUBFORUMS, s]" using schemaD(1)[OF assms(1)] assms(3) by (auto simp: db_ready_def)
  have g: "GetThreadsForSubforum E s w = (Ok (Inr (sort_threads E ?ts)), w)"
    using subforum_view_eq[OF assms(1), of E s] d by (simp add: GetThreadsForSubforum_def go_bind_def db_view_def go_ret_def)
  note p = sorter.srt_threads[OF assms(2), of ?ts, folded sort_threads_def]
  have "set (sort_threads E ?ts) = set ?ts" using p(1) by (metis set_mset_mset)
  moreover have "entry_of ` set ?ts = {(t, at_title a, at_author a, at_locked a, m) |t a m. forum (w_db w) t = Some a \<and> at_subforum a = s
          \<and> last_changed (w_db w) t = Some m}"
    (is "?L = ?R")
  proof
    show "?L \<subseteq> ?R"
    proof
      fix x assume "x \<in> ?L"
      then obtain t where t: "t \<in> set (subforum_ids (w_db w) s)" "x = entry_of (thread_info (w_db w) t)" by auto
      then obtain a where a: "forum (w_db w) t = Some a" "at_subforum a = s" using subforum_threads[OF assms(1)] by blast
      obtain m where "last_changed (w_db w) t = Some m" "x = (t, at_title a, at_author a, at_locked a, m)"
        by (rule thread_info_forum[OF assms(1) a(1)]) (simp add: t(2))
      then show "x \<in> ?R" using a by blast
    qed
    show "?R \<subseteq> ?L"
    proof
      fix x assume "x \<in> ?R"
      then obtain t a m where t: "x = (t, at_title a, at_author a, at_locked a, m)" "forum (w_db w) t = Some a" "at_subforum a = s"
        "last_changed (w_db w) t = Some m" by blast
      then have "t \<in> set (subforum_ids (w_db w) s)" using subforum_threads[OF assms(1)] by blast
      moreover have "x = entry_of (thread_info (w_db w) t)"
        by (rule thread_info_forum[OF assms(1) t(2)]) (simp add: t(1,4))
      ultimately show "x \<in> ?L" by force
    qed
  qed
  moreover have "sorted_wrt (\<lambda>x y. t_ns (th_LastModified y) \<le> t_ns (th_LastModified x)) (sort_threads E ?ts)"
    by (rule sorted_wrt_mono_rel[OF _ p(2)]) (simp add: Less_def t_before_def)
  ultimately show ?thesis using g by auto
qed

theorem subforum_listing_witness:
  "\<exists>ts m. GetThreadsForSubforum demo_env ''gen'' (demo_world demo_db) = (Ok (Inr ts), demo_world demo_db)
     \<and> (itob 1, ''Hello'', ''bob'', False, m) \<in> entry_of ` set ts \<and> last_changed demo_db (itob 1) = Some m"
proof -
  have "sorter (e_sort demo_env)" using isort.sorter_axioms by simp
  from subforum_listing[of demo_env "demo_world demo_db" "''gen''", OF _ this] goodD(1)[OF demo_db]
  obtain ts where ts: "GetThreadsForSubforum demo_env ''gen'' (demo_world demo_db) = (Ok (Inr ts), demo_world demo_db)"
    "entry_of ` set ts = {(t, at_title a, at_author a, at_locked a, m) |t a m. forum demo_db t = Some a \<and> at_subforum a = ''gen''
       \<and> last_changed demo_db t = Some m}" by auto
  obtain m where m: "last_changed demo_db (itob 1) = Some m"
    by (rule thread_info_forum[OF goodD(1)[OF demo_db] demo_forum(2)])
  then have "(itob 1, ''Hello'', ''bob'', False, m) \<in> entry_of ` set ts"
    unfolding ts(2) using demo_forum(2) by fastforce
  then show ?thesis using ts(1) m by blast
qed


section \<open>Threads\<close>

lemma map_go_all:
  assumes "\<And>x w. \<exists>y w'. f x w = (Ok y, w') \<and> P x y"
  shows "\<exists>ys w'. map_go f xs w = (Ok ys, w') \<and> list_all2 P xs ys"
proof (induction xs arbitrary: w)
  case (Cons x xs)
  obtain y w1 where "f x w = (Ok y, w1)" "P x y" using assms by blast
  moreover obtain ys w2 where "map_go f xs w1 = (Ok ys, w2)" "list_all2 P xs ys" using Cons by blast
  ultimately show ?case by (auto simp: go_bind_def go_ret_def)
qed (simp add: go_ret_def)

text \<open>A post on its thread's page: the author, a line to report it, and the text as quoted lines.\<close>

definition post_shown :: "env \<Rightarrow> bytes \<times> bytes \<Rightarrow> lines \<Rightarrow> bool" where
  "post_shown E p ls \<longleftrightarrow> (\<exists>x. ls = [Header3Prefix @ DisplayUsernameAuto (e_cfg E) (fst p), LinkPrefix @ ''/report/'' @ x]
      @ map (\<lambda>l. QuotePrefix @ l) (GetLinesOfPost (snd p)) @ [[]])"

lemma post_lines_shown: "\<exists>ls w'. post_lines E (i, p) w = (Ok ls, w') \<and> post_shown E (p_Author p, p_Text p) ls"
proof -
  obtain tm w1 where "TimeFormatForPost (p_Time p) w = (Ok tm, w1)"
    by (cases "t_sub (w_clock w 0) (p_Time p) < hours 24") (auto simp: TimeFormatForPost_def time_since_def go_simps)
  then show ?thesis by (simp add: post_lines_def go_bind_def go_ret_def post_shown_def)
qed

lemma viewer_priv_run:
  assumes "db_ready E (w_db w)"
  obtains p c where "viewer_priv E k w = (Ok p, w\<lparr>w_clock := c\<rparr>)"
proof (cases "GetFingerprint k")
  case None
  then show ?thesis using that[of User "w_clock w"] by (simp add: viewer_priv_def go_ret_def)
next
  case (Some fp)
  then show ?thesis
    using that by (cases rule: GetUsernameFromFP_eq[OF assms, of fp]) (simp add: viewer_priv_def go_bind_def go_ret_def)
qed

lemma posts_shown:
  obtains ls w' where "map_go (post_lines E) (zip [0..<length ps] ps) w = (Ok ls, w')"
    "list_all2 (post_shown E) (map (\<lambda>p. (p_Author p, p_Text p)) ps) ls"
proof -
  let ?g = "\<lambda>x :: nat \<times> Post. (p_Author (snd x), p_Text (snd x))"
  have "\<exists>y w'. post_lines E x w = (Ok y, w') \<and> post_shown E (?g x) y" for x w
    using post_lines_shown[of E "fst x" "snd x"] by simp
  from map_go_all[where f = "post_lines E" and P = "\<lambda>x. post_shown E (?g x)", OF this]
  obtain ls w' where ls: "map_go (post_lines E) (zip [0..<length ps] ps) w = (Ok ls, w')"
    "list_all2 (\<lambda>x. post_shown E (?g x)) (zip [0..<length ps] ps) ls" by blast
  have "list_all2 (post_shown E) (map ?g (zip [0..<length ps] ps)) ls" using ls(2) by (simp only: list.rel_map)
  moreover have "map ?g (zip [0..<length ps] ps) = map (\<lambda>p. (p_Author p, p_Text p)) ps" by (rule nth_equalityI) simp_all
  ultimately show ?thesis using that ls(1) by simp
qed

text \<open>
  C18: the page of a thread shows the thread: the title, then every post in the order they were written, under its
  author's name and with its text in quoted lines, the links for answering between which it stands being those for the
  reader's level; a missing thread is not found.
\<close>
theorem thread_page:
  assumes "schema E (w_db w)" "path_parts (u_path q) = a # t # rest"
  shows "\<exists>r w' p. ThreadViewHandler E q k w = (Ok r, w') \<and> fst (viewer_priv E k w) = Ok p \<and>
    (case forum (w_db w) t of
       None \<Rightarrow> r = NotFound
     | Some th \<Rightarrow> \<exists>ls. list_all2 (post_shown E) (at_posts th) ls
         \<and> r = ResponseFormat Success ''text/gemini'' ([HeaderPrefix @ at_title th] @ reply_lines t (at_locked th) p @ [[]]
                 @ concat ls @ reply_lines t (at_locked th) p))"
proof -
  obtain p c where v: "viewer_priv E k w = (Ok p, w\<lparr>w_clock := c\<rparr>)" by (rule viewer_priv_run[OF schemaD(1)[OF assms(1)]])
  have "schema E (w_db (w\<lparr>w_clock := c\<rparr>))" using assms(1) by simp
  note tv = thread_view_eq[OF this, of E t]
  show ?thesis
  proof (cases "forum (w_db w) t")
    case None
    then have "\<not> dbis (w_db w) [DBALLTHREADS, t]" by (simp add: forum_None)
    then show ?thesis using None v tv assms(2)
      by (simp add: ThreadViewHandler_def go_bind_def db_view_def go_ret_def Let_def)
  next
    case (Some th)
    then have t: "dbis (w_db w) [DBALLTHREADS, t]" by (simp add: forum_def split: if_splits)
    let ?ps = "map (post_info (w_db w)) (thread_posts (w_db w) t)"
    have th: "at_title th = str_of (dbval (w_db w) [DBALLTHREADS, t] ''title'')"
      "at_locked th \<longleftrightarrow> dbval (w_db w) [DBALLTHREADS, t] ''locked'' = Some ''1''"
      "at_posts th = map (\<lambda>p. (p_Author p, p_Text p)) ?ps"
      using Some t by (auto simp: forum_def post_line_def post_info_def)
    obtain ls w' where ls: "map_go (post_lines E) (zip [0..<length ?ps] ?ps) (w\<lparr>w_clock := c\<rparr>) = (Ok ls, w')"
      "list_all2 (post_shown E) (at_posts th) ls" unfolding th(3) by (rule posts_shown)
    then show ?thesis
      using Some v tv t assms(2) th(1,2)
      by (intro exI[of _ "ResponseFormat Success ''text/gemini'' ([HeaderPrefix @ at_title th] @ reply_lines t (at_locked th) p @ [[]]
                 @ concat ls @ reply_lines t (at_locked th) p)"] exI[of _ w'] exI[of _ p])
         (auto simp: ThreadViewHandler_def go_bind_def db_view_def go_ret_def Let_def)
  qed
qed

text \<open>
  C19: no text of a user can break out of the quotation: what the page prints for a post is the line of its author, the line of its
  report link, which are the same whatever the text is, the quoted lines and an empty line; and the quoted lines are the lines of the text
  that are not blank, in order, without the spaces around them, each after the quote prefix and without a line break in it.
\<close>
theorem quoted_lines:
  "\<exists>tm w'. \<forall>x. \<exists>qs. post_lines E (i, p\<lparr>p_Text := x\<rparr>) w =
     (Ok ([Header3Prefix @ DisplayUsernameAuto (e_cfg E) (p_Author p), LinkPrefix @ ''/report/'' @ p_ID p @ ''/ '' @ tm]
        @ map (\<lambda>l. QuotePrefix @ l) qs @ [[]]), w')
     \<and> qs = filter (\<lambda>l. l \<noteq> []) (map trim_space (split_byte CHR 0x0A x)) \<and> (\<forall>l \<in> set qs. CHR 0x0A \<notin> set l)"
proof -
  obtain tm w' where t: "TimeFormatForPost (p_Time p) w = (Ok tm, w')"
    by (cases "t_sub (w_clock w 0) (p_Time p) < hours 24") (auto simp: TimeFormatForPost_def time_since_def go_simps)
  have "GetLinesOfPost x = filter (\<lambda>l. l \<noteq> []) (map trim_space (split_byte CHR 0x0A x))" for x
  proof -
    have "trim_space [] = []" by code_simp
    then have "filter (\<lambda>l. l \<noteq> []) (map trim_space (filter (\<lambda>y. y \<noteq> []) ys)) = filter (\<lambda>l. l \<noteq> []) (map trim_space ys)" for ys
      by (induction ys) auto
    then show ?thesis using fields_func_split[of "CHR 0x0A" x] by (simp add: GetLinesOfPost_def byte_def)
  qed
  moreover have "CHR 0x0A \<notin> set (trim_space y)" if "y \<in> set (split_byte CHR 0x0A x)" for x y
    using that set_trim_space split_byte_free by fastforce
  ultimately show ?thesis
    by (intro exI[of _ "tm @ (if i = 0 then '' (click to report)'' else [])"] exI[of _ w'] allI exI conjI refl)
      (auto simp: post_lines_def go_bind_def go_ret_def t)
qed

theorem thread_page_witness:
  "\<exists>r w' ls. ThreadViewHandler demo_env \<lparr>u_path = ''/thread/0000000000000001/'', u_query = [], u_force = False\<rparr> None (demo_world demo_db) = (Ok r, w')
     \<and> r = ResponseFormat Success ''text/gemini'' ([HeaderPrefix @ ''Hello''] @ reply_lines (itob 1) False User @ [[]] @ concat ls
         @ reply_lines (itob 1) False User)
     \<and> length ls = 2 \<and> post_shown demo_env (''root'', ''second'') (ls ! 1)"
proof -
  let ?q = "\<lparr>u_path = ''/thread/0000000000000001/'', u_query = [], u_force = False\<rparr>"
  have p: "path_parts (u_path ?q) = [''thread'', itob 1]" by code_simp
  from thread_page[of demo_env "demo_world demo_db" ?q, OF _ p, of None] goodD(1)[OF demo_db]
  obtain r w' ls where "ThreadViewHandler demo_env ?q None (demo_world demo_db) = (Ok r, w')"
    "list_all2 (post_shown demo_env) [(''bob'', ''first''), (''root'', ''second'')] ls"
    "r = ResponseFormat Success ''text/gemini'' ([HeaderPrefix @ ''Hello''] @ reply_lines (itob 1) False User @ [[]] @ concat ls
       @ reply_lines (itob 1) False User)"
    by (auto simp: demo_forum viewer_priv_def go_ret_def GetFingerprint_def)
  moreover from this(2) have "length ls = 2 \<and> post_shown demo_env (''root'', ''second'') (ls ! 1)"
    by (auto simp: list_all2_Cons1)
  ultimately show ?thesis by blast
qed

theorem quoted_lines_witness:
  "\<exists>author link w'. post_lines demo_env (0, no_post\<lparr>p_Author := ''bob'', p_Text := ''a'' @ [CHR 0x0A] @ ''=> /logout/''\<rparr>) (demo_world demo_db)
     = (Ok [author, link, QuotePrefix @ ''a'', QuotePrefix @ ''=> /logout/'', []], w')"
proof -
  have "filter (\<lambda>l. l \<noteq> []) (map trim_space (split_byte CHR 0x0A (''a'' @ [CHR 0x0A] @ ''=> /logout/''))) = [''a'', ''=> /logout/'']" by code_simp
  then show ?thesis using quoted_lines[of demo_env 0 "no_post\<lparr>p_Author := ''bob''\<rparr>" "demo_world demo_db"] by fastforce
qed

section \<open>Searching\<close>

lemma user_threads_forum:
  assumes s: "schema E b"
  shows "t \<in> set (user_threads b u) \<longleftrightarrow> (\<exists>a. forum b t = Some a \<and> at_author a = u)"
proof
  assume "t \<in> set (user_threads b u)"
  then obtain k where "dbval b [DBUSERTHREADS, u] k = Some t" using user_refs(1)[OF s] by blast
  then have "dbis b [DBALLTHREADS, t]" "dbval b [DBALLTHREADS, t] ''user'' = Some u" using refsD(3)[OF schemaD(6)[OF s]] by blast+
  then show "\<exists>a. forum b t = Some a \<and> at_author a = u" by (simp add: forum_def)
next
  assume "\<exists>a. forum b t = Some a \<and> at_author a = u"
  then have d: "dbis b [DBALLTHREADS, t]" "str_of (dbval b [DBALLTHREADS, t] ''user'') = u" by (auto simp: forum_def split: if_splits)
  then have "thread_ok b t" using schemaD(4)[OF s] by (simp add: threads_ok_def)
  then show "t \<in> set (user_threads b u)" using d(2) user_refs(1)[OF s] by (auto simp: thread_ok_def)
qed

lemma user_posts_lines:
  assumes s: "schema E b"
  shows "p \<in> set (user_posts b u) \<longleftrightarrow> dbis b [DBALLPOSTS, p] \<and> fst (post_line b p) = u"
proof
  assume "p \<in> set (user_posts b u)"
  then obtain k where "dbval b [DBUSERPOSTS, u] k = Some p" using user_refs(2)[OF s] by blast
  then have "dbis b [DBALLPOSTS, p]" "dbval b [DBALLPOSTS, p] ''user'' = Some u" using refsD(2)[OF schemaD(6)[OF s]] by blast+
  then show "dbis b [DBALLPOSTS, p] \<and> fst (post_line b p) = u" by (simp add: post_line_def)
next
  assume d: "dbis b [DBALLPOSTS, p] \<and> fst (post_line b p) = u"
  then have "post_ok b p" using schemaD(5)[OF s] by (simp add: posts_ok_def)
  then show "p \<in> set (user_posts b u)" using d user_refs(2)[OF s] by (auto simp: post_ok_def post_line_def)
qed

lemma user_results:
  assumes s: "schema E b"
  shows "(\<lambda>r. (sr_ID r, sr_Title r, sr_Author r)) ` thread_result b ` set (user_threads b u) =
      {(t, at_title a, u) |t a. forum b t = Some a \<and> at_author a = u}" (is "?f ` _ = ?R")
    "(\<lambda>p. (p_ID p, p_Text p)) ` reply_result b ` set (user_replies b u) =
      {(p, snd (post_line b p)) |p. dbis b [DBALLPOSTS, p] \<and> fst (post_line b p) = u \<and> \<not> opens_thread b p}"
proof -
  have e: "?f (thread_result b t) = (t, at_title a, u)" if "forum b t = Some a" "at_author a = u" for t a
    using that by (auto simp: forum_def thread_result_def split: if_splits)
  show "?f ` thread_result b ` set (user_threads b u) = ?R"
  proof
    show "?f ` thread_result b ` set (user_threads b u) \<subseteq> ?R"
    proof
      fix x assume "x \<in> ?f ` thread_result b ` set (user_threads b u)"
      then obtain t where t: "t \<in> set (user_threads b u)" "x = ?f (thread_result b t)" by blast
      then obtain a where "forum b t = Some a" "at_author a = u" using user_threads_forum[OF s] by blast
      then show "x \<in> ?R" using e[of t a] t(2) by blast
    qed
    show "?R \<subseteq> ?f ` thread_result b ` set (user_threads b u)"
    proof
      fix x assume "x \<in> ?R"
      then obtain t a where t: "x = (t, at_title a, u)" "forum b t = Some a" "at_author a = u" by blast
      then have "t \<in> set (user_threads b u)" using user_threads_forum[OF s] by blast
      then show "x \<in> ?f ` thread_result b ` set (user_threads b u)" using e[OF t(2,3)] t(1) by force
    qed
  qed
  have "(p_ID (reply_result b x), p_Text (reply_result b x)) = (x, snd (post_line b x))" for x
    by (simp add: reply_result_def post_line_def no_post_def)
  then show "(\<lambda>p. (p_ID p, p_Text p)) ` reply_result b ` set (user_replies b u) =
      {(p, snd (post_line b p)) |p. dbis b [DBALLPOSTS, p] \<and> fst (post_line b p) = u \<and> \<not> opens_thread b p}"
    using user_posts_lines[OF s] by (auto simp: image_image user_replies_def)
qed

text \<open>
  C20: the search for a user finds all: exactly the threads the user opened and the answers the user wrote to threads;
  an unknown name is refused.
\<close>
theorem search_by_user:
  assumes "schema E (w_db w)"
  shows "if accounts (w_db w) u = None then SearchUser u w = (Ok (Inl SearchUsernameNotFound), w)
    else \<exists>ts ps. SearchUser u w = (Ok (Inr (ts, ps)), w)
      \<and> (\<lambda>r. (sr_ID r, sr_Title r, sr_Author r)) ` set ts = {(t, at_title a, u) |t a. forum (w_db w) t = Some a \<and> at_author a = u}
      \<and> (\<lambda>p. (p_ID p, p_Text p)) ` set ps = {(p, snd (post_line (w_db w) p)) |p. dbis (w_db w) [DBALLPOSTS, p]
           \<and> fst (post_line (w_db w) p) = u \<and> \<not> opens_thread (w_db w) p}"
proof (cases "accounts (w_db w) u = None")
  case True
  then show ?thesis using search_user_view_eq[OF assms, of u]
    by (simp add: SearchUser_def db_view_def accounts_def split: if_splits)
next
  case False
  let ?ts = "map (thread_result (w_db w)) (rev (user_threads (w_db w) u))"
    and ?ps = "map (reply_result (w_db w)) (rev (user_replies (w_db w) u))"
  have "SearchUser u w = (Ok (Inr (?ts, ?ps)), w)"
    using False search_user_view_eq[OF assms, of u] by (simp add: SearchUser_def db_view_def accounts_def split: if_splits)
  then show ?thesis
    using False user_results[OF assms, of u] by simp
qed


theorem search_by_user_witness:
  "\<exists>ts ps. SearchUser ''bob'' (demo_world demo_db) = (Ok (Inr (ts, ps)), demo_world demo_db)
     \<and> (itob 1, ''Hello'', ''bob'') \<in> (\<lambda>r. (sr_ID r, sr_Title r, sr_Author r)) ` set ts"
proof -
  have "accounts demo_db ''bob'' \<noteq> None" using demo_fields(2) by (simp add: accounts_def)
  then obtain ts ps where r: "SearchUser ''bob'' (demo_world demo_db) = (Ok (Inr (ts, ps)), demo_world demo_db)"
    "(\<lambda>r. (sr_ID r, sr_Title r, sr_Author r)) ` set ts = {(t, at_title a, ''bob'') |t a. forum demo_db t = Some a \<and> at_author a = ''bob''}"
    using search_by_user[of demo_env "demo_world demo_db" "''bob''"] goodD(1)[OF demo_db] by auto
  have "(itob 1, ''Hello'', ''bob'') \<in> (\<lambda>r. (sr_ID r, sr_Title r, sr_Author r)) ` set ts"
    unfolding r(2) using demo_forum(2) by fastforce
  then show ?thesis using r(1) by blast
qed

text \<open>
  A keyword search shows the stored posts: of the hits of the index, in its order, those that are still posts
  of the database, with the author and the text that are stored, not those that were indexed.
\<close>
theorem keyword_search:
  assumes "schema E (w_db w)" "DoKeywordSearch E words = Inr ids"
    and "u_query q \<noteq> []" "query_unescape (u_query q) = Inr words" "\<not> (2 \<le> length words \<and> hd words = CHR ''@'')"
  shows "\<exists>ps. SearchHandler E q k w = (Ok (ResponseFormat Success ''text/gemini''
            (line_header 1 (''Results for keywords '' @ words) @ concat (map post_result_lines ps))), w)
     \<and> map (\<lambda>p. (p_ID p, p_Author p, p_Text p)) ps =
         map (\<lambda>p. (p, post_line (w_db w) p)) (filter (\<lambda>p. dbis (w_db w) [DBALLPOSTS, p]) ids)"
proof -
  have "SearchHandler E q k w = (Ok (ResponseFormat Success ''text/gemini''
      (line_header 1 (''Results for keywords '' @ words)
       @ concat (map post_result_lines (map (found_post (w_db w)) (filter (\<lambda>p. dbis (w_db w) [DBALLPOSTS, p]) ids))))), w)"
    using assms(2-) keyword_view_eq[OF assms(1), of ids] by (auto simp: SearchHandler_def go_bind_def db_view_def go_ret_def)
  moreover have "(p_ID (found_post b x), p_Author (found_post b x), p_Text (found_post b x)) = (x, post_line b x)" for b x
    by (simp add: found_post_def reply_result_def post_line_def no_post_def)
  ultimately show ?thesis
    by (intro exI[of _ "map (found_post (w_db w)) (filter (\<lambda>p. dbis (w_db w) [DBALLPOSTS, p]) ids)"]) simp
qed

theorem keyword_search_witness:
  "\<exists>ps. SearchHandler (demo_env\<lparr>e_search := (\<lambda>q. Inr [itob 2, itob 9])\<rparr>) \<lparr>u_path = ''/search/'', u_query = ''second'', u_force = False\<rparr> None (demo_world demo_db)
     = (Ok (ResponseFormat Success ''text/gemini'' (line_header 1 ''Results for keywords second'' @ concat (map post_result_lines ps))), demo_world demo_db)
     \<and> set (map p_ID ps) \<subseteq> {itob 2, itob 9}"
proof -
  let ?E = "demo_env\<lparr>e_search := (\<lambda>q. Inr [itob 2, itob 9])\<rparr>"
  let ?q = "\<lparr>u_path = ''/search/'', u_query = ''second'', u_force = False\<rparr>"
  have s: "schema ?E (w_db (demo_world demo_db))"
    using goodD(1)[OF demo_db] by (simp add: schema_def db_ready_def)
  have u: "query_unescape (u_query ?q) = Inr ''second''" by code_simp
  from keyword_search[OF s _ _ u, of "[itob 2, itob 9]" None] obtain ps where
    "SearchHandler ?E ?q None (demo_world demo_db) = (Ok (ResponseFormat Success ''text/gemini''
       (line_header 1 ''Results for keywords second'' @ concat (map post_result_lines ps))), demo_world demo_db)"
    "map (\<lambda>p. (p_ID p, p_Author p, p_Text p)) ps = map (\<lambda>p. (p, post_line demo_db p)) (filter (\<lambda>p. dbis demo_db [DBALLPOSTS, p]) [itob 2, itob 9])"
    by (auto simp: DoKeywordSearch_def)
  moreover from arg_cong[OF this(2), of "\<lambda>l. set (map fst l)"] have "set (map p_ID ps) \<subseteq> {itob 2, itob 9}"
    by (auto simp: image_image split: if_splits)
  ultimately show ?thesis by blast
qed

text \<open>
  C21: repopulating the keyword index indexes every stored post once, under its own number, with its author, text and
  thread, and nothing else.
\<close>
theorem repopulate_all:
  assumes "schema E (w_db w)"
  shows "\<exists>l. repopulate w = (Ok (Inr l), w) \<and> distinct (map fst l)
     \<and> set l = {(p, \<lparr>kw_author = fst (post_line (w_db w) p), kw_text = snd (post_line (w_db w) p), kw_id = p,
                     kw_thread = post_thread (w_db w) p\<rparr>) |p. dbis (w_db w) [DBALLPOSTS, p]}"
proof -
  let ?b = "w_db w" and ?kvs = "dbcur (w_db w) [DBALLPOSTS]"
  note top = schema_top[OF assms]
  have key: "k \<in> fst ` set ?kvs \<longleftrightarrow> dbis ?b [DBALLPOSTS, k]" for k
  proof -
    have "k \<in> fst ` set ?kvs \<longleftrightarrow> (\<exists>v. cur_entry ?b [DBALLPOSTS] k = Some v)"
      using dbcur_mem[OF top(1), of k _ "[DBALLPOSTS]"] by force
    then show ?thesis using top(2) by (auto simp: cur_entry_def)
  qed
  let ?e = "\<lambda>k. makeKeywordIndex (str_of (dbval ?b [DBALLPOSTS, k] ''user'')) (str_of (dbval ?b [DBALLPOSTS, k] ''text'')) k (post_thread ?b k)"
  let ?l = "map (\<lambda>(k, v). (k, ?e k)) ?kvs"
  have "\<forall>(k, v) \<in> set ?kvs. dbis ?b ([DBALLPOSTS] @ [k])" using key by force
  from index_posts_eq[OF this] have r: "repopulate w = (Ok (Inr ?l), w)"
    using top by (simp add: repopulate_def db_view_def go_simps post_thread_def)
  have e: "?e k = \<lparr>kw_author = fst (post_line ?b k), kw_text = snd (post_line ?b k), kw_id = k, kw_thread = post_thread ?b k\<rparr>"
    if "dbis ?b [DBALLPOSTS, k]" for k
    using post_fields(1,3)[OF assms that] by (simp add: makeKeywordIndex_def post_line_def)
  have "map fst ?l = map fst ?kvs" by (simp add: case_prod_beta comp_def)
  then have "distinct (map fst ?l)" using al_ordered_distinct[OF dbcur_ordered[OF top(1)]] by (simp only:)
  moreover have "set ?l = (\<lambda>k. (k, ?e k)) ` {p. dbis ?b [DBALLPOSTS, p]}"
  proof -
    have "set ?l = (\<lambda>k. (k, ?e k)) ` fst ` set ?kvs" by (force simp: case_prod_beta)
    moreover have "fst ` set ?kvs = {p. dbis ?b [DBALLPOSTS, p]}" using key by blast
    ultimately show ?thesis by simp
  qed
  then have sl: "set ?l = (\<lambda>k. (k, \<lparr>kw_author = fst (post_line ?b k), kw_text = snd (post_line ?b k), kw_id = k,
      kw_thread = post_thread ?b k\<rparr>)) ` {p. dbis ?b [DBALLPOSTS, p]}" (is "_ = ?S")
    unfolding \<open>set ?l = _\<close> by (intro image_cong refl) (simp only: e mem_Collect_eq)
  moreover have "?S = {(p, \<lparr>kw_author = fst (post_line ?b p), kw_text = snd (post_line ?b p), kw_id = p,
      kw_thread = post_thread ?b p\<rparr>) |p. dbis ?b [DBALLPOSTS, p]}" by blast
  ultimately show ?thesis using r sl by (intro exI[of _ ?l] conjI) simp_all
qed

theorem repopulate_all_witness:
  "\<exists>l. repopulate (demo_world demo_db) = (Ok (Inr l), demo_world demo_db)
     \<and> (\<forall>(p, e) \<in> set l. kw_id e = p \<and> dbis demo_db [DBALLPOSTS, p])"
  using repopulate_all[of demo_env "demo_world demo_db"] goodD(1)[OF demo_db] by fastforce

text \<open>
  The indexing loop catches up: with at least as many turns as there are entries in the queue it indexes each of
  them once, in the order they were sent and under its own id, and leaves the queue empty and everything else alone.
\<close>
theorem index_catches_up:
  assumes "w_kw w = Some q" "length q \<le> n"
  shows "keywordDBloop n w = (map (\<lambda>x. (kw_id x, x)) q, w\<lparr>w_kw := Some []\<rparr>)"
  using assms
proof (induction n arbitrary: w q)
  case (Suc n)
  show ?case
  proof (cases q)
    case (Cons x r)
    then show ?thesis using Suc.IH[of "w\<lparr>w_kw := Some r\<rparr>" r] Suc.prems by (simp add: keywordDBloop_step_def)
  qed (use Suc.prems in \<open>simp add: keywordDBloop_step_def\<close>)
qed simp

theorem index_catches_up_witness:
  "\<exists>x. keywordDBloop 5 (demo_world demo_db\<lparr>w_kw := Some [makeKeywordIndex ''bob'' ''hi'' (itob 9) (itob 1)]\<rparr>)
     = ([(itob 9, x)], demo_world demo_db\<lparr>w_kw := Some []\<rparr>)"
  using index_catches_up[of "demo_world demo_db\<lparr>w_kw := Some [makeKeywordIndex ''bob'' ''hi'' (itob 9) (itob 1)]\<rparr>" _ 5]
  by (simp add: makeKeywordIndex_def)

end
