(* ===== verification/Membership.thy ===== *)
theory Membership imports Demo begin

text \<open>
  Accounts and sessions: who gets them, and that nobody else changes them.
\<close>

text \<open>
  C15: registering opens exactly one account: a taken name is refused and changes nothing; otherwise the account is
  there with the hash of the password, not muted, verified only if no mail is sent, and its verification code is
  out and in the mail; no other account, code or session changes.
\<close>
theorem registration:
  assumes "schema E (w_db w)" "u \<noteq> []" "length u \<le> UsernameMaxLength" "length email \<le> MaxValueSize"
    and "e_hash E (w_salt w 0) pw = Inr h" "length h \<le> MaxValueSize"
  shows "if accounts (w_db w) u \<noteq> None
    then \<exists>w'. OnRegister E u email pw w = (Ok (Some ErrUserAlreadyExists), w') \<and> w_db w' = w_db w \<and> w_sent w' = w_sent w
    else \<exists>r w'. OnRegister E u email pw w = (Ok r, w')
      \<and> accounts (w_db w') = (accounts (w_db w))(u \<mapsto> \<lparr>ac_verified = (\<not> smtp_Enabled (c_Smtp (e_cfg E))), ac_hash = h,
            ac_email = email, ac_muted = []\<rparr>)
      \<and> codes (w_db w') = (codes (w_db w))(itob (w_rand w 0) \<mapsto> u) \<and> sessions (w_db w') = sessions (w_db w)
      \<and> (r = None \<and> smtp_Enabled (c_Smtp (e_cfg E)) \<longrightarrow>
           (\<exists>m. w_sent w' = w_sent w @ [m] \<and> ml_Email m = registration_email E email (itob (w_rand w 0))))"
proof (cases "accounts (w_db w) u = None")
  case False
  then show ?thesis using OnRegister_cases(1)[OF assms] by simp
next
  case True
  obtain w1 where w1: "OnRegister E u email pw w = SendEmailOnRegistration E u email (itob (w_rand w 0)) w1"
    "w_db w1 = register_db E u email h (itob (w_rand w 0)) (w_db w)" "w_sent w1 = w_sent w"
    using OnRegister_cases(2)[OF assms True] by blast
  obtain r w' where r: "SendEmailOnRegistration E u email (itob (w_rand w 0)) w1 = (Ok r, w')" "w_db w' = w_db w1"
    "r = None \<and> smtp_Enabled (c_Smtp (e_cfg E)) \<longrightarrow>
       (\<exists>m. w_sent w' = w_sent w1 @ [m] \<and> ml_Email m = registration_email E email (itob (w_rand w 0)))"
  proof (cases "smtp_Enabled (c_Smtp (e_cfg E))")
    case False
    then show ?thesis using that by (simp add: SendEmailOnRegistration_def go_ret_def)
  next
    case True
    then show ?thesis
      using that sendEmail_sent[of E "registration_email E email (itob (w_rand w 0))" w1] by (auto simp: SendEmailOnRegistration_def)
  qed
  have "\<not> dbis (w_db w) [DBUSERS, u]" using True by (simp add: accounts_def split: if_splits)
  from register_accounts[OF assms(1) this] show ?thesis using True w1 r by simp
qed

text \<open>
  C16: a verification code works once: it verifies the account it was made for and is gone; an unknown code, so a
  used one, is refused and changes nothing.
\<close>
theorem verification:
  assumes "schema E (w_db w)" "path_parts (u_path q) = [a, code]"
  shows "case codes (w_db w) code of
      None \<Rightarrow> VerifyUserHandler E q c w = (Ok (ErrorResponse BadRequest UserNotFound), w)
    | Some u \<Rightarrow> \<exists>w'. VerifyUserHandler E q c w = (Ok (Response RedirectTemporary ''/''), w')
        \<and> accounts (w_db w') = acc_upd u (\<lambda>a. a\<lparr>ac_verified := True\<rparr>) (accounts (w_db w)) \<and> accounts (w_db w) u \<noteq> None
        \<and> codes (w_db w') = (codes (w_db w))(code := None)
        \<and> sessions (w_db w') = sessions (w_db w)
        \<and> VerifyUserHandler E q c w' = (Ok (ErrorResponse BadRequest UserNotFound), w')"
proof (cases "codes (w_db w) code")
  case None
  then show ?thesis using Verify_cases[OF assms] by simp
next
  case (Some u)
  let ?w = "w\<lparr>w_db := bdel [DBVALIDATION] code (bput [DBUSERS, u] ''verified'' ''1'' (w_db w))\<rparr>"
  note v = verify_accounts[OF assms(1) Some]
  have "schema E (w_db ?w)"
    using put_user_field[OF assms(1) v(4), of "''verified''" "''1''"] delete_keeps by (simp add: flag_ok_def)
  from Verify_cases[OF this assms(2)] have "VerifyUserHandler E q c ?w = (Ok (ErrorResponse BadRequest UserNotFound), ?w)"
    using v(2) by simp
  then show ?thesis using Some Verify_cases[OF assms] v by (auto simp: accounts_def)
qed

text \<open>
  C17: logging in needs the password of a verified account, and then gives the certificate the session of that account
  and nothing else; in every other case nothing changes.
\<close>
theorem login:
  assumes "schema E (w_db w)" "GetFingerprint c = Some fp" "path_parts (u_path q) = [a, name]" "query_unescape name = Inr u"
    and "u_query q \<noteq> []" "query_unescape (u_query q) = Inr pass"
  shows "if \<exists>acc. accounts (w_db w) u = Some acc \<and> ac_verified acc \<and> e_compare E (ac_hash acc) pass = None
    then \<exists>w'. LoginUserHandler E q c w = (Ok (Response RedirectTemporary ''/''), w')
      \<and> sessions (w_db w') = (sessions (w_db w))(fp \<mapsto> u) \<and> session_user (w_db w') fp = u
      \<and> accounts (w_db w') = accounts (w_db w) \<and> codes (w_db w') = codes (w_db w)
    else \<exists>r. LoginUserHandler E q c w = (Ok r, w) \<and> resp_status r = Some BadRequest"
proof -
  note L = Login_cases[OF assms] and S = session_accounts(1-3)[OF assms(1), where fp = fp and u = u]
  have "session_user (bput [DBFP] fp u (w_db w)) fp = u" if "accounts (w_db w) u \<noteq> None"
    using that S by (auto simp: session_user_is)
  then show ?thesis
    using L S by (cases "accounts (w_db w) u") (auto simp: Response_def ErrorResponse_def)
qed

text \<open>
  Logging out ends the session of that certificate and no other.
\<close>
theorem logout:
  assumes "schema E (w_db w)" "GetFingerprint c = Some fp"
  shows "\<exists>w'. LogoutUserHandler E q c w = (Ok (Response RedirectTemporary ''/''), w')
     \<and> sessions (w_db w') = (sessions (w_db w))(fp := None) \<and> session_user (w_db w') fp = []
     \<and> accounts (w_db w') = accounts (w_db w) \<and> codes (w_db w') = codes (w_db w)"
proof (cases "dbval (w_db w) [DBFP] fp")
  case None
  then show ?thesis
    using logout_tx_eq[OF assms(1), of fp] assms(2)
    by (simp add: LogoutUserHandler_def go_bind_def db_update_def go_ret_def sessions_def session_user_def fun_upd_idem)
next
  case (Some u)
  have "session_user (bdel [DBFP] fp (w_db w)) fp = []"
    using session_accounts(6)[OF assms(1)] by (simp add: session_user_is)
  then show ?thesis
    using Some logout_tx_eq[OF assms(1), of fp] assms(2) session_accounts(4-6)[OF assms(1)]
    by (simp add: LogoutUserHandler_def go_bind_def db_update_def go_ret_def)
qed


theorem registration_witness:
  "\<exists>r w'. OnRegister demo_env ''eve'' ''e@x'' ''password3'' (demo_world demo_db) = (Ok r, w')
     \<and> accounts (w_db w') ''eve'' = Some \<lparr>ac_verified = True, ac_hash = demo_hash ''password3'', ac_email = ''e@x'', ac_muted = []\<rparr>
     \<and> accounts (w_db w') ''bob'' = accounts demo_db ''bob''"
proof -
  have "length (demo_hash ''password3'') = 60" by (simp add: demo_hash_def)
  then show ?thesis
    using registration[of demo_env "demo_world demo_db" "''eve''" "''e@x''" "''password3''" "demo_hash ''password3''"]
      goodD(1)[OF demo_db] demo_accounts by (auto simp: UsernameMaxLength_def MaxValueSize_def)
qed

theorem verification_witness:
  "\<exists>w'. VerifyUserHandler demo_env \<lparr>u_path = ''/verify/0000000000000008/'', u_query = [], u_force = False\<rparr> None (demo_world demo_db)
      = (Ok (Response RedirectTemporary ''/''), w') \<and> codes (w_db w') (itob 8) = None"
proof -
  let ?q = "\<lparr>u_path = ''/verify/0000000000000008/'', u_query = [], u_force = False\<rparr>"
  have p: "path_parts (u_path ?q) = [''verify'', itob 8]" by code_simp
  from verification[of demo_env "demo_world demo_db" ?q, OF _ p, of None] show ?thesis
    using goodD(1)[OF demo_db] demo_accounts(3) by auto
qed

theorem login_witness:
  "\<exists>w'. LoginUserHandler demo_env \<lparr>u_path = ''/login/bob/'', u_query = ''password2'', u_force = False\<rparr> (Some demo_conn) (demo_world demo_db)
      = (Ok (Response RedirectTemporary ''/''), w') \<and> session_user (w_db w') demo_fp = ''bob''"
proof -
  let ?q = "\<lambda>p. \<lparr>u_path = ''/login/bob/'', u_query = p, u_force = False\<rparr>"
  have p: "path_parts (u_path (?q x)) = [''login'', ''bob'']" for x by (simp, code_simp)
  have q: "query_unescape ''bob'' = Inr ''bob''" "query_unescape (u_query (?q ''password2'')) = Inr ''password2''" by code_simp+
  from login[of demo_env "demo_world demo_db" "Some demo_conn" demo_fp "?q ''password2''", OF _ _ p q(1) _ q(2)]
  show "\<exists>w'. LoginUserHandler demo_env (?q ''password2'') (Some demo_conn) (demo_world demo_db)
      = (Ok (Response RedirectTemporary ''/''), w') \<and> session_user (w_db w') demo_fp = ''bob''"
    using goodD(1)[OF demo_db] demo_accounts(1) by auto
qed

theorem logout_witness:
  "\<exists>w'. LogoutUserHandler demo_env demo_post (Some demo_conn) (demo_world demo_db) = (Ok (Response RedirectTemporary ''/''), w')
     \<and> session_user (w_db w') demo_fp = []"
  using logout[of demo_env "demo_world demo_db" "Some demo_conn" demo_fp demo_post] goodD(1)[OF demo_db] by auto

text \<open>
  C5: nobody gets a session without the password: whatever the request, the sessions only change for the
  certificate it was made with, by logging out, or by logging in with the password of a verified account.
\<close>
theorem sessions_authorised:
  assumes "schema E (w_db w)" "dispatch E q c w = (r, w')" "sessions (w_db w') \<noteq> sessions (w_db w)"
  shows "\<exists>fp. GetFingerprint (Some c) = Some fp \<and>
    (has_prefix (u_path q) ''/logout/'' \<and> sessions (w_db w') = (sessions (w_db w))(fp := None)
     \<or> has_prefix (u_path q) ''/login/'' \<and>
        (\<exists>u pass acc. query_unescape (u_query q) = Inr pass \<and> accounts (w_db w) u = Some acc \<and> ac_verified acc
           \<and> e_compare E (ac_hash acc) pass = None \<and> sessions (w_db w') = (sessions (w_db w))(fp \<mapsto> u)))"
  using dispatch_sessions[OF assms]
proof (elim disjE conjE)
  assume p: "has_prefix (u_path q) ''/logout/''" and r: "LogoutUserHandler E q (Some c) w = (r, w')"
  obtain fp where fp: "GetFingerprint (Some c) = Some fp"
    using r assms(3) by (cases "GetFingerprint (Some c)") (auto simp: LogoutUserHandler_def go_ret_def)
  then have "w_db w' = bdel [DBFP] fp (w_db w)"
    using r assms(3) logout_tx_eq[OF assms(1), of fp]
    by (auto simp: LogoutUserHandler_def go_bind_def db_update_def go_ret_def split: if_splits)
  then show ?thesis using fp p session_accounts(6)[OF assms(1)] by auto
next
  assume p: "has_prefix (u_path q) ''/login/''" and r: "LoginUserHandler E q (Some c) w = (r, w')"
  obtain fp where fp: "GetFingerprint (Some c) = Some fp"
    using r assms(3) by (cases "GetFingerprint (Some c)") (auto simp: LoginUserHandler_def go_ret_def)
  have f: "db_view (user_found_view x) w = (y, w1) \<Longrightarrow> sessions (w_db w1) = sessions (w_db w)" for x y w1
    using db_view_db[of "user_found_view x" w] by simp
  have l: "length (path_parts (u_path q)) = 2"
  proof (rule ccontr)
    assume "length (path_parts (u_path q)) \<noteq> 2"
    then show False using r fp assms(3) f
      by (auto simp: LoginUserHandler_def Let_def go_bind_def go_ret_def split: if_splits sum.splits prod.splits res.splits)
  qed
  then obtain a name where parts: "path_parts (u_path q) = [a, name]" by (auto simp: length_Suc_conv numeral_2_eq_2)
  obtain u pass where u: "query_unescape name = Inr u" "u_query q \<noteq> []" "query_unescape (u_query q) = Inr pass"
    using r fp parts assms(3)
    by (cases "u_query q = []"; cases "query_unescape name"; cases "query_unescape (u_query q)")
       (auto simp: LoginUserHandler_def Let_def go_ret_def)
  note L = Login_cases[OF assms(1) fp parts u]
  obtain acc where "accounts (w_db w) u = Some acc" "ac_verified acc" "e_compare E (ac_hash acc) pass = None"
    "w_db w' = bput [DBFP] fp u (w_db w)"
    using L r assms(3) by (auto split: option.splits if_splits)
  then show ?thesis using fp p u(3) session_accounts(3)[OF assms(1)] by auto
qed

text \<open>
  C14: accounts only ever change in three ways: a registration adds one under a name that no account has (and none had,
  up to the case of letters, when it was checked), a verification code verifies the one it was made for, and a moderator mutes or
  unmutes one.  No request removes an account or changes its password or address.
\<close>
theorem accounts_authorised:
  assumes "schema E (w_db w)" "clock_ok (w_clock w)" "request_ok q" "hash_ok E"
    and "dispatch E q c w = (r, w')" "accounts (w_db w') \<noteq> accounts (w_db w)"
  shows "has_prefix (u_path q) ''/register/'' \<and> (\<exists>u a. accounts (w_db w) u = None \<and> (e_db E \<longrightarrow> free_name E (w_db w) u)
            \<and> accounts (w_db w') = (accounts (w_db w))(u \<mapsto> a))
    \<or> has_prefix (u_path q) ''/verify/'' \<and> (\<exists>code u. codes (w_db w) code = Some u
            \<and> accounts (w_db w') = acc_upd u (\<lambda>a. a\<lparr>ac_verified := True\<rparr>) (accounts (w_db w)))
    \<or> has_prefix (u_path q) ''/console/'' \<and> (\<exists>fp u v. GetFingerprint (Some c) = Some fp
            \<and> Is (config_priv (e_cfg E) (session_user (w_db w) fp)) Mod
            \<and> accounts (w_db w') = acc_upd u (\<lambda>a. a\<lparr>ac_muted := v\<rparr>) (accounts (w_db w)))"
  using dispatch_accounts[OF assms(1,5,6)]
proof (elim disjE conjE)
  assume p: "has_prefix (u_path q) ''/register/''" and r: "RegisterUserHandler E q (Some c) w = (r, w')"
  show ?thesis using p RegisterUserHandler_accounts[OF assms(1,3,4) r assms(6)] by blast
next
  assume p: "has_prefix (u_path q) ''/verify/''" and r: "VerifyUserHandler E q (Some c) w = (r, w')"
  have "length (path_parts (u_path q)) = 2"
    using r assms(6) by (auto simp: VerifyUserHandler_def Let_def go_ret_def split: if_splits)
  then obtain a code where "path_parts (u_path q) = [a, code]" by (auto simp: length_Suc_conv numeral_2_eq_2)
  from Verify_cases[OF assms(1) this, of "Some c"] r assms(6) obtain u where u: "codes (w_db w) code = Some u"
    "w_db w' = bdel [DBVALIDATION] code (bput [DBUSERS, u] ''verified'' ''1'' (w_db w))" by (auto split: option.splits)
  then show ?thesis using p verify_accounts(1)[OF assms(1) u(1)] by auto
next
  assume p: "has_prefix (u_path q) ''/console/''" and r: "ConsoleHandler E q (Some c) w = (r, w')"
  show ?thesis using p Console_accounts[OF assms(1,2) r assms(6)] by blast
qed


theorem sessions_authorised_witness:
  "\<exists>w'. dispatch demo_env \<lparr>u_path = ''/logout/'', u_query = [], u_force = False\<rparr> demo_conn (demo_world demo_db)
      = (Ok (Response RedirectTemporary ''/''), w') \<and> sessions (w_db w') = (sessions demo_db)(demo_fp := None)"
proof -
  let ?q = "\<lparr>u_path = ''/logout/'', u_query = [], u_force = False\<rparr>" and ?w = "demo_world demo_db"
  have x: "\<not> has_prefix ''/logout/'' ''/register/''" "\<not> has_prefix ''/logout/'' ''/login/''"
    "has_prefix ''/logout/'' ''/logout/''" by code_simp+
  obtain w' where w': "dispatch demo_env ?q demo_conn ?w = (Ok (Response RedirectTemporary ''/''), w')"
    "w_db w' = bdel [DBFP] demo_fp demo_db"
    using logout_tx_eq[of demo_env ?w demo_fp] goodD(1)[OF demo_db] demo_fields
    by (simp add: dispatch_def Let_def x LogoutUserHandler_def go_bind_def db_update_def go_ret_def)
  have "sessions (w_db w') \<noteq> sessions (w_db ?w)"
  proof
    assume "sessions (w_db w') = sessions (w_db ?w)"
    then have "sessions (w_db w') demo_fp = sessions demo_db demo_fp" by simp
    then show False using w'(2) session_accounts(6)[OF goodD(1)[OF demo_db], of demo_fp] demo_fields by (simp add: sessions_def)
  qed
  from sessions_authorised[OF _ w'(1) this] x goodD(1)[OF demo_db] have "sessions (w_db w') = (sessions demo_db)(demo_fp := None)"
    by auto
  then show ?thesis using w' by blast
qed

theorem accounts_authorised_witness:
  "\<exists>a. accounts (w_db (snd (dispatch demo_env demo_register demo_conn demo_up))) = (accounts (w_db demo_up))(''alice'' \<mapsto> a)"
proof -
  let ?d = "dispatch demo_env demo_register demo_conn demo_up"
  have g: "schema demo_env (w_db demo_up)" "clock_ok (w_clock demo_up)"
    using reach_ok[OF steps.more[OF steps.none demo_start]] goodD(1) by simp_all blast+
  have u: "accounts (w_db demo_up) ''alice'' = None" "accounts (w_db (snd ?d)) ''alice'' \<noteq> None"
  proof -
    have "\<not> dbis (w_db demo_up) [DBUSERS, ''alice'']" "dbis (w_db (snd ?d)) [DBUSERS, ''alice'']" by code_simp+
    then show "accounts (w_db demo_up) ''alice'' = None" "accounts (w_db (snd ?d)) ''alice'' \<noteq> None"
      by (simp_all add: accounts_def)
  qed
  then have ne: "accounts (w_db (snd ?d)) \<noteq> accounts (w_db demo_up)" by metis
  have q: "request_ok demo_register" "\<not> has_prefix (u_path demo_register) ''/verify/''" "\<not> has_prefix (u_path demo_register) ''/console/''"
    by (simp add: request_ok_def demo_register_def) (code_simp+)
  have "dispatch demo_env demo_register demo_conn demo_up = (fst ?d, snd ?d)" by simp
  from accounts_authorised[OF g q(1) _ this ne] q(2,3) obtain v a where
    "accounts (w_db (snd ?d)) = (accounts (w_db demo_up))(v \<mapsto> a)" by auto
  then show ?thesis using u by (auto split: if_splits)
qed

end
