(* ===== verification/Mute.thy ===== *)
theory Mute imports Demo begin

text \<open>
  Muting, from the moderator's command to the posts that are refused: what the
  command stores, and from when to when the user is muted by it; and the log of the
  commands as \<open>read\<close> shows it.
\<close>

section \<open>What is stored and what it means\<close>

lemma session_muted_is:
  "session_muted b fp now \<longleftrightarrow> (case sessions b fp of None \<Rightarrow> False
     | Some u \<Rightarrow> (case accounts b u of None \<Rightarrow> False | Some a \<Rightarrow> muted_at (Some (ac_muted a)) now))"
proof -
  have "muted_at (Some (str_of m)) now = muted_at m now" for m
    by (cases m) (auto simp: muted_at_def PERMANENTLYMUTED_def)
  then show ?thesis by (simp add: session_muted_def sessions_def accounts_def split: option.split)
qed

lemma log_done:
  assumes "schema E (w_db w)"
  shows "\<exists>w'. LogConsoleCommand u p c w = (Ok (), w') \<and> accounts (w_db w') = accounts (w_db w) \<and> sessions (w_db w') = sessions (w_db w)"
proof -
  let ?k = "RFC3339Nano (w_clock w 0)" and ?v = "u @ ''/'' @ priv_string p @ '':'' @ c"
  let ?w = "w\<lparr>w_clock := \<lambda>n. w_clock w (Suc n)\<rparr>"
  have n: "\<not> dbis (w_db w) ([DBCONSOLELOG] @ [?k])" "dbis (w_db w) [DBCONSOLELOG]" using schema_top[OF assms] by simp_all
  then have t: "dbis (w_db ?w) [DBCONSOLELOG]" "\<not> dbis (w_db ?w) ([DBCONSOLELOG] @ [?k])" by simp_all
  note f = dbis_bput[OF n(1)] dbval_bput[OF n]
  have "accounts (bput [DBCONSOLELOG] ?k ?v (w_db w)) = accounts (w_db w)" "sessions (bput [DBCONSOLELOG] ?k ?v (w_db w)) = sessions (w_db w)"
    by (auto simp: fun_eq_iff accounts_def sessions_def f)
  then show ?thesis
    using schema_top[OF assms]
    by (cases rule: tx_put_cases[OF t, of ?v])
       (simp_all add: LogConsoleCommand_def log_tx_def db_update_def go_bind_def go_ret_def return_err_def tx_must_def tx_bucket_some deref_def
          time_now_def go_fail_def)
qed

lemma mute_done:
  assumes s: "schema E (w_db w)" and k: "clock_ok (w_clock w)" and f: "strings_fields c = ''mute'' # u # period # rest"
    and a: "accounts (w_db w) u \<noteq> None" and v: "mute_value period (w_clock w 0) = Some v"
  shows "\<exists>w'. ConsoleCommand E m p c w = (Ok (''User has been muted.'', Success), w')
     \<and> accounts (w_db w') = acc_upd u (\<lambda>a. a\<lparr>ac_muted := v\<rparr>) (accounts (w_db w)) \<and> sessions (w_db w') = sessions (w_db w)"
proof -
  have u: "dbis (w_db w) [DBUSERS, u]" using a by (simp add: accounts_def split: if_splits)
  let ?b = "bput [DBUSERS, u] ''muted'' v (w_db w)"
  obtain k' where "mute_tx u period w = (Ok (), w\<lparr>w_clock := k', w_db := ?b\<rparr>)"
    using v u by (cases rule: mute_tx_eq[OF s k, of u period]) auto
  then have sw: "console_switch E (strings_fields c) w = (Ok (''User has been muted.'', Success), w\<lparr>w_clock := k', w_db := ?b\<rparr>)"
    by (simp add: f console_switch_def reply_def go_bind_def db_update_def go_ret_def)
  have "muted_ok v" using mute_value_ok(1)[OF _ v] k by (simp add: clock_ok_def)
  then have "schema E (w_db (w\<lparr>w_clock := k', w_db := ?b\<rparr>))" using put_user_field[OF s u] by simp
  from log_done[OF this, of m p c] show ?thesis
    using put_field_accounts(2,4)[OF s u] by (auto simp: ConsoleCommand_def sw)
qed

text \<open>A number of days, within the range of the 64 bits of a duration and beyond.\<close>

lemma mute_days: "1 \<le> d \<Longrightarrow> d \<le> 106751 \<Longrightarrow> mute_duration d = d * 86400 * nsec_per_sec"
  by (simp add: mute_duration_def nsec_per_sec_def wrap64_def)

lemma mute_days_wrap: "106752 \<le> d \<Longrightarrow> d \<le> 213503 \<Longrightarrow> mute_duration d < 0"
proof -
  assume d: "106752 \<le> d" "d \<le> 213503"
  let ?x = "d * 86400000000000 + 2 ^ 63"
  have "wrap64 (3600 * nsec_per_sec * 24) = 86400000000000"
    using wrap64_id[of 86400000000000] by (simp add: nsec_per_sec_def)
  then have "mute_duration d = ?x mod 2 ^ 64 - 2 ^ 63" by (simp add: mute_duration_def wrap64_def mult.commute)
  also have "?x mod 2 ^ 64 = (?x - 2 ^ 64) mod 2 ^ 64" by (rule minus_mod_self2[symmetric])
  also have "\<dots> = ?x - 2 ^ 64" using d by (intro mod_pos_pos_trivial) simp_all
  finally show ?thesis using d by simp
qed

lemma mute_value_days: "atoi period = Some d \<Longrightarrow> 1 \<le> d \<Longrightarrow> mute_value period now = Some (RFC3339 (t_add now (mute_duration d)))"
proof -
  have "atoi ''permanent'' = None" by code_simp
  then show "atoi period = Some d \<Longrightarrow> 1 \<le> d \<Longrightarrow> mute_value period now = Some (RFC3339 (t_add now (mute_duration d)))"
    by (auto simp: mute_value_def)
qed

lemma muted_until:
  assumes "clock_time now"
  shows "muted_at (Some (RFC3339 (t_add now (mute_duration d)))) t \<longleftrightarrow> t_ns t < (t_ns now + mute_duration d) div nsec_per_sec * nsec_per_sec"
proof -
  note y = clock_year[OF assms mute_duration_bound, of d]
  have "RFC3339 (t_add now (mute_duration d)) \<noteq> PERMANENTLYMUTED"
    using parse_format[OF y, of False] parse_time_permanent by (auto simp: RFC3339_def)
  then show ?thesis using parse_format[OF y, of False] by (simp add: muted_at_def RFC3339_def t_add_def)
qed

lemma mute_days_done:
  assumes s: "schema E (w_db w)" and k: "clock_ok (w_clock w)" and f: "strings_fields c = ''mute'' # u # period # rest"
    and a: "accounts (w_db w) u \<noteq> None" and d: "atoi period = Some d" "1 \<le> d"
  shows "\<exists>w'. ConsoleCommand E m p c w = (Ok (''User has been muted.'', Success), w')
     \<and> (\<forall>fp t. sessions (w_db w) fp = Some u \<longrightarrow>
          (session_muted (w_db w') fp t \<longleftrightarrow> t_ns t < (t_ns (w_clock w 0) + mute_duration d) div nsec_per_sec * nsec_per_sec))
     \<and> (\<forall>x. x \<noteq> u \<longrightarrow> accounts (w_db w') x = accounts (w_db w) x)"
proof -
  have c: "clock_time (w_clock w 0)" using k by (simp add: clock_ok_def)
  show ?thesis
    using mute_done[OF s k f a mute_value_days[OF d], of m p] a muted_until[OF c, of d]
    by (auto simp: session_muted_is acc_upd_def)
qed

text \<open>
  C25: muting for a number of days mutes for that long: the command answers that it did, from then on every
  certificate of that user is muted until the second in which the days are over, and no other account is touched.
\<close>
theorem muting:
  assumes "schema E (w_db w)" "clock_ok (w_clock w)" "strings_fields c = ''mute'' # u # period # rest"
    and "accounts (w_db w) u \<noteq> None" "atoi period = Some d" "1 \<le> d" "d \<le> 106751"
  shows "\<exists>w'. ConsoleCommand E m p c w = (Ok (''User has been muted.'', Success), w')
     \<and> (\<forall>fp t. sessions (w_db w) fp = Some u \<longrightarrow>
          (session_muted (w_db w') fp t \<longleftrightarrow> t_ns t < (t_ns (w_clock w 0) + d * 86400 * nsec_per_sec) div nsec_per_sec * nsec_per_sec))
     \<and> (\<forall>x. x \<noteq> u \<longrightarrow> accounts (w_db w') x = accounts (w_db w) x)"
  using mute_days_done[OF assms(1-6), of m p] mute_days[OF assms(6,7)] by simp

theorem muting_witness:
  "\<exists>w'. ConsoleCommand demo_env ''root'' Admin ''mute bob 2'' (demo_world demo_db) = (Ok (''User has been muted.'', Success), w')
     \<and> session_muted (w_db w') demo_fp demo_time \<and> \<not> session_muted (w_db w') demo_fp (t_add demo_time (3 * 86400 * nsec_per_sec))"
proof -
  have f: "strings_fields ''mute bob 2'' = ''mute'' # ''bob'' # ''2'' # []" "atoi ''2'' = Some 2" by code_simp+
  obtain w' where "ConsoleCommand demo_env ''root'' Admin ''mute bob 2'' (demo_world demo_db) = (Ok (''User has been muted.'', Success), w')"
    "\<And>t. session_muted (w_db w') demo_fp t \<longleftrightarrow> t_ns t < (t_ns demo_time + 2 * 86400 * nsec_per_sec) div nsec_per_sec * nsec_per_sec"
    using muting[of demo_env "demo_world demo_db", OF _ _ f(1) _ f(2), of "''root''" Admin] goodD(1)[OF demo_db] demo_accounts demo_fields
    by (auto simp: sessions_def)
  then show ?thesis by (simp add: demo_time_def t_add_def nsec_per_sec_def)
qed

text \<open>
  C26: beyond 106751 days the duration overflows its 64 bits: for the next 106752 numbers of days the command
  still answers that the user has been muted, but the end it stores is in the past, and the user is not muted at all.
\<close>
theorem mute_overflow:
  assumes "schema E (w_db w)" "clock_ok (w_clock w)" "strings_fields c = ''mute'' # u # period # rest"
    and "accounts (w_db w) u \<noteq> None" "atoi period = Some d" "106752 \<le> d" "d \<le> 213503" "sessions (w_db w) fp = Some u"
  shows "\<exists>w'. ConsoleCommand E m p c w = (Ok (''User has been muted.'', Success), w')
     \<and> \<not> (\<exists>t. t_ns (w_clock w 0) \<le> t_ns t \<and> session_muted (w_db w') fp t)"
proof -
  have d: "1 \<le> d" "(t_ns (w_clock w 0) + mute_duration d) div nsec_per_sec * nsec_per_sec < t_ns (w_clock w 0)"
  proof -
    show "1 \<le> d" using assms(6) by simp
    have "x div nsec_per_sec * nsec_per_sec \<le> x" for x
      using div_mult_mod_eq[of x nsec_per_sec] pos_mod_sign[of nsec_per_sec x] by (simp add: nsec_per_sec_def)
    from this[of "t_ns (w_clock w 0) + mute_duration d"]
    show "(t_ns (w_clock w 0) + mute_duration d) div nsec_per_sec * nsec_per_sec < t_ns (w_clock w 0)"
      using mute_days_wrap[OF assms(6,7)] by linarith
  qed
  obtain w' where w': "ConsoleCommand E m p c w = (Ok (''User has been muted.'', Success), w')"
    "\<And>t. session_muted (w_db w') fp t \<longleftrightarrow> t_ns t < (t_ns (w_clock w 0) + mute_duration d) div nsec_per_sec * nsec_per_sec"
    using mute_days_done[OF assms(1-5) d(1), of m p] assms(8) by blast
  have "\<not> session_muted (w_db w') fp t" if "t_ns (w_clock w 0) \<le> t_ns t" for t
    using that d(2) unfolding w'(2) by linarith
  then show ?thesis using w'(1) by blast
qed

theorem mute_overflow_witness:
  "\<exists>w'. ConsoleCommand demo_env ''root'' Admin ''mute bob 110000'' (demo_world demo_db) = (Ok (''User has been muted.'', Success), w')
     \<and> \<not> session_muted (w_db w') demo_fp demo_time"
proof -
  have f: "strings_fields ''mute bob 110000'' = ''mute'' # ''bob'' # ''110000'' # []" "atoi ''110000'' = Some 110000" by code_simp+
  show ?thesis
    using mute_overflow[of demo_env "demo_world demo_db", OF _ _ f(1) _ f(2), of demo_fp "''root''" Admin] goodD(1)[OF demo_db] demo_accounts demo_fields
    by (auto simp: sessions_def)
qed

section \<open>The log\<close>

text \<open>The entries of the log with a key, and the order the cursor has them in.\<close>

lemma log_cursor:
  assumes "schema E b"
  shows "sorted_wrt (\<lambda>x y. fst x < fst y) (dbcur b [DBCONSOLELOG])"
    "(k, v) \<in> set (dbcur b [DBCONSOLELOG]) \<longleftrightarrow> (\<exists>s. v = Some s \<and> dbval b [DBCONSOLELOG] k = Some s)"
proof -
  note top = schema_top[OF assms]
  show "sorted_wrt (\<lambda>x y. fst x < fst y) (dbcur b [DBCONSOLELOG])"
    using dbcur_ordered[OF top(1), of "[DBCONSOLELOG]"] by (simp add: al_ordered_def sorted_wrt_map)
  show "(k, v) \<in> set (dbcur b [DBCONSOLELOG]) \<longleftrightarrow> (\<exists>s. v = Some s \<and> dbval b [DBCONSOLELOG] k = Some s)"
    using dbcur_mem[OF top(1), of k v "[DBCONSOLELOG]"] top(2) by (auto simp: cur_entry_def split: option.splits)
qed

text \<open>
  \<open>read\<close> with a number shows that many lines of the log, or all there are: the ones with the greatest keys, the greatest
  first, each with its key and its text, and none is left out between them.
\<close>
theorem log_read:
  assumes "schema E (w_db w)" "strings_fields c = [''read'', k]" "atoi k = Some n"
  shows "\<exists>w' l. ConsoleCommand E u p c w = (Ok (join [CHR 0x0A] (map (\<lambda>(k, s). k @ '' - '' @ s) l), Success), w')
     \<and> sorted_wrt (\<lambda>x y. fst y < fst x) l \<and> length l = min (nat n) (card {k. dbval (w_db w) [DBCONSOLELOG] k \<noteq> None})
     \<and> (\<forall>(k, s) \<in> set l. dbval (w_db w) [DBCONSOLELOG] k = Some s)
     \<and> (\<forall>k s. dbval (w_db w) [DBCONSOLELOG] k = Some s \<and> (k, s) \<notin> set l \<longrightarrow> (\<forall>x \<in> set l. k < fst x))"
proof -
  let ?b = "w_db w" and ?kvs = "dbcur (w_db w) [DBCONSOLELOG]"
  let ?f = "\<lambda>(k, v). (k, str_of v)"
  let ?l = "map ?f (take (nat n) (rev ?kvs))"
  note top = schema_top[OF assms(1)] and cur = log_cursor[OF assms(1)]
  have "atoi ''all'' = None" "atoi ''notime'' = None" by code_simp+
  then have k: "k \<noteq> ''all''" "k \<noteq> ''notime''" using assms(3) by auto
  have sw: "console_switch E (strings_fields c) w = (Ok (join [CHR 0x0A] (map (\<lambda>(k, s). k @ '' - '' @ s) ?l), Success), w)"
    using top k by (simp add: assms(2,3) console_switch_def Let_def read_view_def read_lines_def go_simps db_view_def comp_def case_prod_unfold)
  obtain w' where "LogConsoleCommand u p c w = (Ok (), w')" using log_done[OF assms(1)] by blast
  then have r: "ConsoleCommand E u p c w = (Ok (join [CHR 0x0A] (map (\<lambda>(k, s). k @ '' - '' @ s) ?l), Success), w')"
    by (simp add: ConsoleCommand_def sw)
  have rs: "sorted_wrt (\<lambda>x y. fst y < fst x) (rev ?kvs)" using cur(1) by (simp add: sorted_wrt_rev)
  then have "sorted_wrt (\<lambda>x y. fst y < fst x) (take (nat n) (rev ?kvs))" by (rule sorted_wrt_take)
  then have s: "sorted_wrt (\<lambda>x y. fst y < fst x) ?l" by (simp add: sorted_wrt_map case_prod_beta)
  have d: "distinct (map fst ?kvs)" by (rule al_ordered_distinct[OF dbcur_ordered[OF top(1)]])
  have "fst ` set ?kvs = {k. dbval ?b [DBCONSOLELOG] k \<noteq> None}" using cur(2) by force
  then have "length ?kvs = card {k. dbval ?b [DBCONSOLELOG] k \<noteq> None}"
    using distinct_card[OF d] by simp
  then have len: "length ?l = min (nat n) (card {k. dbval ?b [DBCONSOLELOG] k \<noteq> None})" by simp
  have m: "\<forall>(k, s) \<in> set ?l. dbval ?b [DBCONSOLELOG] k = Some s"
    using cur(2) by (auto dest!: in_set_takeD)
  have g: "k < fst x" if k: "dbval ?b [DBCONSOLELOG] k = Some s" "(k, s) \<notin> set ?l" and x: "x \<in> set ?l" for k s x
  proof -
    obtain y where y: "y \<in> set (take (nat n) (rev ?kvs))" "fst x = fst y" using x by auto
    have "(k, Some s) \<in> set (rev ?kvs)" using cur(2)[of k "Some s"] k(1) by simp
    moreover have "(k, Some s) \<notin> set (take (nat n) (rev ?kvs))" using k(2) by force
    ultimately have "(k, Some s) \<in> set (drop (nat n) (rev ?kvs))" by (metis Un_iff append_take_drop_id set_append)
    then have "k < fst y" using rs y(1) sorted_wrt_append[of "\<lambda>x y. fst y < fst x" "take (nat n) (rev ?kvs)" "drop (nat n) (rev ?kvs)"] by fastforce
    then show ?thesis using y(2) by simp
  qed
  from r s len m g show ?thesis by blast
qed

theorem log_read_witness:
  "\<exists>w' l. ConsoleCommand demo_env ''root'' Admin ''read 3'' (demo_world demo_db) = (Ok (join [CHR 0x0A] (map (\<lambda>(k, s). k @ '' - '' @ s) l), Success), w')
     \<and> length l \<le> 3"
proof -
  have f: "strings_fields ''read 3'' = [''read'', ''3'']" "atoi ''3'' = Some 3" by code_simp+
  from log_read[OF _ f, of demo_env "demo_world demo_db" "''root''" Admin] show ?thesis using goodD(1)[OF demo_db] by fastforce
qed

text \<open>The keys are times as text, without trailing zeros: their order is not always the order in time.\<close>

lemma log_keys_disorder:
  "RFC3339Nano \<lparr>t_ns = 1700000000110000000, t_off = 0\<rparr> < RFC3339Nano \<lparr>t_ns = 1700000000100000000, t_off = 0\<rparr>"
  by code_simp

end
