(* ===== verification/Reporting.thy ===== *)
theory Reporting imports Demo begin

text \<open>
  Reports: a post is reported once, to the administrators and with its text; and what becomes of
  a report whose mail is not sent.
\<close>

lemma report_tx_eq:
  assumes s: "schema E (w_db w)"
  shows "if \<not> dbis (w_db w) [DBALLPOSTS, i] then report_tx E' i w = (Fail ErrNotFound, w)
    else if dbval (w_db w) [DBALLPOSTS, i] ''reports'' \<noteq> Some ''0'' then report_tx E' i w = (Fail AlreadyReported, w)
    else \<exists>t. report_tx E' i w = (Ok (no_post\<lparr>p_ID := i, p_Text := snd (post_line (w_db w) i), p_Author := fst (post_line (w_db w) i),
           p_Time := t\<rparr>), w\<lparr>w_db := bput [DBALLPOSTS, i] ''reports'' ''1'' (w_db w)\<rparr>)"
proof -
  note top = schema_top[OF s]
  show ?thesis
  proof (cases "dbis (w_db w) [DBALLPOSTS, i]")
    case False
    then show ?thesis using top by (simp add: report_tx_def go_simps)
  next
    case True
    then have "post_ok (w_db w) i" using schemaD(5)[OF s] by (simp add: posts_ok_def)
    then have f: "flag_ok (dbval (w_db w) [DBALLPOSTS, i] ''reports'')" and t: "time_ok (dbval (w_db w) [DBALLPOSTS, i] ''time'')"
      by (simp_all add: post_ok_def)
    obtain ts tm where "dbval (w_db w) [DBALLPOSTS, i] ''time'' = Some ts" "parse_time ts = Some tm" using t by (auto simp: time_ok_def)
    then show ?thesis
      using True f top
      by (auto simp: report_tx_def unmarshal_time_def flag_ok_def go_simps post_line_def MaxKeySize_def MaxValueSize_def)
  qed
qed

text \<open>A mail that reports the post \<open>x\<close> to the administrators.\<close>

definition reports_post :: "env \<Rightarrow> Post \<Rightarrow> bytes \<Rightarrow> bytes \<Rightarrow> mail \<Rightarrow> bool" where
  "reports_post E x u reason m \<longleftrightarrow> em_To (ml_Email m) = admin_Email (c_Admin (e_cfg E))
     \<and> (\<exists>ip host. em_Text (ml_Email m) = report_text E x u reason ip host)"

lemma SendEmailOnReport_result:
  "\<exists>r w'. SendEmailOnReport E post u reason (Some c) w = (Ok r, w') \<and> w_db w' = w_db w
     \<and> (r = None \<longrightarrow> (\<exists>m. w_sent w' = w_sent w @ [m] \<and> reports_post E post u reason m))
     \<and> (\<not> smtp_Enabled (c_Smtp (e_cfg E)) \<longrightarrow> r = Some (ErrNew ''SMTP is not enabled on this instance.'') \<and> w' = w)"
proof -
  have m: "\<exists>r w'. report_mail E post u reason c w1 = (Ok r, w') \<and> w_db w' = w_db w1
     \<and> (r = None \<longrightarrow> (\<exists>m. w_sent w' = w_sent w1 @ [m] \<and> reports_post E post u reason m))" for w1
  proof (cases "split_host_port (cn_remote c)")
    case (Inr ip)
    show ?thesis
    proof (cases "e_lookup_addr E ip")
      case h: (Inr host)
      let ?em = "\<lparr>em_From = smtp_From (c_Smtp (e_cfg E)), em_To = admin_Email (c_Admin (e_cfg E)),
                 em_Subject = c_ForumName (e_cfg E) @ '' report - '' @ p_ID post @ '' '',
                 em_Text = report_text E post u reason ip (join '' - '' host)\<rparr>"
      obtain r w' where "sendEmail E ?em w1 = (Ok r, w')" "w_db w' = w_db w1"
        "r = None \<longrightarrow> (\<exists>m. w_sent w' = w_sent w1 @ [m] \<and> ml_Email m = ?em)" using sendEmail_sent[of E ?em w1] by blast
      moreover have "reports_post E post u reason m" if "ml_Email m = ?em" for m using that unfolding reports_post_def by fastforce
      ultimately show ?thesis using Inr h by (auto simp: report_mail_def)
    qed (auto simp: Inr report_mail_def go_ret_def)
  qed (auto simp: report_mail_def go_ret_def)
  show ?thesis
  proof (cases "smtp_Enabled (c_Smtp (e_cfg E))")
    case False
    then show ?thesis by (simp add: SendEmailOnReport_def go_ret_def)
  next
    case True
    show ?thesis
    proof (cases "e_report_limiter E")
      case None
      then show ?thesis using True m[of w] by (simp add: SendEmailOnReport_def go_bind_def go_ret_def deref_def)
    next
      case (Some l)
      obtain st k where k: "limiter_Check l u w = (Ok st, w\<lparr>w_clock := k\<rparr>)" using limiter_quiet(1) by blast
      obtain k' ms where i: "limiter_Inc l u (w\<lparr>w_clock := k\<rparr>) = (Ok (), w\<lparr>w_clock := k', w_limits := ms\<rparr>)"
        using limiter_quiet(2)[of l u "w\<lparr>w_clock := k\<rparr>"] by auto
      show ?thesis
        using True Some k i m[of "w\<lparr>w_clock := k', w_limits := ms\<rparr>"]
        by (cases "IsLimited st") (simp_all add: SendEmailOnReport_def go_bind_def go_ret_def deref_def)
    qed
  qed
qed

text \<open>The report of a logged-in user, up to its mail.\<close>

lemma report_run:
  assumes s: "schema E (w_db w)" and u: "GetFingerprint (Some c) = Some fp" "session_user (w_db w) fp \<noteq> []"
    and q: "path_parts (u_path q) = [a, i]" "u_query q \<noteq> []" "query_unescape (u_query q) = Inr reason"
  shows "if \<not> dbis (w_db w) [DBALLPOSTS, i]
    then \<exists>w'. ReportHandler E q (Some c) w = (Ok (ErrorResponse BadRequest ErrNotFound), w') \<and> w_db w' = w_db w \<and> w_sent w' = w_sent w
    else if dbval (w_db w) [DBALLPOSTS, i] ''reports'' \<noteq> Some ''0''
    then \<exists>w'. ReportHandler E q (Some c) w = (Ok (Response BadRequest ''Post has already been reported. Thank you.''), w')
        \<and> w_db w' = w_db w \<and> w_sent w' = w_sent w
    else \<exists>r w' x. ReportHandler E q (Some c) w = (Ok r, w') \<and> w_db w' = bput [DBALLPOSTS, i] ''reports'' ''1'' (w_db w)
        \<and> p_ID x = i \<and> (p_Author x, p_Text x) = post_line (w_db w) i
        \<and> (resp_status r = Some Success \<longrightarrow> (\<exists>m. w_sent w' = w_sent w @ [m] \<and> reports_post E x (session_user (w_db w) fp) reason m))
        \<and> (\<not> smtp_Enabled (c_Smtp (e_cfg E)) \<longrightarrow> r = ErrorResponse TemporaryFailure (ErrNew ''SMTP is not enabled on this instance.'')
             \<and> w_sent w' = w_sent w)"
proof -
  obtain st k where g: "GetUsernameFromFP E fp w =
    (Ok \<lparr>s_username = session_user (w_db w) fp, s_priv = config_priv (e_cfg E) (session_user (w_db w) fp),
         s_muted = session_muted (w_db w) fp (w_clock w 0), s_status = st\<rparr>, w\<lparr>w_clock := k\<rparr>)"
    by (rule GetUsernameFromFP_eq[OF schemaD(1)[OF s]])
  let ?w = "w\<lparr>w_clock := k\<rparr>"
  have "schema E (w_db ?w)" using s by simp
  note R = report_tx_eq[OF this, of i E]
  consider "\<not> dbis (w_db w) [DBALLPOSTS, i]" | "dbis (w_db w) [DBALLPOSTS, i]" "dbval (w_db w) [DBALLPOSTS, i] ''reports'' \<noteq> Some ''0''"
    | "dbis (w_db w) [DBALLPOSTS, i]" "dbval (w_db w) [DBALLPOSTS, i] ''reports'' = Some ''0''" by blast
  then show ?thesis
  proof cases
    case 3
    then obtain t where t: "report_tx E i ?w = (Ok (no_post\<lparr>p_ID := i, p_Text := snd (post_line (w_db w) i), p_Author := fst (post_line (w_db w) i),
           p_Time := t\<rparr>), ?w\<lparr>w_db := bput [DBALLPOSTS, i] ''reports'' ''1'' (w_db w)\<rparr>)" using R by auto
    let ?p = "no_post\<lparr>p_ID := i, p_Text := snd (post_line (w_db w) i), p_Author := fst (post_line (w_db w) i), p_Time := t\<rparr>"
    obtain r w' where r: "SendEmailOnReport E ?p (session_user (w_db w) fp) reason (Some c) (?w\<lparr>w_db := bput [DBALLPOSTS, i] ''reports'' ''1'' (w_db w)\<rparr>) = (Ok r, w')"
      "w_db w' = bput [DBALLPOSTS, i] ''reports'' ''1'' (w_db w)"
      "r = None \<longrightarrow> (\<exists>m. w_sent w' = w_sent w @ [m] \<and> reports_post E ?p (session_user (w_db w) fp) reason m)"
      "\<not> smtp_Enabled (c_Smtp (e_cfg E)) \<longrightarrow> r = Some (ErrNew ''SMTP is not enabled on this instance.'') \<and> w_sent w' = w_sent w"
      using SendEmailOnReport_result[of E ?p "session_user (w_db w) fp" reason c "?w\<lparr>w_db := bput [DBALLPOSTS, i] ''reports'' ''1'' (w_db w)\<rparr>"] by auto
    have "ReportHandler E q (Some c) w = (Ok (case r of Some e \<Rightarrow> if e = ReportRateLimited then Response SlowDown ''60'' else ErrorResponse TemporaryFailure e
        | None \<Rightarrow> ResponseFormat Success ''text/gemini'' [''Thank you for your report.'', LinkPrefix @ ''/ Go to home.'']), w')"
      using u q g t r(1) by (cases r) (simp_all add: ReportHandler_def go_bind_def go_ret_def db_update_def)
    then show ?thesis using 3 r(2-4)
      by (auto intro!: exI[of _ ?p] simp: Response_def ErrorResponse_def split: option.splits)
  qed (use R u q g in \<open>auto simp: ReportHandler_def go_bind_def go_ret_def db_update_def\<close>)
qed

text \<open>
  C27: a post is reported once: a missing post and one that has been reported are refused and nothing is changed or
  sent; otherwise only the mark of the post is set, and if the user is thanked, the administrators have been sent the
  post's author and text with the reason.
\<close>
theorem reporting:
  assumes "schema E (w_db w)" "GetFingerprint (Some c) = Some fp" "session_user (w_db w) fp \<noteq> []"
    and "path_parts (u_path q) = [a, i]" "u_query q \<noteq> []" "query_unescape (u_query q) = Inr reason"
  shows "if \<not> dbis (w_db w) [DBALLPOSTS, i]
    then \<exists>w'. ReportHandler E q (Some c) w = (Ok (ErrorResponse BadRequest ErrNotFound), w') \<and> w_db w' = w_db w \<and> w_sent w' = w_sent w
    else if dbval (w_db w) [DBALLPOSTS, i] ''reports'' \<noteq> Some ''0''
    then \<exists>w'. ReportHandler E q (Some c) w = (Ok (Response BadRequest ''Post has already been reported. Thank you.''), w')
        \<and> w_db w' = w_db w \<and> w_sent w' = w_sent w
    else \<exists>r w' x. ReportHandler E q (Some c) w = (Ok r, w') \<and> w_db w' = bput [DBALLPOSTS, i] ''reports'' ''1'' (w_db w)
        \<and> p_ID x = i \<and> (p_Author x, p_Text x) = post_line (w_db w) i
        \<and> (resp_status r = Some Success \<longrightarrow> (\<exists>m. w_sent w' = w_sent w @ [m] \<and> reports_post E x (session_user (w_db w) fp) reason m))"
  using report_run[OF assms] by (simp split: if_splits) blast

text \<open>
  C28: where mail is off, a report is lost: the mark is committed before the mail is tried, so the first report ends in an
  error with nothing sent, and every later one is told that the post has already been reported.
\<close>
theorem report_lost:
  assumes "schema E (w_db w)" "GetFingerprint (Some c) = Some fp" "session_user (w_db w) fp \<noteq> []"
    and "path_parts (u_path q) = [a, i]" "u_query q \<noteq> []" "query_unescape (u_query q) = Inr reason"
    and "dbis (w_db w) [DBALLPOSTS, i]" "dbval (w_db w) [DBALLPOSTS, i] ''reports'' = Some ''0''" "\<not> smtp_Enabled (c_Smtp (e_cfg E))"
  shows "\<exists>w' w''. ReportHandler E q (Some c) w = (Ok (ErrorResponse TemporaryFailure (ErrNew ''SMTP is not enabled on this instance.'')), w')
     \<and> ReportHandler E q (Some c) w' = (Ok (Response BadRequest ''Post has already been reported. Thank you.''), w'')
     \<and> w_sent w'' = w_sent w"
proof -
  obtain w' where w': "ReportHandler E q (Some c) w = (Ok (ErrorResponse TemporaryFailure (ErrNew ''SMTP is not enabled on this instance.'')), w')"
    "w_db w' = bput [DBALLPOSTS, i] ''reports'' ''1'' (w_db w)" "w_sent w' = w_sent w"
    using report_run[OF assms(1-6)] assms(7-9) by auto
  have s: "schema E (w_db w')" using put_post_reports[OF assms(1,7)] w'(2) by (simp add: flag_ok_def)
  have n: "\<not> dbis (w_db w) ([DBALLPOSTS, i] @ [''reports''])" using schemaD(2)[OF assms(1)] by simp
  note f = dbis_bput[OF n] dbval_bput[OF n assms(7)]
  have "session_user (w_db w') fp = session_user (w_db w) fp" by (simp add: session_user_def w'(2) f split: option.split)
  then have "session_user (w_db w') fp \<noteq> []" using assms(3) by simp
  from report_run[OF s assms(2) this assms(4-6)] show ?thesis
    using w' assms(7) by (auto simp: f)
qed


text \<open>The second post of the demo.\<close>

lemma demo_second: "dbis demo_db [DBALLPOSTS, itob 2]" "dbval demo_db [DBALLPOSTS, itob 2] ''reports'' = Some ''0''"
proof -
  have sf: "dbis demo_sessions [DBSUBFORUMS, ''gen'']" unfolding demo_sessions by code_simp
  have c: "counters_free demo_sessions" "counters_free demo_thread"
    by (rule good_free[OF demo_sessions(1)], simp) (rule good_free[OF demo_thread], simp)
  have q: "dbseq demo_thread [DBALLPOSTS] = 1"
    using new_thread_flat(4)[OF goodD(1)[OF demo_sessions(1)] c(1) sf, of "''bob''" "''Hello''" "''first''" demo_now, folded demo_thread_def]
    by (simp add: demo_thread_is(2))
  note f = new_post_flat(2,3)[OF goodD(1)[OF demo_thread] c(2) demo_thread_is(1), of "''root''" "''second''" demo_now, folded demo_db_def, unfolded q]
  show "dbis demo_db [DBALLPOSTS, itob 2]" "dbval demo_db [DBALLPOSTS, itob 2] ''reports'' = Some ''0''"
    by (simp_all add: f post_record_def)
qed

lemma demo_report:
  "path_parts ''/report/0000000000000002/'' = [''report'', itob 2]" "query_unescape ''spam'' = Inr ''spam''"
  by code_simp+

theorem reporting_witness:
  "\<exists>r w'. ReportHandler demo_env \<lparr>u_path = ''/report/0000000000000002/'', u_query = ''spam'', u_force = False\<rparr> (Some demo_conn) (demo_world demo_db)
     = (Ok r, w') \<and> dbval (w_db w') [DBALLPOSTS, itob 2] ''reports'' = Some ''1''"
proof -
  have n: "\<not> dbis demo_db ([DBALLPOSTS, itob 2] @ [''reports''])" using schemaD(2)[OF goodD(1)[OF demo_db]] by simp
  show ?thesis
    using reporting[of demo_env "demo_world demo_db" demo_conn demo_fp "\<lparr>u_path = ''/report/0000000000000002/'', u_query = ''spam'', u_force = False\<rparr>"
        "''report''" "itob 2" "''spam''"] goodD(1)[OF demo_db] demo_session demo_report demo_second dbval_bput[OF n demo_second(1)] by auto
qed

theorem report_lost_witness:
  "\<exists>w' w''. ReportHandler demo_env \<lparr>u_path = ''/report/0000000000000002/'', u_query = ''spam'', u_force = False\<rparr> (Some demo_conn) (demo_world demo_db)
      = (Ok (ErrorResponse TemporaryFailure (ErrNew ''SMTP is not enabled on this instance.'')), w')
     \<and> ReportHandler demo_env \<lparr>u_path = ''/report/0000000000000002/'', u_query = ''spam'', u_force = False\<rparr> (Some demo_conn) w'
      = (Ok (Response BadRequest ''Post has already been reported. Thank you.''), w'')"
  using report_lost[of demo_env "demo_world demo_db" demo_conn demo_fp "\<lparr>u_path = ''/report/0000000000000002/'', u_query = ''spam'', u_force = False\<rparr>"
        "''report''" "itob 2" "''spam''"] goodD(1)[OF demo_db] demo_session demo_report demo_second by auto

end
