(* ===== verification/Joining.thy ===== *)
theory Joining imports Demo begin

text \<open>
  Joining the forum: which names are accepted, and the way from the registration
  over the verification to the first login.
\<close>

text \<open>
  C30: a user name is accepted exactly if it has, without the spaces around it, 1 to 24 bytes, only letters, numbers
  and underscores, and no account has it up to the case of letters.
\<close>
theorem username_accepted:
  assumes "schema E (w_db w)" "e_db E"
  shows "validateUsername E name w = (Ok None, w) \<longleftrightarrow>
    (let u = trim_space name in 1 \<le> length u \<and> length u \<le> 24
       \<and> (\<forall>r \<in> set (runes u). is_letter E r \<or> is_number E r \<or> r = 95)
       \<and> \<not> (\<exists>v. accounts (w_db w) v \<noteq> None \<and> equal_fold E v u))"
  using assms(2)
  by (auto simp: validateUsername_eq[OF assms(1)] Let_def UsernameMaxLength_def username_rune_def list_all_iff free_name_def Suc_le_eq)

section \<open>A registration\<close>

lemma registered:
  assumes s: "schema E (w_db w)"
    and q: "path_parts (u_path q) = [a, n, e]" "query_unescape n = Inr name" "query_unescape e = Inr email"
      "u_query q \<noteq> []" "query_unescape (u_query q) = Inr p"
    and m: "length (trim_space email) \<le> MaxValueSize" "e_hash E (w_salt w 0) (trim_space p) = Inr h" "length h \<le> MaxValueSize"
    and r: "RegisterUserHandler E q c w = (Ok (Response RedirectTemporary ''/''), w1)"
  shows "schema E (w_db w1)" "trim_space name \<noteq> []" "accounts (w_db w) (trim_space name) = None"
    "accounts (w_db w1) (trim_space name) = Some \<lparr>ac_verified = (\<not> smtp_Enabled (c_Smtp (e_cfg E))), ac_hash = h, ac_email = trim_space email, ac_muted = []\<rparr>"
    "codes (w_db w1) (itob (w_rand w 0)) = Some (trim_space name)"
proof -
  let ?u = "trim_space name"
  obtain V where V: "validateUsername E name w = (Ok V, w)" by (rule that) (rule validateUsername_eq[OF s])
  note R = r[unfolded RegisterUserHandler_def Let_def]
  have b: "ErrorResponse BadRequest x \<noteq> Response RedirectTemporary y" for x y by (simp add: ErrorResponse_def Response_def)
  have pv: "validatePassword p = None" using R q b by (auto simp: go_ret_def split: option.splits)
  have v0: "V = None" using R q pv b by (auto simp: go_ret_def go_bind_def V split: option.splits)
  then have o: "OnRegister E ?u (trim_space email) (trim_space p) w = (Ok None, w1)"
    using R q pv b by (auto simp: go_ret_def go_bind_def V split: option.splits prod.splits res.splits)
  have v: "validateUsername E name w = (Ok None, w)" using V v0 by simp
  from validateUsername_None[OF v] have u: "?u \<noteq> []" "length ?u \<le> UsernameMaxLength" by simp_all
  note O = OnRegister_cases[OF s u m]
  show z: "accounts (w_db w) ?u = None" using O(1) o by fastforce
  from O(2)[OF this] o have d: "w_db w1 = register_db E ?u (trim_space email) h (itob (w_rand w 0)) (w_db w)"
    using SendEmailOnRegistration_db by (metis snd_conv)
  have n: "\<not> dbis (w_db w) [DBUSERS, ?u]" using z by (simp add: accounts_def split: if_splits)
  show "schema E (w_db w1)" unfolding d by (rule register_keeps[OF s n u])
  show "?u \<noteq> []" by (rule u)
  show "accounts (w_db w1) ?u = Some \<lparr>ac_verified = (\<not> smtp_Enabled (c_Smtp (e_cfg E))), ac_hash = h, ac_email = trim_space email, ac_muted = []\<rparr>"
    "codes (w_db w1) (itob (w_rand w 0)) = Some ?u"
    by (simp_all add: d register_accounts[OF s n])
qed

text \<open>The account after its verification.\<close>

lemma verified:
  assumes s: "schema E (w_db w)" and a: "accounts (w_db w) u = Some acc" "codes (w_db w) code = Some u"
    and q: "path_parts (u_path q) = [x, code]"
  obtains w' where "VerifyUserHandler E q c w = (Ok (Response RedirectTemporary ''/''), w')" "schema E (w_db w')"
    "accounts (w_db w') u = Some (acc\<lparr>ac_verified := True\<rparr>)"
proof -
  note v = verify_accounts[OF s a(2)]
  let ?w = "w\<lparr>w_db := bdel [DBVALIDATION] code (bput [DBUSERS, u] ''verified'' ''1'' (w_db w))\<rparr>"
  have "schema E (w_db ?w)"
    using put_user_field[OF s v(4), of "''verified''" "''1''"] delete_keeps by (simp add: flag_ok_def)
  moreover have "VerifyUserHandler E q c w = (Ok (Response RedirectTemporary ''/''), ?w)" using Verify_cases[OF s q] a(2) by simp
  moreover have "accounts (w_db ?w) u = Some (acc\<lparr>ac_verified := True\<rparr>)" using v(1) a(1) by (simp add: acc_upd_def)
  ultimately show ?thesis using that by blast
qed

text \<open>
  C29: from registration to session: after a registration that was answered by the redirect home, where mail is on
  nobody can log in before the code that was made for the account is used; using it verifies the account, and
  logging in with the name and the password (both without the spaces around them) then opens its session.
\<close>
theorem joining:
  assumes "schema E (w_db w)" "path_parts (u_path qr) = [a, n, e]" "query_unescape n = Inr name" "query_unescape e = Inr email"
    and "u_query qr \<noteq> []" "query_unescape (u_query qr) = Inr p" "length (trim_space email) \<le> MaxValueSize"
    and "e_hash E (w_salt w 0) (trim_space p) = Inr h" "length h \<le> MaxValueSize" "e_compare E h (trim_space p) = None"
    and "RegisterUserHandler E qr c w = (Ok (Response RedirectTemporary ''/''), w1)" "path_parts (u_path qv) = [v, itob (w_rand w 0)]"
    and "GetFingerprint c = Some fp" "path_parts (u_path ql) = [l, m]" "query_unescape m = Inr (trim_space name)"
    and "u_query ql \<noteq> []" "query_unescape (u_query ql) = Inr (trim_space p)"
  shows "(smtp_Enabled (c_Smtp (e_cfg E)) \<longrightarrow> LoginUserHandler E ql c w1 = (Ok (ErrorResponse BadRequest (ErrNew ''User not verified'')), w1))
    \<and> (\<exists>w2 w3. VerifyUserHandler E qv c w1 = (Ok (Response RedirectTemporary ''/''), w2)
         \<and> LoginUserHandler E ql c w2 = (Ok (Response RedirectTemporary ''/''), w3) \<and> session_user (w_db w3) fp = trim_space name)"
proof -
  note R = registered[OF assms(1-9,11)]
  obtain w2 where w2: "VerifyUserHandler E qv c w1 = (Ok (Response RedirectTemporary ''/''), w2)" "schema E (w_db w2)"
    "accounts (w_db w2) (trim_space name) = Some \<lparr>ac_verified = True, ac_hash = h, ac_email = trim_space email, ac_muted = []\<rparr>"
    by (rule verified[OF R(1,4,5) assms(12)]) simp
  have "session_user (bput [DBFP] fp (trim_space name) (w_db w2)) fp = trim_space name"
    using session_accounts(1,3)[OF w2(2)] w2(3) by (simp add: session_user_is)
  moreover note Login_cases[OF R(1) assms(13-17)] Login_cases[OF w2(2) assms(13-17)]
  ultimately show ?thesis using R(4) w2 assms(10) by auto
qed

text \<open>
  C31: a password with spaces around it does not work: it is stored without them but compared with them, so
  whoever registered with it cannot log in by typing the same again (unless bcrypt takes both for the same).
\<close>
theorem password_spaces:
  assumes "schema E (w_db w)" "path_parts (u_path qr) = [a, n, e]" "query_unescape n = Inr name" "query_unescape e = Inr email"
    and "u_query qr \<noteq> []" "query_unescape (u_query qr) = Inr p" "length (trim_space email) \<le> MaxValueSize"
    and "e_hash E (w_salt w 0) (trim_space p) = Inr h" "length h \<le> MaxValueSize" "e_compare E h p \<noteq> None"
    and "RegisterUserHandler E qr c w = (Ok (Response RedirectTemporary ''/''), w1)" "path_parts (u_path qv) = [v, itob (w_rand w 0)]"
    and "GetFingerprint c = Some fp" "path_parts (u_path ql) = [l, m]" "query_unescape m = Inr (trim_space name)" "u_query ql = u_query qr"
  shows "\<exists>w2. VerifyUserHandler E qv c w1 = (Ok (Response RedirectTemporary ''/''), w2)
         \<and> LoginUserHandler E ql c w2 = (Ok (Response BadRequest ''Login unsuccessful''), w2)"
proof -
  note R = registered[OF assms(1-9,11)]
  obtain w2 where w2: "VerifyUserHandler E qv c w1 = (Ok (Response RedirectTemporary ''/''), w2)" "schema E (w_db w2)"
    "accounts (w_db w2) (trim_space name) = Some \<lparr>ac_verified = True, ac_hash = h, ac_email = trim_space email, ac_muted = []\<rparr>"
    by (rule verified[OF R(1,4,5) assms(12)]) simp
  have q: "u_query ql \<noteq> []" "query_unescape (u_query ql) = Inr p" using assms(5,6,16) by simp_all
  from Login_cases[OF w2(2) assms(13-15) q] show ?thesis using w2 assms(10) by auto
qed


theorem username_accepted_witness:
  "\<exists>e. validateUsername demo_env ''Bob'' (demo_world demo_db) = (Ok (Some e), demo_world demo_db)"
proof -
  have "equal_fold demo_env ''bob'' (trim_space ''Bob'')" by code_simp
  then have "validateUsername demo_env ''Bob'' (demo_world demo_db) \<noteq> (Ok None, demo_world demo_db)"
    using username_accepted[of demo_env "demo_world demo_db" "''Bob''"] goodD(1)[OF demo_db] demo_accounts(1) by (auto simp: Let_def)
  then show ?thesis using validateUsername_eq[of demo_env "demo_world demo_db" "''Bob''"] goodD(1)[OF demo_db] by (auto split: if_splits)
qed

text \<open>Registering at a fresh server.\<close>

lemma demo_up: "schema demo_env (w_db demo_up)" "w_rand demo_up 0 = 7" "w_salt demo_up 0 = []"
proof -
  show "schema demo_env (w_db demo_up)"
    using reach_ok[OF steps.more[OF steps.none demo_start]] goodD(1) by simp blast
  show "w_rand demo_up 0 = 7" "w_salt demo_up 0 = []" by code_simp+
qed

lemma demo_joins:
  assumes "fst (RegisterUserHandler demo_env q (Some demo_conn) demo_up) = Ok (Response RedirectTemporary ''/'')"
  obtains w1 where "RegisterUserHandler demo_env q (Some demo_conn) demo_up = (Ok (Response RedirectTemporary ''/''), w1)"
  using assms by (cases "RegisterUserHandler demo_env q (Some demo_conn) demo_up") auto

theorem joining_witness:
  "\<exists>w1 w2 w3. RegisterUserHandler demo_env demo_register (Some demo_conn) demo_up = (Ok (Response RedirectTemporary ''/''), w1)
     \<and> LoginUserHandler demo_env \<lparr>u_path = ''/login/alice/'', u_query = ''password3'', u_force = False\<rparr> (Some demo_conn) w2
        = (Ok (Response RedirectTemporary ''/''), w3) \<and> session_user (w_db w3) demo_fp = ''alice''"
proof -
  let ?ql = "\<lparr>u_path = ''/login/alice/'', u_query = ''password3'', u_force = False\<rparr>"
  let ?qv = "\<lparr>u_path = ''/verify/0000000000000007/'', u_query = [], u_force = False\<rparr>"
  have "fst (RegisterUserHandler demo_env demo_register (Some demo_conn) demo_up) = Ok (Response RedirectTemporary ''/'')" by code_simp
  then obtain w1 where w1: "RegisterUserHandler demo_env demo_register (Some demo_conn) demo_up = (Ok (Response RedirectTemporary ''/''), w1)"
    by (rule demo_joins)
  have p: "path_parts (u_path demo_register) = [''register'', ''alice'', ''a@x'']" "query_unescape ''alice'' = Inr ''alice''"
    "query_unescape ''a@x'' = Inr ''a@x''" "query_unescape (u_query demo_register) = Inr ''password3''" "trim_space ''alice'' = ''alice''"
    "trim_space ''a@x'' = ''a@x''" "trim_space ''password3'' = ''password3''" "path_parts ''/verify/0000000000000007/'' = [''verify'', itob 7]"
    "path_parts ''/login/alice/'' = [''login'', ''alice'']" "query_unescape ''password3'' = Inr ''password3''" "u_query demo_register \<noteq> []"
    "length (demo_hash ''password3'') = 60" by code_simp+
  from joining[where a = "''register''" and v = "''verify''" and l = "''login''", of demo_env demo_up demo_register _ _ "''alice''" "''a@x''" "''password3''" "demo_hash ''password3''" "Some demo_conn" w1 ?qv demo_fp ?ql,
      OF demo_up(1) p(1-3,11,4) _ _ _ _ w1] show ?thesis
    using p w1 demo_up by (auto simp: MaxValueSize_def)
qed

theorem password_spaces_witness:
  "\<exists>w1 w2. RegisterUserHandler demo_env \<lparr>u_path = ''/register/alice/a@x/'', u_query = ''%20password3'', u_force = False\<rparr> (Some demo_conn) demo_up
      = (Ok (Response RedirectTemporary ''/''), w1)
     \<and> LoginUserHandler demo_env \<lparr>u_path = ''/login/alice/'', u_query = ''%20password3'', u_force = False\<rparr> (Some demo_conn) w2
        = (Ok (Response BadRequest ''Login unsuccessful''), w2)"
proof -
  let ?qr = "\<lparr>u_path = ''/register/alice/a@x/'', u_query = ''%20password3'', u_force = False\<rparr>"
  let ?ql = "\<lparr>u_path = ''/login/alice/'', u_query = ''%20password3'', u_force = False\<rparr>"
  let ?qv = "\<lparr>u_path = ''/verify/0000000000000007/'', u_query = [], u_force = False\<rparr>"
  have "fst (RegisterUserHandler demo_env ?qr (Some demo_conn) demo_up) = Ok (Response RedirectTemporary ''/'')" by code_simp
  then obtain w1 where w1: "RegisterUserHandler demo_env ?qr (Some demo_conn) demo_up = (Ok (Response RedirectTemporary ''/''), w1)"
    by (rule demo_joins)
  have p: "path_parts ''/register/alice/a@x/'' = [''register'', ''alice'', ''a@x'']" "query_unescape ''alice'' = Inr ''alice''"
    "query_unescape ''a@x'' = Inr ''a@x''" "query_unescape ''%20password3'' = Inr '' password3''" "trim_space ''alice'' = ''alice''"
    "trim_space ''a@x'' = ''a@x''" "trim_space '' password3'' = ''password3''" "path_parts ''/verify/0000000000000007/'' = [''verify'', itob 7]"
    "path_parts ''/login/alice/'' = [''login'', ''alice'']" "demo_hash '' password3'' \<noteq> demo_hash ''password3''"
    "length (demo_hash ''password3'') = 60" by code_simp+
  from password_spaces[where a = "''register''" and v = "''verify''" and l = "''login''", of demo_env demo_up ?qr _ _ "''alice''" "''a@x''" "'' password3''" "demo_hash ''password3''" "Some demo_conn" w1 ?qv demo_fp ?ql,
      OF demo_up(1) _ p(2,3) _ _ _ _ _ _ w1] show ?thesis
    using p w1 demo_up by (auto simp: MaxValueSize_def)
qed

section \<open>Two registrations at the same time\<close>

text \<open>What a registration does to the accounts, whether or not its mail is sent.\<close>

lemma OnRegister_creates:
  assumes s: "schema E (w_db w)" and u: "u \<noteq> []" "length u \<le> UsernameMaxLength" "length email \<le> MaxValueSize"
    and h: "e_hash E (w_salt w 0) pw = Inr phash" "length phash \<le> MaxValueSize"
    and z: "accounts (w_db w) u = None" and r: "OnRegister E u email pw w = (r, w')"
  shows "schema E (w_db w')" "accounts (w_db w') u \<noteq> None" "v \<noteq> u \<Longrightarrow> accounts (w_db w') v = accounts (w_db w) v"
proof -
  note O = OnRegister_cases(2)[OF s u h z]
  have d: "w_db w' = register_db E u email phash (itob (w_rand w 0)) (w_db w)"
    using O r SendEmailOnRegistration_db by (metis snd_conv)
  have n: "\<not> dbis (w_db w) [DBUSERS, u]" using z by (simp add: accounts_def split: if_splits)
  show "schema E (w_db w')" unfolding d by (rule register_keeps[OF s n u(1,2)])
  show "accounts (w_db w') u \<noteq> None" "v \<noteq> u \<Longrightarrow> accounts (w_db w') v = accounts (w_db w) v"
    by (simp_all add: d register_accounts[OF s n])
qed

text \<open>
  C39: the name of an account is checked in another transaction than the one that creates it.  When two requests
  have both checked their names, which differ only in the case of letters, before either creates its account, both
  accounts are created; a check made in between would have refused the second name.
\<close>
theorem names_race:
  assumes "schema E (w_db w)" "e_db E" "\<And>s p. \<exists>h. e_hash E s p = Inr h \<and> length h \<le> MaxValueSize"
    and "trim_space u = u" "trim_space v = v" "u \<noteq> v" "equal_fold E u v"
    and "validateUsername E u w = (Ok None, w)" "validateUsername E v w = (Ok None, w)"
    and "length eu \<le> MaxValueSize" "length ev \<le> MaxValueSize"
    and "OnRegister E u eu pu w = (r1, w1)" "OnRegister E v ev pv w1 = (r2, w2)"
  shows "accounts (w_db w2) u \<noteq> None \<and> accounts (w_db w2) v \<noteq> None
    \<and> validateUsername E v w1 = (Ok (Some ErrUserAlreadyExists), w1)"
proof -
  note s = assms(1)
  have u: "u \<noteq> []" "length u \<le> UsernameMaxLength" "list_all (username_rune E) (runes u)"
    and v: "v \<noteq> []" "length v \<le> UsernameMaxLength" "list_all (username_rune E) (runes v)"
    using validateUsername_None[OF assms(8)] validateUsername_None[OF assms(9)] assms(4,5) by simp_all
  have z: "accounts (w_db w) u = None" "accounts (w_db w) v = None"
    using assms(8,9) equal_fold_refl by (auto simp: validateUsername_eq[OF s] assms(2,4,5) Let_def free_name_def split: if_splits)
  obtain hu where hu: "e_hash E (w_salt w 0) pu = Inr hu" "length hu \<le> MaxValueSize" using assms(3) by blast
  obtain hv where hv: "e_hash E (w_salt w1 0) pv = Inr hv" "length hv \<le> MaxValueSize" using assms(3) by blast
  note A = OnRegister_creates[OF s u(1,2) assms(10) hu z(1) assms(12)]
  have z1: "accounts (w_db w1) v = None" using A(3)[of v] assms(6) z(2) by simp
  note B = OnRegister_creates[OF A(1) v(1,2) assms(11) hv z1 assms(13)]
  have "validateUsername E v w1 = (Ok (Some ErrUserAlreadyExists), w1)"
    using A(2) assms(2,5,7) v by (auto simp: validateUsername_eq[OF A(1)] Let_def free_name_def)
  then show ?thesis using A(2) B(2) B(3)[of u] assms(6) by simp
qed

theorem names_race_witness:
  "\<exists>w1 r2 w2. OnRegister demo_env ''alice'' ''a@x'' ''password3'' demo_up = (Ok None, w1)
     \<and> OnRegister demo_env ''Alice'' ''b@x'' ''password4'' w1 = (r2, w2)
     \<and> accounts (w_db w2) ''alice'' \<noteq> None \<and> accounts (w_db w2) ''Alice'' \<noteq> None"
proof -
  have v: "fst (validateUsername demo_env ''alice'' demo_up) = Ok None" "fst (validateUsername demo_env ''Alice'' demo_up) = Ok None"
    "fst (OnRegister demo_env ''alice'' ''a@x'' ''password3'' demo_up) = Ok None" by code_simp+
  then have "validateUsername demo_env ''alice'' demo_up = (Ok None, demo_up)" "validateUsername demo_env ''Alice'' demo_up = (Ok None, demo_up)"
    by (auto simp: validateUsername_eq[OF demo_up(1)])
  moreover obtain w1 where "OnRegister demo_env ''alice'' ''a@x'' ''password3'' demo_up = (Ok None, w1)"
    using v(3) by (cases "OnRegister demo_env ''alice'' ''a@x'' ''password3'' demo_up") auto
  moreover obtain r2 w2 where "OnRegister demo_env ''Alice'' ''b@x'' ''password4'' w1 = (r2, w2)" by fastforce
  moreover have "trim_space ''alice'' = ''alice''" "trim_space ''Alice'' = ''Alice''" "equal_fold demo_env ''alice'' ''Alice''" by code_simp+
  moreover have "\<And>s p. \<exists>h. e_hash demo_env s p = Inr h \<and> length h \<le> MaxValueSize" by (simp add: demo_hash_def MaxValueSize_def)
  ultimately show ?thesis
    using names_race[OF demo_up(1), where u = "''alice''" and v = "''Alice''" and eu = "''a@x''" and ev = "''b@x''"] by (auto simp: MaxValueSize_def)
qed

end
