(* ===== verification/Startup.thy ===== *)
theory Startup imports System begin

text \<open>
  \<open>main.go\<close> up to the running server, with \<open>initKeyword\<close> of \<open>searchkey.go\<close> and \<open>initDatabase\<close> of \<open>database.go\<close>: the order
  in which the parts are brought up, and the exit status when one of them fails.
  Files, the TOML parser, the opening of the database file and bleve are the
  machine's, a record of functions.  \<open>log.Fatal\<close> exits with 1.
\<close>

record machine =
  os_read_file :: "bytes \<Rightarrow> err + bytes"
  os_write_file :: "bytes \<Rightarrow> err option"
  os_toml :: "bytes \<Rightarrow> err + config"
  os_bolt_open :: "bytes \<Rightarrow> err + bucket"
  os_bleve_new :: "bytes \<Rightarrow> err option"
  os_bleve_open :: "bytes \<Rightarrow> err option"
  os_open_log :: "bytes \<Rightarrow> err option"
  \<comment> \<open>\<open>errors.Is\<close> of \<open>fs.ErrNotExist\<close>, \<open>bleve.ErrorIndexPathExists\<close> and \<open>bleve.ErrorIndexPathDoesNotExist\<close>\<close>
  os_not_exist :: "err \<Rightarrow> bool"
  os_index_exists :: "err \<Rightarrow> bool"
  os_index_missing :: "err \<Rightarrow> bool"

text \<open>The command line.\<close>

record flags =
  fl_config :: bytes
  fl_repopulate :: bool
  fl_copyright :: bool

section \<open>The keyword index\<close>

text \<open>
  A new queue, and the entries the index is filled with.  An index that is missing is made by a
  second call with \<open>repopulateKeywordDB\<close> set; an error of the view that reads the posts is dropped.
\<close>

function initKeyword :: "machine \<Rightarrow> env \<Rightarrow> bool \<Rightarrow> (err + (bytes \<times> kwindex) list) go" where
  "initKeyword M E True w =
     (let w = w\<lparr>w_kw := Some []\<rparr>
      in case os_bleve_new M (c_Keywords (e_cfg E)) of
           Some e \<Rightarrow>
             go_ret (Inl (if os_index_exists M e
               then ErrNew ''Keywords database already exists. Please remove this directory and try again.'' else e)) w
         | None \<Rightarrow> go_bind repopulate (\<lambda>r. go_ret (Inr (case r of Inl e \<Rightarrow> [] | Inr l \<Rightarrow> l))) w)"
| "initKeyword M E False w =
     (let w = w\<lparr>w_kw := Some []\<rparr>
      in case os_bleve_open M (c_Keywords (e_cfg E)) of
           Some e \<Rightarrow> if os_index_missing M e then initKeyword M E True w else go_ret (Inl e) w
         | None \<Rightarrow> go_ret (Inr []) w)"
  by pat_completeness auto
termination by (relation "measure (\<lambda>(M, E, b, w). if b then 0 else 1)") auto

section \<open>The database\<close>

text \<open>\<open>initDatabase\<close>: the exit status, or \<open>None\<close> when the database is open and has its buckets.\<close>

definition initDatabase :: "machine \<Rightarrow> env \<Rightarrow> int option go" where
  "initDatabase M E w =
     (case os_bolt_open M (c_Database (e_cfg E)) of
        Inl e \<Rightarrow> go_ret (Some 2) w
      | Inr b \<Rightarrow> go_bind (dbCreateBuckets E) (\<lambda>r. go_ret (case r of Inl e \<Rightarrow> Some 3 | Inr _ \<Rightarrow> None)) (w\<lparr>w_db := b\<rparr>))"

section \<open>The whole start\<close>

text \<open>
  The interval of the flush loop of the limiter's store, \<open>30*Configuration.LimitWindow*time.Minute\<close>,
  and the window of the request limiter; both wrap at 64 bits.
\<close>

definition flush_interval :: "config \<Rightarrow> int" where
  "flush_interval cfg = wrap64 (wrap64 (30 * c_LimitWindow cfg) * (60 * nsec_per_sec))"

text \<open>What the globals set by \<open>main\<close> make of the environment.\<close>

definition boot_env :: "env \<Rightarrow> config \<Rightarrow> env" where
  "boot_env E cfg = E\<lparr>e_cfg := cfg, e_db := True,
     e_limiter := Some (c_LimitConnections cfg, wrap64 (nsec_per_sec * c_LimitWindow cfg)),
     e_report_limiter := Some (1, 60 * nsec_per_sec)\<rparr>"

record running =
  rn_env :: env
  rn_index :: "(bytes \<times> kwindex) list"
  rn_backup_prefix :: bytes
  rn_logging :: bool

text \<open>
  How a start ends: with an exit status, and the file the default configuration was written to if any;
  with a panic; or with the server running.
\<close>

datatype outcome = Exited int "bytes option" | Crashed | Serving running world

text \<open>
  \<open>time.NewTicker\<close> panics on an interval that is not positive.  It is called by a goroutine
  that \<open>NewMapLimitStore\<close> starts; the model lets that goroutine run at once.
\<close>

definition start_main :: "machine \<Rightarrow> env \<Rightarrow> flags \<Rightarrow> world \<Rightarrow> outcome" where
  "start_main M E0 fl w =
     (if fl_copyright fl then Exited 0 None
      else case LoadConfig (os_read_file M) (os_toml M) (fl_config fl) of
        Inl e \<Rightarrow>
          if os_not_exist M e
          then Exited 1 (case os_write_file M (fl_config fl) of None \<Rightarrow> Some (fl_config fl) | Some e \<Rightarrow> None)
          else Exited 1 None
      | Inr (cfg, prefix) \<Rightarrow>
          if flush_interval cfg \<le> 0 then Crashed
          else case os_read_file M (c_Cert cfg) of
            Inl e \<Rightarrow> Exited 1 None
          | Inr cert \<Rightarrow>
              (case os_read_file M (c_Key cfg) of
                 Inl e \<Rightarrow> Exited 1 None
               | Inr key \<Rightarrow>
                   (let E = boot_env E0 cfg
                    in case initDatabase M E (w\<lparr>w_limits := []\<rparr>) of
                         (Ok (Some status), w) \<Rightarrow> Exited status None
                       | (Ok None, w) \<Rightarrow>
                           (case initKeyword M E (fl_repopulate fl) w of
                              (Ok (Inl e), w) \<Rightarrow> Exited 3 None
                            | (Ok (Inr l), w) \<Rightarrow>
                                Serving \<lparr>rn_env = E, rn_index = l, rn_backup_prefix = prefix,
                                  rn_logging = (os_open_log M (c_Log cfg) = None)\<rparr> w
                            | (Fail e, w) \<Rightarrow> Crashed
                            | (Panic, w) \<Rightarrow> Crashed)
                       | (Fail e, w) \<Rightarrow> Crashed
                       | (Panic, w) \<Rightarrow> Crashed)))"

section \<open>The prompt\<close>

text \<open>\<open>ScanlnLoop\<close> of \<open>scanln.go\<close> over the lines of the standard input: what it prints for each.\<close>

fun ScanlnLoop :: "env \<Rightarrow> unit go \<Rightarrow> bytes list \<Rightarrow> (bytes \<times> status) list go" where
  "ScanlnLoop E OnQuit [] = go_ret []"
| "ScanlnLoop E OnQuit (command # rest) =
     go_bind (OnSTDin E OnQuit command) (\<lambda>r. go_bind (ScanlnLoop E OnQuit rest) (\<lambda>rs. go_ret (r # rs)))"

section \<open>Facts\<close>

lemma boot_env_simps [simp]:
  "e_cfg (boot_env E cfg) = cfg" "e_db (boot_env E cfg)" "hash_ok (boot_env E cfg) = hash_ok E"
  by (simp_all add: boot_env_def hash_ok_def)

text \<open>Creating the buckets neither looks at the queue nor changes it.\<close>

definition queue_free :: "'a go \<Rightarrow> bool" where
  "queue_free m \<longleftrightarrow> (\<forall>w k. m (w\<lparr>w_kw := k\<rparr>) = (fst (m w), (snd (m w))\<lparr>w_kw := k\<rparr>))"

lemma queue_freeD: "queue_free m \<Longrightarrow> m w = (r, w') \<Longrightarrow> m (w\<lparr>w_kw := k\<rparr>) = (r, w'\<lparr>w_kw := k\<rparr>)"
  by (simp add: queue_free_def)

lemma queue_free_ret [intro, simp]: "queue_free (go_ret a)" "queue_free (go_fail e)" "queue_free go_panic"
  by (simp_all add: queue_free_def go_simps)

lemma queue_free_bind [intro]: "queue_free m \<Longrightarrow> (\<And>a. queue_free (f a)) \<Longrightarrow> queue_free (go_bind m f)"
  unfolding queue_free_def go_bind_def by (auto split: prod.splits res.splits)

lemma queue_free_bucket [intro, simp]:
  "queue_free (tx_bucket h k)" "queue_free (tx_apply h g)" "queue_free (tx_must h k)"
  by (auto simp: queue_free_def tx_bucket_def tx_apply_def tx_must_def deref_def go_bind_def go_ret_def go_panic_def
      split: option.split sum.split)

lemma queue_free_try [intro]: "queue_free m \<Longrightarrow> queue_free (go_try m)"
  unfolding go_try_def by (intro queue_free_bind) (auto simp: lift_err_def split: sum.split)

lemma queue_free_create [intro, simp]: "queue_free (tx_create_bucket_if_not_exists h k)" "queue_free (create_all h ks)"
proof -
  show "queue_free (tx_create_bucket_if_not_exists h k)" for h k
    unfolding tx_create_bucket_if_not_exists_def tx_create_bucket_def by (intro queue_free_bind; simp)
  then show "queue_free (create_all h ks)"
    by (induction h ks rule: create_all.induct) (auto intro!: queue_free_bind queue_free_try)
qed

lemma queue_free_update [intro]: "queue_free m \<Longrightarrow> queue_free (db_update m)"
  unfolding queue_free_def db_update_def by (auto split: prod.splits res.splits)

lemma queue_free_start [intro, simp]: "queue_free (dbCreateBuckets E)"
  unfolding dbCreateBuckets_def by (intro queue_free_update queue_free_bind; simp)

text \<open>A subforum without an id keeps the server from starting.\<close>

lemma create_all_named: "create_all h ks w = (Ok (), w') \<Longrightarrow> [] \<notin> set ks"
proof (induction h ks arbitrary: w rule: create_all.induct)
  case (2 h k ks)
  have "k \<noteq> []"
  proof
    assume "k = []"
    then have "tx_create_bucket_if_not_exists h k w = (Panic, w) \<or> tx_create_bucket_if_not_exists h k w = (Ok (Inl ErrBucketNameRequired), w)"
      by (auto simp: tx_create_bucket_if_not_exists_def tx_create_bucket_def tx_apply_def b_create_bucket_def go_simps split: option.split)
    then show False using 2(2) by (auto simp: go_simps)
  qed
  then show ?case using 2 by (auto simp: go_bind_def split: prod.splits res.splits)
qed simp

lemma dbCreateBuckets_named:
  assumes "dbCreateBuckets E w = (Ok (Inr ()), w')"
  shows "[] \<notin> set (GetAllSubforumIDs (e_cfg E))"
proof -
  from assms obtain w1 where
    1: "go_bind (create_all [] db_buckets) (\<lambda>_. go_bind (tx_must [] DBSUBFORUMS) (\<lambda>sf. create_all sf (GetAllSubforumIDs (e_cfg E)))) w = (Ok (), w1)"
    by (auto simp: dbCreateBuckets_def db_update_def split: prod.splits res.splits)
  from 1 obtain sf w2 where "create_all sf (GetAllSubforumIDs (e_cfg E)) w2 = (Ok (), w1)"
    by (auto simp: go_bind_def split: prod.splits res.splits)
  then show ?thesis by (rule create_all_named)
qed

text \<open>Reading all posts for the index changes nothing.\<close>

lemma repopulate_run:
  assumes "schema E (w_db w)"
  obtains l where "repopulate w = (Ok (Inr l), w)"
proof -
  note top = schema_top[OF assms]
  have "\<forall>(k, v) \<in> set (dbcur (w_db w) [DBALLPOSTS]). dbis (w_db w) ([DBALLPOSTS] @ [k])"
    using dbcur_mem[OF top(1), of _ _ "[DBALLPOSTS]"] top(2) by (auto simp: cur_entry_def split: if_splits option.splits)
  from index_posts_eq[OF this] show ?thesis
    using that top by (simp add: repopulate_def db_view_def go_simps)
qed

lemma initKeyword_world:
  assumes "schema E (w_db w)"
  obtains r where "initKeyword M E b w = (Ok r, w\<lparr>w_kw := Some []\<rparr>)"
    "(if b then os_bleve_new M (c_Keywords (e_cfg E)) = None else os_bleve_open M (c_Keywords (e_cfg E)) = None) \<Longrightarrow> \<exists>l. r = Inr l"
proof -
  have "schema E (w_db (w\<lparr>w_kw := Some []\<rparr>))" using assms by simp
  then obtain l where l: "repopulate (w\<lparr>w_kw := Some []\<rparr>) = (Ok (Inr l), w\<lparr>w_kw := Some []\<rparr>)" by (rule repopulate_run)
  have t: "\<exists>r. initKeyword M E True w = (Ok r, w\<lparr>w_kw := Some []\<rparr>) \<and> (os_bleve_new M (c_Keywords (e_cfg E)) = None \<longrightarrow> r = Inr l)"
    using l by (auto simp: Let_def go_bind_def go_ret_def split: option.split)
  have k: "w\<lparr>w_kw := Some [], w_kw := Some []\<rparr> = w\<lparr>w_kw := Some []\<rparr>" by simp
  have f: "initKeyword M E True (w\<lparr>w_kw := Some []\<rparr>) = initKeyword M E True w" by (simp add: Let_def)
  show ?thesis
  proof (cases b)
    case True
    then show ?thesis using t that by fastforce
  next
    case False
    show ?thesis
    proof (cases "os_bleve_open M (c_Keywords (e_cfg E))")
      case None
      then show ?thesis using False that[of "Inr []"] by (simp add: Let_def go_ret_def)
    next
      case (Some e)
      then have "initKeyword M E False w = (if os_index_missing M e then initKeyword M E True (w\<lparr>w_kw := Some []\<rparr>) else (Ok (Inl e), w\<lparr>w_kw := Some []\<rparr>))"
        by (simp add: Let_def go_ret_def del: initKeyword.simps(1))
      then show ?thesis using False Some that t unfolding f by (cases "os_index_missing M e") (auto simp del: initKeyword.simps)
    qed
  qed
qed

declare initKeyword.simps [simp del]

end
