(* ===== verification/Starting.thy ===== *)
theory Starting imports Demo Startup Backup begin

text \<open>
  Starting: the program's start is the start of the model's server, it succeeds
  on every database file a server has left, and which configurations it does not survive;
  and what a backup holds.
\<close>

lemma Serving_cases:
  assumes "start_main M E0 fl w = Serving R w'"
  obtains cfg prefix b w1 l where "LoadConfig (os_read_file M) (os_toml M) (fl_config fl) = Inr (cfg, prefix)"
    "os_bolt_open M (c_Database cfg) = Inr b" "rn_env R = boot_env E0 cfg"
    "dbCreateBuckets (boot_env E0 cfg) (w\<lparr>w_limits := [], w_db := b\<rparr>) = (Ok (Inr ()), w1)"
    "initKeyword M (boot_env E0 cfg) (fl_repopulate fl) w1 = (Ok (Inr l), w')" "rn_index R = l"
proof -
  obtain cfg prefix where 1: "LoadConfig (os_read_file M) (os_toml M) (fl_config fl) = Inr (cfg, prefix)"
    using assms by (auto simp: start_main_def split: if_splits sum.splits option.splits)
  then obtain w1 l where 2: "initDatabase M (boot_env E0 cfg) (w\<lparr>w_limits := []\<rparr>) = (Ok None, w1)"
    "initKeyword M (boot_env E0 cfg) (fl_repopulate fl) w1 = (Ok (Inr l), w')" "rn_env R = boot_env E0 cfg" "rn_index R = l"
    using assms by (auto simp: start_main_def Let_def split: if_splits sum.splits option.splits prod.splits res.splits)
  then obtain b where "os_bolt_open M (c_Database cfg) = Inr b"
    "dbCreateBuckets (boot_env E0 cfg) (w\<lparr>w_limits := [], w_db := b\<rparr>) = (Ok (Inr ()), w1)"
    by (auto simp: initDatabase_def go_bind_def go_ret_def split: sum.splits prod.splits res.splits)
  then show ?thesis using that 1 2 by blast
qed

lemma startup_step:
  assumes "start_main M E0 fl w = Serving R w'" "os_bolt_open M (c_Database (e_cfg (rn_env R))) = Inr b"
    and "sound b" "hash_ok E0" "clock_ok (w_clock w)"
  shows "step (Down b) (Up (rn_env R) w') \<and> w_limits w' = [] \<and> w_kw w' = Some []"
proof -
  obtain cfg prefix b' w1 l where S: "os_bolt_open M (c_Database cfg) = Inr b'" "rn_env R = boot_env E0 cfg"
    "dbCreateBuckets (boot_env E0 cfg) (w\<lparr>w_limits := [], w_db := b'\<rparr>) = (Ok (Inr ()), w1)"
    "initKeyword M (boot_env E0 cfg) (fl_repopulate fl) w1 = (Ok (Inr l), w')"
    using Serving_cases[OF assms(1)] by metis
  let ?E = "boot_env E0 cfg" and ?w = "w\<lparr>w_limits := [], w_db := b\<rparr>"
  have b: "b' = b" using S(1,2) assms(2) by simp
  have n: "[] \<notin> set (GetAllSubforumIDs (e_cfg ?E))" by (rule dbCreateBuckets_named[OF S(3)])
  have so: "sound (w_db ?w)" using assms(3) by simp
  have "schema ?E (w_db w1)" using start_schema(2)[OF so n] S(3) b by auto
  then have w': "w' = w1\<lparr>w_kw := Some []\<rparr>" using initKeyword_world S(4) by (metis prod.inject)
  have "dbCreateBuckets ?E (?w\<lparr>w_kw := Some []\<rparr>) = (Ok (Inr ()), w')"
    using queue_freeD[OF queue_free_start S(3)] b w' by simp
  moreover have "env_ok ?E" using n assms(4) by (simp add: env_ok_def)
  ultimately have "step (Down (w_db (?w\<lparr>w_kw := Some []\<rparr>))) (Up ?E w')" using assms(5) by (intro step.start) simp_all
  moreover have "db_openable ?E (w_db ?w)"
    using so n by (auto simp: db_openable_def sound_def)
  from dbCreateBuckets_ok[OF this] obtain b2 where "dbCreateBuckets ?E ?w = (Ok (Inr ()), ?w\<lparr>w_db := b2\<rparr>)" by metis
  then have "w_limits w1 = []" using S(3) b by auto
  ultimately show ?thesis using S(2) w' by simp
qed

text \<open>
  C32: the start of the program is the start of the model: when \<open>main\<close> gets as far as serving, on a database file that a
  server left or an empty one, it has taken the \<open>start\<close> step, with fresh counters and an empty queue.
\<close>
theorem startup_refines:
  assumes "start_main M E0 fl w = Serving R w'" "os_bolt_open M (c_Database (e_cfg (rn_env R))) = Inr b"
    and "sound b" "hash_ok E0" "clock_ok (w_clock w)"
  shows "step (Down b) (Up (rn_env R) w') \<and> w_limits w' = [] \<and> w_kw w' = Some []"
  by (rule startup_step[OF assms])

text \<open>The way through \<open>main\<close> when everything it needs is there.\<close>

lemma main_serves:
  assumes "LoadConfig (os_read_file M) (os_toml M) (fl_config fl) = Inr (cfg, prefix)" "\<not> fl_copyright fl" "0 < flush_interval cfg"
    and "os_read_file M (c_Cert cfg) = Inr cert" "os_read_file M (c_Key cfg) = Inr key" "os_bolt_open M (c_Database cfg) = Inr b"
    and "sound b" "[] \<notin> set (GetAllSubforumIDs cfg)"
    and "if fl_repopulate fl then os_bleve_new M (c_Keywords cfg) = None else os_bleve_open M (c_Keywords cfg) = None"
  shows "\<exists>R w'. start_main M E0 fl w = Serving R w' \<and> e_cfg (rn_env R) = cfg \<and> rn_backup_prefix R = prefix
     \<and> schema (rn_env R) (w_db w') \<and> forum (w_db w') = forum b \<and> accounts (w_db w') = accounts b \<and> sessions (w_db w') = sessions b"
proof -
  let ?E = "boot_env E0 cfg" and ?w = "w\<lparr>w_limits := [], w_db := b\<rparr>"
  have n: "[] \<notin> set (GetAllSubforumIDs (e_cfg ?E))" using assms(8) by simp
  have so: "sound (w_db ?w)" using assms(7) by simp
  obtain r w1 where w1: "dbCreateBuckets ?E ?w = (r, w1)" by fastforce
  note st = start_schema[OF so n w1]
  obtain q where q: "initKeyword M ?E (fl_repopulate fl) w1 = (Ok q, w1\<lparr>w_kw := Some []\<rparr>)" "\<exists>l. q = Inr l"
    using initKeyword_world[OF st(2)] assms(9) by (metis boot_env_simps(1))
  have "initDatabase M ?E (w\<lparr>w_limits := []\<rparr>) = (Ok None, w1)"
    using assms(6) w1 st(1) by (simp add: initDatabase_def go_bind_def go_ret_def)
  then have r: "\<exists>R. start_main M E0 fl w = Serving R (w1\<lparr>w_kw := Some []\<rparr>) \<and> rn_env R = ?E \<and> rn_backup_prefix R = prefix"
    using assms q by (auto simp: start_main_def)
  have wf: "b_wf b" "b_wf (w_db w1)" using so schema_top(1)[OF st(2)] by (simp_all add: sound_def)
  have "thread_posts (w_db w1) t = thread_posts b t" for t
    unfolding thread_posts_def by (rule values_same[OF wf]) (use st in simp_all)
  then have "forum (w_db w1) = forum b" using st by (simp add: fun_eq_iff forum_def post_line_def)
  moreover have "accounts (w_db w1) = accounts b" "sessions (w_db w1) = sessions b"
    using st by (simp_all add: fun_eq_iff accounts_def sessions_def)
  ultimately show ?thesis using r st(2) by auto
qed

text \<open>
  C33: a server comes up again: with a readable configuration that has no subforum without an id and windows that do not
  overflow, readable certificates and a usable index, \<open>main\<close> serves on every database file a server left, with the schema
  and with the forum, the accounts and the sessions as they were.
\<close>
theorem startup_serves:
  assumes "LoadConfig (os_read_file M) (os_toml M) (fl_config fl) = Inr (cfg, prefix)" "\<not> fl_copyright fl" "0 < flush_interval cfg"
    and "os_read_file M (c_Cert cfg) = Inr cert" "os_read_file M (c_Key cfg) = Inr key" "os_bolt_open M (c_Database cfg) = Inr b"
    and "sound b" "[] \<notin> set (GetAllSubforumIDs cfg)"
    and "if fl_repopulate fl then os_bleve_new M (c_Keywords cfg) = None else os_bleve_open M (c_Keywords cfg) = None"
  shows "\<exists>R w'. start_main M E0 fl w = Serving R w' \<and> e_cfg (rn_env R) = cfg \<and> rn_backup_prefix R = prefix
     \<and> schema (rn_env R) (w_db w') \<and> forum (w_db w') = forum b \<and> accounts (w_db w') = accounts b \<and> sessions (w_db w') = sessions b"
  by (rule main_serves[OF assms])

section \<open>Configurations the start does not survive\<close>

text \<open>The interval is the product in 64 bits; it is positive exactly if the product modulo \<open>2^64\<close> is less than \<open>2^63\<close> and not 0.\<close>

lemma wrap64_pos: "0 < wrap64 x \<longleftrightarrow> 0 < x mod 2 ^ 64 \<and> x mod 2 ^ 64 < 2 ^ 63"
proof -
  define y where "y = x mod 2 ^ 64"
  have b: "0 \<le> y" "y < 2 ^ 64" by (simp_all add: y_def)
  have "(x + 2 ^ 63) mod 2 ^ 64 = (y + 2 ^ 63) mod 2 ^ 64" by (simp add: mod_add_left_eq y_def)
  also have "\<dots> = (if y < 2 ^ 63 then y + 2 ^ 63 else y - 2 ^ 63)"
  proof (cases "y < 2 ^ 63")
    case False
    have "(y + 2 ^ 63) mod 2 ^ 64 = (y + 2 ^ 63 - 2 ^ 64) mod 2 ^ 64" by (rule minus_mod_self2[symmetric])
    also have "\<dots> = y + 2 ^ 63 - 2 ^ 64" using False b by (intro mod_pos_pos_trivial) simp_all
    finally show ?thesis using False by simp
  qed (use b in \<open>simp add: mod_pos_pos_trivial\<close>)
  finally show ?thesis using b unfolding wrap64_def y_def[symmetric] by auto
qed

definition flush_product :: "int \<Rightarrow> int" where
  "flush_product n = n * 1800000000000 mod 2 ^ 64"

lemma flush_positive: "0 < flush_interval cfg \<longleftrightarrow> 0 < flush_product (c_LimitWindow cfg) \<and> flush_product (c_LimitWindow cfg) < 2 ^ 63"
proof -
  have w: "wrap64 x mod 2 ^ 64 = x mod 2 ^ 64" for x by (simp add: wrap64_def mod_diff_left_eq)
  have "wrap64 (30 * n) * 60000000000 mod 2 ^ 64 = n * 1800000000000 mod 2 ^ 64" for n
    using mod_mult_left_eq[of "wrap64 (30 * n)" "2 ^ 64" 60000000000] mod_mult_left_eq[of "30 * n" "2 ^ 64" 60000000000] w[of "30 * n"]
    by (simp add: mult.commute)
  then show ?thesis unfolding flush_interval_def wrap64_pos by (simp add: nsec_per_sec_def flush_product_def)
qed

lemma flush_small: "0 \<le> n \<Longrightarrow> n \<le> 10248191 \<Longrightarrow> 0 < flush_product n \<and> flush_product n < 2 ^ 63 \<longleftrightarrow> 1 \<le> n \<and> n \<le> 5124095"
proof -
  assume n: "0 \<le> n" "n \<le> 10248191"
  then have "flush_product n = n * 1800000000000" unfolding flush_product_def by (intro mod_pos_pos_trivial) simp_all
  then show ?thesis using n by auto
qed

text \<open>
  C34: the window of the rate limit is not checked: where everything else that \<open>main\<close> needs is there, it serves if the flush interval
  that is computed from the window, \<open>30 * window\<close> minutes in 64 bits, is positive, and otherwise ends in the panic of \<open>time.NewTicker\<close>.
  Of the windows up to 10248191 seconds, those from 1 to 5124095 are served; 0 and those from 5124096 on panic.
\<close>
theorem window_bounds:
  assumes "LoadConfig (os_read_file M) (os_toml M) (fl_config fl) = Inr (cfg, prefix)" "\<not> fl_copyright fl"
    and "os_read_file M (c_Cert cfg) = Inr cert" "os_read_file M (c_Key cfg) = Inr key" "os_bolt_open M (c_Database cfg) = Inr b"
    and "sound b" "[] \<notin> set (GetAllSubforumIDs cfg)"
    and "if fl_repopulate fl then os_bleve_new M (c_Keywords cfg) = None else os_bleve_open M (c_Keywords cfg) = None"
  shows "(if 0 < flush_product (c_LimitWindow cfg) \<and> flush_product (c_LimitWindow cfg) < 2 ^ 63
      then \<exists>R w'. start_main M E0 fl w = Serving R w' \<and> e_cfg (rn_env R) = cfg else start_main M E0 fl w = Crashed)
    \<and> (0 \<le> c_LimitWindow cfg \<and> c_LimitWindow cfg \<le> 10248191 \<longrightarrow>
        (start_main M E0 fl w = Crashed \<longleftrightarrow> c_LimitWindow cfg = 0 \<or> 5124096 \<le> c_LimitWindow cfg))"
proof -
  have s: "\<exists>R w'. start_main M E0 fl w = Serving R w' \<and> e_cfg (rn_env R) = cfg" if "0 < flush_interval cfg"
    using main_serves[OF assms(1,2) that assms(3-8)] by blast
  have c: "start_main M E0 fl w = Crashed" if "\<not> 0 < flush_interval cfg"
    using that assms(1,2) by (simp add: start_main_def)
  have n: "start_main M E0 fl w = Crashed \<longleftrightarrow> \<not> 0 < flush_interval cfg" using s c by fastforce
  have "c_LimitWindow cfg = 0 \<or> 5124096 \<le> c_LimitWindow cfg \<longleftrightarrow> \<not> 0 < flush_interval cfg"
    if "0 \<le> c_LimitWindow cfg" "c_LimitWindow cfg \<le> 10248191"
    using flush_small[OF that] that unfolding flush_positive by auto
  then show ?thesis using s c n unfolding flush_positive by auto
qed

lemma check_subforums_eq:
  "check_subforums seen ss = (if distinct (map sf_ID ss) \<and> set (map sf_ID ss) \<inter> set seen = {}
     then Inr (rev (map sf_ID ss) @ seen) else Inl ErrDuplicateSubforumName)"
  by (induction seen ss rule: check_subforums.induct) auto

definition forum_ids :: "Config.forum \<Rightarrow> bytes list" where
  "forum_ids f = map sf_ID (f_Subforum f)"

lemma distinct_seen: "distinct (a @ c) \<and> set (a @ c) \<inter> set i = {} \<longleftrightarrow>
    distinct a \<and> set a \<inter> set i = {} \<and> distinct c \<and> set c \<inter> set (rev a @ i) = {}"
  by auto

lemma check_forums_eq:
  "(check_forums names ids fs = None \<longleftrightarrow> (distinct (map f_Name fs) \<and> set (map f_Name fs) \<inter> set names = {})
     \<and> (distinct (concat (map forum_ids fs)) \<and> set (concat (map forum_ids fs)) \<inter> set ids = {}))
   \<and> check_forums names ids fs \<in> {None, Some ErrDuplicateForumName, Some ErrDuplicateSubforumName}"
proof (induction fs arbitrary: names ids)
  case (Cons f fs)
  have n: "distinct (map f_Name (f # fs)) \<and> set (map f_Name (f # fs)) \<inter> set names = {} \<longleftrightarrow>
      f_Name f \<notin> set names \<and> distinct (map f_Name fs) \<and> set (map f_Name fs) \<inter> set (f_Name f # names) = {}" by auto
  have i: "concat (map forum_ids (f # fs)) = forum_ids f @ concat (map forum_ids fs)" by simp
  have c: "check_forums names ids (f # fs) = (if f_Name f \<in> set names then Some ErrDuplicateForumName
      else if distinct (forum_ids f) \<and> set (forum_ids f) \<inter> set ids = {}
      then check_forums (f_Name f # names) (rev (forum_ids f) @ ids) fs else Some ErrDuplicateSubforumName)"
    by (simp add: check_subforums_eq forum_ids_def)
  show ?case
    unfolding n i c distinct_seen using Cons.IH[of "f_Name f # names" "rev (forum_ids f) @ ids"] by (simp only: split: if_split) blast
qed simp

text \<open>
  A configuration is accepted exactly if no two forums have the same name and no two subforums, of whatever forums,
  have the same id; it is then used as it is, with the port 1965 filled in when no address to listen on is given.
\<close>
theorem config_checked:
  "if distinct (map f_Name (c_Forum cfg)) \<and> distinct (GetAllSubforumIDs cfg)
   then check_config cfg = Inr (if c_Listen cfg = [] then cfg\<lparr>c_Listen := '':1965''\<rparr> else cfg)
   else check_config cfg \<in> {Inl ErrDuplicateForumName, Inl ErrDuplicateSubforumName}"
proof -
  let ?cfg = "if c_Listen cfg = [] then cfg\<lparr>c_Listen := '':1965''\<rparr> else cfg"
  have f: "c_Forum ?cfg = c_Forum cfg" by simp
  have c: "check_config cfg = (case check_forums [] [] (c_Forum cfg) of Some e \<Rightarrow> Inl e | None \<Rightarrow> Inr ?cfg)"
    unfolding check_config_def Let_def f by (rule refl)
  show ?thesis
    using check_forums_eq[of "[]" "[]" "c_Forum cfg"] unfolding c by (auto simp: GetAllSubforumIDs_def forum_ids_def[abs_def])
qed

section \<open>Starts of the demo\<close>

definition demo_machine :: "config \<Rightarrow> machine" where
  "demo_machine cfg = \<lparr>os_read_file = (\<lambda>f. Inr f), os_write_file = (\<lambda>f. None), os_toml = (\<lambda>t. Inr cfg),
     os_bolt_open = (\<lambda>f. Inr demo_db), os_bleve_new = (\<lambda>f. None), os_bleve_open = (\<lambda>f. None), os_open_log = (\<lambda>f. None),
     os_not_exist = (\<lambda>e. False), os_index_exists = (\<lambda>e. False), os_index_missing = (\<lambda>e. False)\<rparr>"

definition demo_flags :: flags where
  "demo_flags = \<lparr>fl_config = ''config.toml'', fl_repopulate = False, fl_copyright = False\<rparr>"

lemma demo_loads:
  "LoadConfig (os_read_file (demo_machine demo_cfg)) (os_toml (demo_machine demo_cfg)) (fl_config demo_flags) = Inr (demo_cfg, ''backup'')"
  "LoadConfig (os_read_file (demo_machine (demo_cfg\<lparr>c_LimitWindow := n\<rparr>))) (os_toml (demo_machine (demo_cfg\<lparr>c_LimitWindow := n\<rparr>)))
     (fl_config demo_flags) = Inr (demo_cfg\<lparr>c_LimitWindow := n\<rparr>, ''backup'')"
  by (simp_all add: LoadConfig_def demo_machine_def demo_flags_def check_config_def demo_cfg_def Let_def)

lemma demo_started:
  obtains R w' where "start_main (demo_machine demo_cfg) demo_env demo_flags (demo_world empty_bucket) = Serving R w'"
    "e_cfg (rn_env R) = demo_cfg" "rn_backup_prefix R = ''backup''"
proof -
  have "0 < flush_interval demo_cfg" by (simp add: flush_interval_def demo_cfg_def wrap64_def nsec_per_sec_def)
  moreover have "\<exists>R w'. start_main (demo_machine demo_cfg) demo_env demo_flags (demo_world empty_bucket) = Serving R w'
     \<and> e_cfg (rn_env R) = demo_cfg \<and> rn_backup_prefix R = ''backup''"
    if "0 < flush_interval demo_cfg"
  proof -
    let ?E = "boot_env demo_env demo_cfg" and ?w = "demo_world empty_bucket\<lparr>w_limits := [], w_db := demo_db\<rparr>"
    have n: "[] \<notin> set (GetAllSubforumIDs (e_cfg ?E))" and so: "sound (w_db ?w)"
      using sound_schema[OF goodD(1)[OF demo_db]] by simp_all
    obtain r w1 where w1: "dbCreateBuckets ?E ?w = (r, w1)" by fastforce
    note st = start_schema[OF so n w1]
    obtain q where "initKeyword (demo_machine demo_cfg) ?E False w1 = (Ok q, w1\<lparr>w_kw := Some []\<rparr>)" "\<exists>l. q = Inr l"
      using initKeyword_world[OF st(2), of "demo_machine demo_cfg" False] by (auto simp: demo_machine_def)
    moreover have "initDatabase (demo_machine demo_cfg) ?E (demo_world empty_bucket\<lparr>w_limits := []\<rparr>) = (Ok None, w1)"
      using w1 st(1) by (simp add: initDatabase_def demo_machine_def go_bind_def go_ret_def)
    ultimately show ?thesis
      using that demo_loads(1) by (auto simp: start_main_def demo_flags_def) (auto simp: demo_machine_def)
  qed
  ultimately show ?thesis using that by blast
qed

theorem startup_refines_witness:
  "\<exists>R w'. start_main (demo_machine demo_cfg) demo_env demo_flags (demo_world empty_bucket) = Serving R w'
     \<and> step (Down demo_db) (Up (rn_env R) w')"
proof -
  obtain R w' where R: "start_main (demo_machine demo_cfg) demo_env demo_flags (demo_world empty_bucket) = Serving R w'"
    by (rule demo_started)
  have "os_bolt_open (demo_machine demo_cfg) f = Inr demo_db" for f by (simp add: demo_machine_def)
  from startup_refines[OF R this] R show ?thesis using sound_schema[OF goodD(1)[OF demo_db]] by auto
qed

theorem startup_serves_witness:
  "\<exists>R w'. start_main (demo_machine demo_cfg) demo_env demo_flags (demo_world empty_bucket) = Serving R w'
     \<and> forum (w_db w') (itob 1) = forum demo_db (itob 1)"
proof -
  have "0 < flush_interval demo_cfg" by (simp add: flush_interval_def demo_cfg_def wrap64_def nsec_per_sec_def)
  from startup_serves[OF demo_loads(1) _ this, of "c_Cert demo_cfg" "c_Key demo_cfg" demo_db demo_env "demo_world empty_bucket"] show ?thesis
    using sound_schema[OF goodD(1)[OF demo_db]] by (auto simp: demo_machine_def demo_flags_def)
qed

theorem window_bounds_witness:
  "start_main (demo_machine (demo_cfg\<lparr>c_LimitWindow := 0\<rparr>)) demo_env demo_flags (demo_world demo_db) = Crashed
   \<and> start_main (demo_machine (demo_cfg\<lparr>c_LimitWindow := 5124096\<rparr>)) demo_env demo_flags (demo_world demo_db) = Crashed
   \<and> (\<exists>R w'. start_main (demo_machine (demo_cfg\<lparr>c_LimitWindow := 10248192\<rparr>)) demo_env demo_flags (demo_world demo_db) = Serving R w')"
proof -
  have m: "os_read_file (demo_machine c) f = Inr f" "os_bolt_open (demo_machine c) f = Inr demo_db" "os_bleve_open (demo_machine c) f = None" for c f
    by (simp_all add: demo_machine_def)
  have g: "[] \<notin> set (GetAllSubforumIDs (demo_cfg\<lparr>c_LimitWindow := n\<rparr>))" for n by (simp add: GetAllSubforumIDs_def demo_cfg_def)
  have fl: "\<not> fl_copyright demo_flags"
    "if fl_repopulate demo_flags then os_bleve_new (demo_machine c) f = None else os_bleve_open (demo_machine c) f = None" for c f
    by (simp_all add: demo_flags_def demo_machine_def)
  note W = window_bounds[OF demo_loads(2) fl(1) m(1) m(1) m(2) sound_schema[OF goodD(1)[OF demo_db]] g fl(2), of _ demo_env "demo_world demo_db"]
  have "flush_product 10248192 = 1526290448384" by (simp add: flush_product_def)
  then show ?thesis using W[of 0] W[of 5124096] W[of 10248192] by auto
qed

section \<open>Backups\<close>

lemma RFC3339_second:
  assumes "clock_time a" "clock_time b" "RFC3339 a = RFC3339 b"
  shows "t_ns a div nsec_per_sec = t_ns b div nsec_per_sec"
proof -
  have "t_ns a div nsec_per_sec * nsec_per_sec = t_ns b div nsec_per_sec * nsec_per_sec"
    using parse_format[OF clock_year_now[OF assms(1)], of False] parse_format[OF clock_year_now[OF assms(2)], of False] assms(3)
    by (auto simp: RFC3339_def)
  then show ?thesis by (simp add: nsec_per_sec_def)
qed

text \<open>
  C35: a backup touches neither the database nor an earlier backup: it saves what the database holds at that moment, packed, under the
  prefix and the time, or nothing, if it is switched off or a step before the writing fails; how much of the file is written is not checked: when
  the writing fails part of the way, the file keeps the part.  The files of backups made in other seconds stay as they are.
\<close>
theorem backup_saved:
  assumes "clock_time (w_clock w 0)" "runBackup A cfg prefix files w = (r, w')"
  shows "\<exists>files'. r = Ok files' \<and> w_db w' = w_db w
    \<and> (let name = prefix @ RFC3339 (w_clock w 0) @ ''.xz'' in
        if fs_Enabled (backup_File (c_Backup cfg)) \<and> ar_xz_open A = None \<and> ar_create A name = None
           \<and> (\<exists>raw packed. ar_write_to A (w_db w) = Inr raw \<and> ar_xz A raw = Inr packed)
        then \<exists>raw packed. ar_write_to A (w_db w) = Inr raw \<and> ar_xz A raw = Inr packed
               \<and> files' = files(name \<mapsto> take (ar_copy A name packed) packed)
        else files' = files)
    \<and> (\<forall>t. clock_time t \<and> t_ns t div nsec_per_sec \<noteq> t_ns (w_clock w 0) div nsec_per_sec \<longrightarrow>
          files' (prefix @ RFC3339 t @ ''.xz'') = files (prefix @ RFC3339 t @ ''.xz''))"
proof -
  have "prefix @ RFC3339 t @ ''.xz'' \<noteq> prefix @ RFC3339 (w_clock w 0) @ ''.xz''"
    if "clock_time t" "t_ns t div nsec_per_sec \<noteq> t_ns (w_clock w 0) div nsec_per_sec" for t
    using RFC3339_second[OF that(1) assms(1)] that(2) by auto
  then show ?thesis using assms(2) by (auto simp: runBackup_eq Let_def split: sum.splits if_splits)
qed

theorem backup_saved_witness:
  "\<exists>files' w'. runBackup \<lparr>ar_write_to = (\<lambda>b. if b = demo_db then Inr ''image'' else Inl ErrNotFound), ar_xz_open = None,
       ar_xz = (\<lambda>raw. Inr raw), ar_create = (\<lambda>f. None), ar_copy = (\<lambda>f s. 3)\<rparr> (demo_cfg\<lparr>c_Backup := \<lparr>backup_File = \<lparr>fs_Enabled = True, fs_Prefix = ''b''\<rparr>\<rparr>\<rparr>)
       ''b'' (\<lambda>f. Some ''old'') (demo_world demo_db) = (Ok files', w')
     \<and> files' (''b'' @ RFC3339 demo_time @ ''.xz'') = Some ''ima''
     \<and> files' (''b'' @ RFC3339 \<lparr>t_ns = 0, t_off = 0\<rparr> @ ''.xz'') = Some ''old''"
proof -
  let ?A = "\<lparr>ar_write_to = (\<lambda>b. if b = demo_db then Inr ''image'' else Inl ErrNotFound), ar_xz_open = None,
       ar_xz = (\<lambda>raw. Inr raw), ar_create = (\<lambda>f. None), ar_copy = (\<lambda>f s. 3)\<rparr>"
  let ?cfg = "demo_cfg\<lparr>c_Backup := \<lparr>backup_File = \<lparr>fs_Enabled = True, fs_Prefix = ''b''\<rparr>\<rparr>\<rparr>"
  obtain r w' where r: "runBackup ?A ?cfg ''b'' (\<lambda>f. Some ''old'') (demo_world demo_db) = (r, w')" by fastforce
  have t: "clock_time \<lparr>t_ns = 0, t_off = 0\<rparr>" "t_ns \<lparr>t_ns = 0, t_off = 0\<rparr> div nsec_per_sec \<noteq> t_ns demo_time div nsec_per_sec"
    by (simp_all add: clock_time_def zone_ok_def demo_time_def nsec_per_sec_def)
  show ?thesis using backup_saved[OF _ r] r t by (auto simp: Let_def)
qed

end
