(* ===== verification/Counters.thy ===== *)
theory Counters imports System begin

text \<open>
  What an operation can do to the state outside the database: the locale \<open>world_invariant\<close> is the contract
  for a property of the limiter's counters and the clock.  It has to survive the passing of time and a count more; then
  every handler, command and background step of the program keeps it.
\<close>

locale world_invariant =
  fixes I :: "world \<Rightarrow> bool"
  assumes I_upd [simp]: "I (w\<lparr>w_db := b\<rparr>) = I w" "I (w\<lparr>w_kw := q\<rparr>) = I w" "I (w\<lparr>w_sent := m\<rparr>) = I w"
      "I (w\<lparr>w_rand := r\<rparr>) = I w" "I (w\<lparr>w_salt := s\<rparr>) = I w" "I (w\<lparr>w_smtp := x\<rparr>) = I w"
    and I_tick: "I w \<Longrightarrow> I (w\<lparr>w_clock := \<lambda>n. w_clock w (Suc n)\<rparr>)"
    and I_count: "I w \<Longrightarrow> I (snd (store_Inc k win w))"
begin

definition holds :: "'a go \<Rightarrow> bool" where
  "holds m \<longleftrightarrow> (\<forall>w. I w \<longrightarrow> I (snd (m w)))"

lemma holdsD: "holds m \<Longrightarrow> m w = (r, w') \<Longrightarrow> I w \<Longrightarrow> I w'"
  unfolding holds_def by (metis snd_conv)

lemma holds_bind [intro]: "holds m \<Longrightarrow> (\<And>a. holds (f a)) \<Longrightarrow> holds (go_bind m f)"
  unfolding holds_def go_bind_def by (fastforce split: prod.split res.split)

lemma holds_base [intro, simp]:
  "holds (go_ret a)" "holds (go_fail e)" "holds go_panic" "holds time_now" "holds rand_uint64" "holds read_salt"
  "holds (tx_bucket h k)" "holds (tx_get h k)" "holds (tx_cursor h)" "holds (tx_apply h g)" "holds (tx_next_sequence h)"
  "holds (tx_put h k v)" "holds (tx_delete h k)" "holds (sendPostToKeywordDB a' x y z)" "holds (smtp_deliver ml)"
  "holds (store_Inc ky win)" "holds (store_Get ky pw cw)"
  by (auto simp: holds_def go_simps tx_bucket_def tx_get_def tx_cursor_def tx_apply_def tx_next_sequence_def tx_put_def tx_delete_def
      sendPostToKeywordDB_eq smtp_deliver_def store_Get_def I_tick I_count split: option.split sum.split prod.split)

lemma holds_cases [intro]:
  "(\<And>a. holds (f a)) \<Longrightarrow> holds m \<Longrightarrow> holds (case x of None \<Rightarrow> m | Some a \<Rightarrow> f a)"
  "(\<And>e. holds (g e)) \<Longrightarrow> (\<And>a. holds (h a)) \<Longrightarrow> holds (case y of Inl e \<Rightarrow> g e | Inr a \<Rightarrow> h a)"
  "(\<And>a b. holds (j a b)) \<Longrightarrow> holds (case z of (a, b) \<Rightarrow> j a b)"
  "holds m \<Longrightarrow> holds n \<Longrightarrow> holds (if c then m else n)"
  "holds (k v) \<Longrightarrow> holds (Let v k)"
  by (simp_all split: option.split sum.split prod.split)

lemma holds_derived [intro, simp]:
  "holds (deref p)" "holds (or_fail p e)" "holds (lift_err r)" "holds (guard_err b e)"
  "holds (tx_must h k)" "holds (tx_create_bucket h k)" "holds (tx_create_bucket_if_not_exists h k)"
  by (auto simp: deref_def or_fail_def lift_err_def guard_err_def tx_must_def tx_create_bucket_def
      tx_create_bucket_if_not_exists_def split: option.split sum.split)

lemma holds_wrap [intro]:
  "holds m \<Longrightarrow> holds (go_try m)" "holds n \<Longrightarrow> holds (return_err n)" "holds n \<Longrightarrow> holds (ignore_err n)"
  by (auto simp: go_try_def return_err_def ignore_err_def split: option.split sum.split)

lemma holds_put_fields [intro, simp]: "holds (put_fields h kvs)"
  by (induction h kvs rule: put_fields.induct) (auto simp: put_fields.simps intro!: holds_bind holds_wrap)

lemma holds_map_go [intro]: "(\<And>x. holds (f x)) \<Longrightarrow> holds (map_go f xs)"
  by (induction xs) auto

lemma holds_db [intro]:
  assumes "holds m"
  shows "holds (db_update m)" "holds (db_view m)"
proof -
  have "I (snd (f w))" if "I w" "f = db_update m \<or> f = db_view m" for f w
  proof -
    obtain r w' where "m w = (r, w')" by fastforce
    moreover from this have "I w'" using holdsD[OF assms] that(1) by blast
    ultimately show ?thesis using that(2) by (cases r) (auto simp: db_update_def db_view_def)
  qed
  then show "holds (db_update m)" "holds (db_view m)" unfolding holds_def by blast+
qed

lemmas holds_rules = holds_bind holds_cases holds_wrap holds_map_go holds_db

section \<open>Transactions\<close>

lemma holds_tx [intro, simp]:
  "holds (register_tx E u em h v)" "holds (verify_tx c)" "holds (logout_tx fp)" "holds (login_tx fp u)"
  "holds (login_view u)" "holds (user_found_view u)" "holds (name_taken_view E u)" "holds (nudge_view u)" "holds (nudge_tx u)"
  "holds (subforum_of_view i)" "holds (lock_tx i s)" "holds (mute_tx u p)" "holds (unmute_tx u)" "holds (read_view b n k)"
  "holds (log_tx u pr x)" "holds (unmarshal_time E t)"
  unfolding register_tx_def verify_tx_def logout_tx_def login_tx_def login_view_def user_found_view_def name_taken_view_def
    nudge_view_def nudge_tx_def subforum_of_view_def lock_tx_def mute_tx_def unmute_tx_def read_view_def log_tx_def unmarshal_time_def Let_def
  by (intro holds_rules; simp)+

lemma holds_posting [intro, simp]: "holds (new_post_tx u t x p)" "holds (new_thread_tx s u t x)"
proof -
  have a: "holds (AddNewPostToDatabase a b c d h)" for a b c d h
    unfolding AddNewPostToDatabase_def Let_def by (intro holds_rules; simp)
  have o: "holds (open_thread a b)" "holds (link_thread n d)" for a b n d
    unfolding open_thread_def link_thread_def Let_def by (intro holds_rules; simp)+
  show "holds (new_post_tx u t x p)" "holds (new_thread_tx s u t x)"
    unfolding new_post_tx_def new_thread_tx_def by (intro holds_rules a o; simp)+
qed

lemma holds_reading [intro, simp]:
  "holds (subforum_view E s)" "holds (thread_view E i)" "holds (search_user_view u)" "holds (keyword_view ids)" "holds (report_tx E i)"
  unfolding subforum_view_def read_thread_def thread_view_def read_post_def search_user_view_def search_thread_def search_post_def
    keyword_view_def keyword_result_def report_tx_def
  by (intro holds_rules; simp)+

section \<open>Handlers\<close>

lemma holds_parts [intro, simp]:
  "holds (GetUsernameFromFP E fp)" "holds (sendEmail E em)" "holds (SendEmailOnRegistration E u a v)" "holds (validateUsername E u)"
  "holds (limiter_Check l k)" "holds (limiter_Inc l k)" "holds (OnRegister E u a p)" "holds (OnNewPost u t x pr)"
  "holds (OnNewThread E s u t x)" "holds (CheckForPostNudge u)" "holds (UpdateForPostNudge u)" "holds (thread_line th)"
  "holds (post_lines E y)" "holds (viewer_priv E c)" "holds (SendEmailOnReport E po u x c)"
proof -
  have m: "holds (IsUserCurrentlyMuted v)" for v unfolding IsUserCurrentlyMuted_def Let_def by (intro holds_rules; simp)
  show g: "holds (GetUsernameFromFP E fp)" for fp unfolding GetUsernameFromFP_def by (intro holds_rules m; simp)
  show e: "holds (sendEmail E em)" for em unfolding sendEmail_def Let_def by (intro holds_rules; simp)
  show r: "holds (SendEmailOnRegistration E u a v)" for v unfolding SendEmailOnRegistration_def by (intro holds_rules e; simp)
  show "holds (validateUsername E u)" unfolding validateUsername_def Let_def by (intro holds_rules; simp)
  show l: "holds (limiter_Check l k)" "holds (limiter_Inc l k)" for l k unfolding limiter_Check_def limiter_Inc_def Let_def
    by (intro holds_rules; simp)+
  show "holds (OnRegister E u a p)" unfolding OnRegister_def Let_def by (intro holds_rules r; simp)
  show "holds (OnNewPost u t x pr)" "holds (OnNewThread E s u t x)" unfolding OnNewPost_def OnNewThread_def Let_def
    by (intro holds_rules; simp)+
  show "holds (CheckForPostNudge u)" "holds (UpdateForPostNudge u)" unfolding CheckForPostNudge_def UpdateForPostNudge_def
    by (intro holds_rules; simp)+
  have t: "holds (time_since t)" for t unfolding time_since_def by (intro holds_rules; simp)
  show "holds (thread_line th)" "holds (post_lines E y)"
    unfolding thread_line_def TimeFormatForThread_def post_lines_def TimeFormatForPost_def by (intro holds_rules t; simp)+
  show "holds (viewer_priv E c)" unfolding viewer_priv_def by (intro holds_rules g; simp)
  have rm: "holds (report_mail E po u x c)" for c unfolding report_mail_def by (intro holds_rules e; simp)
  show "holds (SendEmailOnReport E po u x c)" unfolding SendEmailOnReport_def by (intro holds_rules rm l; simp)
qed

lemma holds_command [intro, simp]: "holds (ConsoleCommand E u p x)"
proof -
  have rep: "holds (reply m s d)" if "holds m" for m s d unfolding reply_def using that by (intro holds_rules; simp)
  have sw: "holds (console_switch E fs)" for fs
    unfolding console_switch_def MuteOrUnmuteThread_def Let_def by (intro holds_rules rep; simp)
  have l: "holds (LogConsoleCommand u p x)" unfolding LogConsoleCommand_def by (intro holds_rules; simp)
  show ?thesis unfolding holds_def
  proof (intro allI impI)
    fix w assume w: "I w"
    obtain r w1 where 1: "console_switch E (strings_fields x) w = (r, w1)" by fastforce
    obtain r2 w2 where 2: "LogConsoleCommand u p x w1 = (r2, w2)" by fastforce
    have "I w2" using holdsD[OF l 2] holdsD[OF sw 1 w] by blast
    then show "I (snd (ConsoleCommand E u p x w))" unfolding ConsoleCommand_def 1 2 prod.case by (cases r2) simp_all
  qed
qed

lemma holds_handlers [intro, simp]:
  "holds (RootHandler E c)" "holds (PageHandler E q c)" "holds (SubforumIndexHandler E (RootHandler E c) q c)"
  "holds (ThreadViewHandler E q c)" "holds (SearchHandler E q c)" "holds (RegisterUserHandler E q c)" "holds (VerifyUserHandler E q c)"
  "holds (LogoutUserHandler E q c)" "holds (LoginUserHandler E q c)" "holds (ConsoleHandler E q c)" "holds (ReportHandler E q c)"
  "holds (NewPostHandler E q c)" "holds (CreateThreadHandler E q c)"
proof -
  show r: "holds (RootHandler E c)" unfolding RootHandler_def by (intro holds_rules; simp)
  have g: "holds (GetThreadsForSubforum E i)" for i unfolding GetThreadsForSubforum_def by (intro holds_rules; simp)
  show "holds (PageHandler E q c)" "holds (SubforumIndexHandler E (RootHandler E c) q c)" "holds (ThreadViewHandler E q c)"
    unfolding PageHandler_def SubforumIndexHandler_def ThreadViewHandler_def Let_def by (intro holds_rules g r; simp)+
  have su: "holds (SearchUser u)" for u unfolding SearchUser_def by (intro holds_rules; simp)
  show "holds (SearchHandler E q c)" unfolding SearchHandler_def by (intro holds_rules su; simp)
  show "holds (RegisterUserHandler E q c)" "holds (VerifyUserHandler E q c)" "holds (LogoutUserHandler E q c)" "holds (LoginUserHandler E q c)"
    unfolding RegisterUserHandler_def VerifyUserHandler_def LogoutUserHandler_def LoginUserHandler_def Let_def by (intro holds_rules; simp)+
  show "holds (ConsoleHandler E q c)" "holds (ReportHandler E q c)" unfolding ConsoleHandler_def ReportHandler_def Let_def
    by (intro holds_rules; simp)+
  have n: "holds (with_nudge u q c m)" if "holds m" for u m unfolding with_nudge_def using that by (intro holds_rules; simp)
  show "holds (NewPostHandler E q c)" "holds (CreateThreadHandler E q c)" unfolding NewPostHandler_def CreateThreadHandler_def Let_def
    by (intro holds_rules n; simp)+
qed

lemma holds_dispatch [intro, simp]: "holds (dispatch E q c)"
  unfolding dispatch_def Let_def by (intro holds_rules; simp)

lemma holds_handler: "holds (handler E q c)"
  unfolding handler_def Let_def by (intro holds_rules; simp)

text \<open>The console at the server, the index and the backup.\<close>

lemma holds_background:
  "holds (OnSTDin E (go_ret ()) line)" "keywordDBloop_step w = Some (x, w') \<Longrightarrow> I w \<Longrightarrow> I w'"
  "runBackup A cfg prefix files w = (r, w') \<Longrightarrow> I w \<Longrightarrow> I w'"
proof -
  show "holds (OnSTDin E (go_ret ()) line)" unfolding OnSTDin_def by (intro holds_rules; simp)
  show "keywordDBloop_step w = Some (x, w') \<Longrightarrow> I w \<Longrightarrow> I w'" by (auto simp: keywordDBloop_step_def split: option.splits list.splits)
  show "runBackup A cfg prefix files w = (r, w') \<Longrightarrow> I w \<Longrightarrow> I w'"
    using I_tick by (auto simp: runBackup_eq Let_def split: sum.splits if_splits)
qed

end

end
