(* ===== verification/Limiting.thy ===== *)
theory Limiting imports Demo Counters begin

text \<open>
  The rate limit: rounding in \<open>float64\<close> never hides a request, and the flush loop drops no counter of a window of at most ten
  minutes before it is over, so in a run of the server within one window no address gets more requests through than the
  configuration allows.
\<close>

section \<open>Rounding\<close>

lemma pow2_pos [simp]: "0 < pow2 k"
  by (simp add: pow2_def)

lemma pow2_add: "pow2 (a + b) = pow2 a * pow2 b"
proof -
  have *: "pow2 k = (2 :: rat) powi k" for k
    unfolding pow2_def power_int_def by (simp add: power_one_over)
  show ?thesis unfolding * by (rule power_int_add) simp
qed

lemma pow2_mono: "a \<le> b \<Longrightarrow> pow2 a \<le> pow2 b"
proof -
  assume "a \<le> b"
  moreover have "1 \<le> pow2 (b - a)" if "a \<le> b" using that by (simp add: pow2_def)
  ultimately have "pow2 a * 1 \<le> pow2 a * pow2 (b - a)" by (intro mult_left_mono) (simp_all add: less_imp_le)
  then show ?thesis by (simp add: pow2_add[symmetric])
qed

lemma log2_floor_le:
  assumes "0 < x"
  shows "pow2 (log2_floor x) \<le> x"
proof -
  obtain n d where q: "quotient_of x = (n, d)" by fastforce
  have d: "0 < d" and x: "x = of_int n / of_int d" using quotient_of_denom_pos[OF q] quotient_of_div[OF q] by simp_all
  then have n: "0 < n" using assms by (simp add: zero_less_divide_iff)
  let ?k = "bitlen n - bitlen d"
  have "2 ^ nat (bitlen n - 1) \<le> n" using bitlen_bounds[OF n] by simp
  moreover have "d < 2 ^ nat (bitlen d)" using bitlen_bounds[OF d] by simp
  ultimately have b: "(2::rat) ^ nat (bitlen n - 1) \<le> of_int n" "(of_int d :: rat) \<le> 2 ^ nat (bitlen d)"
    by (metis of_int_le_iff of_int_numeral of_int_power, metis less_imp_le of_int_le_iff of_int_numeral of_int_power)
  have l: "1 \<le> bitlen n" "1 \<le> bitlen d" using n d by (simp_all add: bitlen_def floorlog_def)
  have "pow2 (?k - 1) * pow2 (bitlen d) = pow2 (bitlen n - 1)" by (simp add: pow2_add[symmetric])
  then have "pow2 (?k - 1) * 2 ^ nat (bitlen d) \<le> of_int n" using b(1) l by (simp add: pow2_def)
  moreover have "pow2 (?k - 1) * of_int d \<le> pow2 (?k - 1) * 2 ^ nat (bitlen d)"
    using b(2) by (intro mult_left_mono) (simp_all add: less_imp_le)
  ultimately have "pow2 (?k - 1) * of_int d \<le> of_int n" by (rule order_trans[rotated])
  then have "pow2 (?k - 1) \<le> x" using d by (simp add: x pos_le_divide_eq)
  then show ?thesis by (simp add: log2_floor_def q Let_def)
qed

lemma round_even_ge: "of_int i \<le> x \<Longrightarrow> i \<le> round_even x"
proof -
  assume "of_int i \<le> x"
  then have "i \<le> \<lfloor>x\<rfloor>" by (simp add: le_floor_iff)
  then show ?thesis by (simp add: round_even_def Let_def)
qed

lemma round_even_int: "round_even (of_int i) = i"
  by (simp add: round_even_def)

text \<open>A number that is at least the natural number \<open>n < 2^53\<close> still is after rounding; \<open>n\<close> is its own rounding.\<close>

lemma of_int_pow2: "e \<le> 0 \<Longrightarrow> of_int n / pow2 e = of_int (n * 2 ^ nat (- e))"
  by (simp add: pow2_def)

lemma f64_ge:
  assumes "of_int n \<le> x" "0 \<le> n" "n < 2 ^ 53"
  shows "of_int n \<le> f64 x"
proof (cases "x = 0")
  case False
  then have x: "0 < x" using assms(1,2) by (metis less_le of_int_0_le_iff order_trans)
  define l where "l = log2_floor x"
  have lx: "pow2 l \<le> x" unfolding l_def by (rule log2_floor_le[OF x])
  have f: "f64 x = of_int (round_even (x / pow2 (l - 52))) * pow2 (l - 52)" using x by (simp add: f64_def Let_def l_def)
  show ?thesis
  proof (cases "l \<le> 52")
    case True
    then have e: "l - 52 \<le> 0" by simp
    have "of_int n / pow2 (l - 52) \<le> x / pow2 (l - 52)" using assms(1) by (intro divide_right_mono) (simp_all add: less_imp_le)
    then have "n * 2 ^ nat (- (l - 52)) \<le> round_even (x / pow2 (l - 52))"
      unfolding of_int_pow2[OF e] by (rule round_even_ge)
    then have "of_int n / pow2 (l - 52) \<le> of_int (round_even (x / pow2 (l - 52)))"
      unfolding of_int_pow2[OF e] by (simp only: of_int_le_iff)
    then show ?thesis unfolding f by (simp add: pos_divide_le_eq)
  next
    case False
    have "pow2 l = pow2 52 * pow2 (l - 52)" by (simp add: pow2_add[symmetric])
    then have "pow2 52 \<le> x / pow2 (l - 52)" using lx by (simp add: pos_le_divide_eq)
    then have "2 ^ 52 \<le> round_even (x / pow2 (l - 52))" by (intro round_even_ge) (simp add: pow2_def)
    then have "rat_of_int (2 ^ 52) \<le> of_int (round_even (x / pow2 (l - 52)))" by (simp only: of_int_le_iff)
    then have "rat_of_int (2 ^ 52) * pow2 (l - 52) \<le> of_int (round_even (x / pow2 (l - 52))) * pow2 (l - 52)"
      by (rule mult_right_mono) (simp add: less_imp_le)
    moreover have "rat_of_int (2 ^ 52) = pow2 52" by (simp add: pow2_def)
    moreover have "rat_of_int (2 ^ 53) \<le> pow2 l" using pow2_mono[of 53 l] False by (simp add: pow2_def)
    moreover have "rat_of_int n \<le> of_int (2 ^ 53)" using assms(3) by (simp only: of_int_le_iff less_imp_le)
    ultimately have "pow2 l \<le> of_int (round_even (x / pow2 (l - 52))) * pow2 (l - 52)"
      unfolding \<open>pow2 l = pow2 52 * pow2 (l - 52)\<close> by (simp only:)
    moreover have "rat_of_int n \<le> pow2 l"
      by (rule order_trans[OF \<open>rat_of_int n \<le> of_int (2 ^ 53)\<close> \<open>rat_of_int (2 ^ 53) \<le> pow2 l\<close>])
    ultimately have "rat_of_int n \<le> of_int (round_even (x / pow2 (l - 52))) * pow2 (l - 52)" by (rule order_trans[rotated])
    then show ?thesis unfolding f .
  qed
qed (use assms in \<open>simp add: f64_def\<close>)

lemma f64_nonneg: "0 \<le> x \<Longrightarrow> 0 \<le> f64 x"
  using f64_ge[of 0 x] by simp

lemma f_int_exact:
  assumes "0 \<le> n" "n < 2 ^ 53"
  shows "f_int n = of_int n"
proof (cases "n = 0")
  case False
  then have n: "0 < rat_of_int n" using assms(1) by simp
  define l where "l = log2_floor (rat_of_int n)"
  have "l \<le> 52"
  proof (rule ccontr)
    assume "\<not> l \<le> 52"
    then have "pow2 53 \<le> pow2 l" by (intro pow2_mono) simp
    also have "\<dots> \<le> of_int n" unfolding l_def by (rule log2_floor_le[OF n])
    finally have "rat_of_int (2 ^ 53) \<le> of_int n" by (simp add: pow2_def)
    then show False using assms(2) by (simp only: of_int_le_iff)
  qed
  then have e: "l - 52 \<le> 0" by simp
  have "f64 (rat_of_int n) = of_int (round_even (of_int n / pow2 (l - 52))) * pow2 (l - 52)"
    using n by (simp add: f64_def Let_def l_def)
  also have "\<dots> = of_int n" unfolding of_int_pow2[OF e] round_even_int unfolding of_int_pow2[OF e, symmetric]
    by (simp add: less_imp_neq[OF pow2_pos, symmetric])
  finally show ?thesis by (simp add: f_int_def)
qed (simp add: f_int_def f64_def)

lemma rate_ge:
  assumes "calc_rate W t p n = Some r" "0 \<le> t" "t \<le> W" "W < 2 ^ 53" "0 \<le> p" "0 \<le> m" "m < 2 ^ 53" "m \<le> n"
  shows "of_int m \<le> r"
proof -
  have W: "0 < W" using assms(1-3) by (cases "W = 0") (simp_all add: calc_rate_def)
  have i: "f_int W = of_int W" "f_int t = of_int t" using assms(2-4) by (simp_all add: f_int_exact)
  have n: "of_int m \<le> f_int n" unfolding f_int_def by (rule f64_ge[OF _ assms(6,7)]) (use assms(8) in simp)
  have p: "0 \<le> f_int p" using assms(5) by (simp add: f_int_def f64_nonneg)
  have z: "0 \<le> f64 (f_int W - f_int t)" using assms(3) unfolding i by (intro f64_nonneg) simp
  have "0 \<le> f64 (f64 (f_int W - f_int t) / f_int W)"
    by (rule f64_nonneg, rule divide_nonneg_nonneg, rule z) (use W i(1) in simp)
  then have "0 \<le> f64 (f64 (f64 (f_int W - f_int t) / f_int W) * f_int p)" by (rule f64_nonneg[OF mult_nonneg_nonneg[OF _ p]])
  then have "of_int m \<le> f64 (f64 (f64 (f_int W - f_int t) / f_int W) * f_int p) + f_int n" using n by simp
  from f64_ge[OF this assms(6,7)] show ?thesis using assms(1) W by (simp add: calc_rate_def)
qed

section \<open>Counting\<close>

lemma in_window:
  assumes "t_truncate (t_utc a) W = win" "0 < W" "W < 2 ^ 53"
  shows "0 \<le> t_sub (t_utc a) win" "t_sub (t_utc a) win \<le> W"
proof -
  let ?m = "(t_ns a + unix_days * 86400 * nsec_per_sec) mod W"
  have "t_ns win = t_ns a - ?m" using assms(1,2) by (auto simp: t_truncate_def t_utc_def)
  then have "t_sub (t_utc a) win = max (- (2 ^ 63)) (min (2 ^ 63 - 1) ?m)" by (simp add: t_sub_def t_utc_def)
  moreover have "0 \<le> ?m" "?m < W" using assms(2) by simp_all
  ultimately show "0 \<le> t_sub (t_utc a) win" "t_sub (t_utc a) win \<le> W" using assms(3) by simp_all
qed

text \<open>Between two readings of the clock in one window all readings are in it.\<close>

lemma window_between:
  assumes "t_truncate (t_utc a) W = win" "t_truncate (t_utc e) W = win" "0 < W" "t_ns a \<le> t_ns b" "t_ns b \<le> t_ns e"
  shows "t_truncate (t_utc b) W = win" "t_ns win \<le> t_ns b" "t_ns b < t_ns win + W"
proof -
  define U where "U = unix_days * 86400 * nsec_per_sec"
  have tr: "t_truncate (t_utc x) W = \<lparr>t_ns = W * ((t_ns x + U) div W) - U, t_off = 0\<rparr>" for x
    using assms(3) minus_mod_eq_mult_div[of "t_ns x + U" W] by (simp add: t_truncate_def t_utc_def U_def algebra_simps)
  have "(t_ns a + U) div W \<le> (t_ns b + U) div W" "(t_ns b + U) div W \<le> (t_ns e + U) div W"
    using assms(3-5) by (simp_all add: zdiv_mono1)
  moreover have "W * ((t_ns a + U) div W) = W * ((t_ns e + U) div W)"
    using assms(1,2) unfolding tr by (metis add_diff_cancel_right' diff_add_cancel gtime.ext_inject)
  ultimately have d: "(t_ns b + U) div W = (t_ns a + U) div W" using assms(3) by simp
  show w: "t_truncate (t_utc b) W = win" using assms(1) unfolding tr d .
  have "0 \<le> (t_ns b + U) mod W" "(t_ns b + U) mod W < W" using assms(3) by simp_all
  moreover have "t_ns win = t_ns b - (t_ns b + U) mod W" unfolding w[symmetric] using assms(3) by (simp add: t_truncate_def t_utc_def U_def)
  ultimately show "t_ns win \<le> t_ns b" "t_ns b < t_ns win + W" by simp_all
qed

section \<open>A run of the server\<close>

text \<open>How long the store keeps a counter that is not touched, \<open>10*time.Minute\<close>.\<close>

definition limit_expiration :: int where "limit_expiration = 10 * (60 * nsec_per_sec)"

text \<open>The limiter lets a request of this address through.\<close>

definition passes :: "env \<Rightarrow> bytes \<Rightarrow> world \<Rightarrow> bool" where
  "passes E ip w \<longleftrightarrow> (case e_limiter E of None \<Rightarrow> True
     | Some l \<Rightarrow> (case fst (limiter_Check l ip w) of Ok st \<Rightarrow> \<not> IsLimited st | _ \<Rightarrow> False))"

text \<open>
  A run between two states of the server, from \<open>w\<close> to \<open>w'\<close>: requests of any client, commands typed at the console, turns of
  the index and of the flush loop, and backups, in any order.  \<open>k\<close> is the number of the requests of the address \<open>ip\<close>
  that were let through.
\<close>

inductive served :: "env \<Rightarrow> bytes \<Rightarrow> world \<Rightarrow> nat \<Rightarrow> world \<Rightarrow> bool" for E ip w where
  none: "served E ip w 0 w"
| request: "served E ip w k w' \<Longrightarrow> handler E u c w' = (r, w'') \<Longrightarrow>
    served E ip w (if split_host_port (cn_remote c) = Inr ip \<and> passes E ip w' then Suc k else k) w''"
| typed: "served E ip w k w' \<Longrightarrow> OnSTDin E (go_ret ()) line w' = (r, w'') \<Longrightarrow> served E ip w k w''"
| indexed: "served E ip w k w' \<Longrightarrow> keywordDBloop_step w' = Some (x, w'') \<Longrightarrow> served E ip w k w''"
| flushed: "served E ip w k w' \<Longrightarrow> store_flush limit_expiration w' = (r, w'') \<Longrightarrow> served E ip w k w''"
| backed_up: "served E ip w k w' \<Longrightarrow> runBackup A (e_cfg E) prefix files w' = (r, w'') \<Longrightarrow> served E ip w k w''"

text \<open>The clock goes on from where it was, and never back.\<close>

definition clock_from :: "(nat \<Rightarrow> gtime) \<Rightarrow> world \<Rightarrow> bool" where
  "clock_from c w \<longleftrightarrow> (\<exists>n. w_clock w = (\<lambda>i. c (n + i)))"

text \<open>The counter of a key has got at least \<open>n\<close>, since the time \<open>s\<close>.\<close>

definition counted_at :: "bytes \<Rightarrow> int \<Rightarrow> nat \<Rightarrow> world \<Rightarrow> bool" where
  "counted_at key s n w \<longleftrightarrow> mono (\<lambda>i. t_ns (w_clock w i)) \<and> s \<le> t_ns (w_clock w 0)
     \<and> (\<forall>(k, v, t) \<in> set (w_limits w). 0 \<le> v)
     \<and> (n = 0 \<or> (\<exists>v t. map_of (w_limits w) key = Some (v, t) \<and> int n \<le> v \<and> s \<le> t_ns t))"

lemma al_update_map: "map_of (al_update k x m) = (map_of m)(k \<mapsto> x)"
  by (induction k x m rule: al_update.induct) (auto simp: fun_eq_iff)

lemma al_update_set: "set (al_update k x m) \<subseteq> insert (k, x) (set m)"
  by (induction k x m rule: al_update.induct) auto

lemma limit_val_nonneg: "\<forall>(k, v, t) \<in> set m. 0 \<le> v \<Longrightarrow> 0 \<le> limit_val m k"
  by (auto simp: limit_val_def split: option.split dest!: map_of_SomeD)

lemma mono_tail: "mono f \<Longrightarrow> mono (\<lambda>i. f (Suc i))"
  by (auto simp: mono_def)

lemma store_Inc_eq: "store_Inc k win w = (Ok (), w\<lparr>w_clock := \<lambda>n. w_clock w (Suc n),
   w_limits := al_update (mapKey k win) (limit_val (w_limits w) (mapKey k win) + 1, t_utc (w_clock w 0)) (w_limits w)\<rparr>)"
  by (simp add: store_Inc_def go_simps)

text \<open>A count more is one more if it is for the key.\<close>

lemma counted_Inc:
  assumes "counted_at key s n w"
  shows "counted_at key s (if mapKey k win = key then Suc n else n) (snd (store_Inc k win w))"
proof -
  have v: "0 \<le> limit_val (w_limits w) (mapKey k win)" by (rule limit_val_nonneg) (use assms in \<open>simp add: counted_at_def\<close>)
  have m: "mono (\<lambda>i. t_ns (w_clock w (Suc i)))" using assms mono_tail[of "\<lambda>i. t_ns (w_clock w i)"] by (simp add: counted_at_def)
  have s: "s \<le> t_ns (w_clock w 0)" "t_ns (w_clock w 0) \<le> t_ns (w_clock w (Suc 0))"
    using assms monoD[of "\<lambda>i. t_ns (w_clock w i)" 0 "Suc 0"] by (simp_all add: counted_at_def)
  let ?n = "limit_val (w_limits w) (mapKey k win) + 1" and ?t = "t_utc (w_clock w 0)"
  have p: "\<forall>(k', v, t) \<in> set (al_update (mapKey k win) (?n, ?t) (w_limits w)). 0 \<le> v"
    using assms v al_update_set[of "mapKey k win" "(?n, ?t)" "w_limits w"] by (fastforce simp: counted_at_def)
  have c: "\<exists>v t. map_of (al_update (mapKey k win) (?n, ?t) (w_limits w)) key = Some (v, t) \<and> int n + (if mapKey k win = key then 1 else 0) \<le> v \<and> s \<le> t_ns t"
    if "n \<noteq> 0 \<or> mapKey k win = key" using assms v s(1) that by (auto simp: counted_at_def al_update_map t_utc_def limit_val_def)
  show ?thesis using m s p c by (cases "n = 0"; cases "mapKey k win = key") (auto simp: counted_at_def store_Inc_eq)
qed

interpretation clk: world_invariant "clock_from c" for c
proof
  show "clock_from c w \<Longrightarrow> clock_from c (w\<lparr>w_clock := \<lambda>n. w_clock w (Suc n)\<rparr>)" for w
    unfolding clock_from_def by (elim exE) (rule_tac x = "Suc n" in exI, simp)
  then show "clock_from c w \<Longrightarrow> clock_from c (snd (store_Inc k win w))" for w k win
    by (simp add: store_Inc_eq clock_from_def)
qed (simp_all add: clock_from_def)

interpretation cnt: world_invariant "counted_at key s n" for key s n
proof
  show "counted_at key s n w \<Longrightarrow> counted_at key s n (w\<lparr>w_clock := \<lambda>i. w_clock w (Suc i)\<rparr>)" for w
    using mono_tail[of "\<lambda>i. t_ns (w_clock w i)"] monoD[of "\<lambda>i. t_ns (w_clock w i)" 0 "Suc 0"] by (auto simp: counted_at_def)
  show "counted_at key s n w \<Longrightarrow> counted_at key s n (snd (store_Inc k win w))" for w k win
    using counted_Inc[of key s n w k win] by (force simp: counted_at_def split: if_splits)
qed (simp_all add: counted_at_def)

text \<open>A turn of the flush loop reads the clock once per entry; it keeps the entries younger than the expiration.\<close>

lemma flush_entries_run: "\<exists>l'. flush_entries ex l w = (Ok l', w\<lparr>w_clock := \<lambda>i. w_clock w (length l + i)\<rparr>) \<and> set l' \<subseteq> set l
   \<and> (\<forall>key v t. map_of l key = Some (v, t) \<longrightarrow> (\<forall>i < length l. t_ns (w_clock w i) - ex \<le> t_ns t) \<longrightarrow> map_of l' key = Some (v, t))"
proof (induction ex l arbitrary: w rule: flush_entries.induct)
  case (2 ex k v t l)
  let ?w = "w\<lparr>w_clock := \<lambda>i. w_clock w (Suc i)\<rparr>"
  obtain l' where l': "flush_entries ex l ?w = (Ok l', w\<lparr>w_clock := \<lambda>i. w_clock w (Suc (length l + i))\<rparr>)" "set l' \<subseteq> set l"
    "\<And>key v t. map_of l key = Some (v, t) \<Longrightarrow> \<forall>i < length l. t_ns (w_clock w (Suc i)) - ex \<le> t_ns t \<Longrightarrow> map_of l' key = Some (v, t)"
    using 2[of ?w] by auto
  have n: "flush_entries ex ((k, v, t) # l) w = (Ok (if t_before t (t_add (t_utc (w_clock w 0)) (- ex)) then l' else (k, v, t) # l'),
      w\<lparr>w_clock := \<lambda>i. w_clock w (Suc (length l + i))\<rparr>)"
    using l'(1) by (simp add: go_simps)
  show ?case unfolding n using l'(2,3) by (auto simp: t_before_def t_add_def t_utc_def)
qed (simp add: go_simps)

lemma flush_run:
  assumes "store_flush ex w = (r, w')"
  obtains "r = Ok ()" "w_clock w' = (\<lambda>i. w_clock w (length (w_limits w) + i))" "set (w_limits w') \<subseteq> set (w_limits w)"
    "\<And>key v t. map_of (w_limits w) key = Some (v, t) \<Longrightarrow> \<forall>i < length (w_limits w). t_ns (w_clock w i) - ex \<le> t_ns t
       \<Longrightarrow> map_of (w_limits w') key = Some (v, t)"
  using assms flush_entries_run[of ex "w_limits w" w] by (auto simp: store_flush_def)

lemma clock_from_self: "clock_from (w_clock w) w"
  unfolding clock_from_def by (rule exI[of _ 0]) simp

lemma clock_from_trans: "clock_from (w_clock w) w' \<Longrightarrow> clock_from (w_clock w') w'' \<Longrightarrow> clock_from (w_clock w) w''"
  unfolding clock_from_def by (metis add.assoc)

lemma clock_from_flush: "store_flush ex w = (r, w') \<Longrightarrow> clock_from (w_clock w) w'"
  by (erule flush_run) (auto simp: clock_from_def)

text \<open>Along a run the clock goes on.\<close>

lemma served_clock: "served E ip w k w' \<Longrightarrow> clock_from (w_clock w) w'"
proof (induction rule: served.induct)
  case none
  show ?case by (rule clock_from_self)
next
  case (flushed k w' r w'')
  then show ?case using clock_from_trans clock_from_flush by blast
next
  case (indexed k w' x w'')
  then show ?case using clk.holds_background(2) by blast
next
  case (backed_up k w' A prefix files r w'')
  then show ?case using clk.holds_background(3) by blast
qed (use clk.holdsD[OF clk.holds_handler] clk.holdsD[OF clk.holds_background(1)] in blast)+

text \<open>What the limiter does to a request whose turn comes within one window.\<close>

lemma limiter_turn:
  assumes E: "e_limiter E = Some (N, W)" "split_host_port (cn_remote c) = Inr ip" "0 < W" "W < 2 ^ 53" "0 \<le> N" "N < 2 ^ 53"
    and k: "counted_at (mapKey ip win) (t_ns win) k w"
    and win: "\<And>n. n < 3 \<Longrightarrow> t_truncate (t_utc (w_clock w n)) W = win"
    and that: "passes E ip w"
  shows "\<exists>w1. handler E u c w = dispatch E u c w1 \<and> int k < N \<and> counted_at (mapKey ip win) (t_ns win) (Suc k) w1"
proof -
  let ?n = "limit_val (w_limits w) (mapKey ip win)" and ?p = "limit_val (w_limits w) (mapKey ip (t_add win (- W)))"
  let ?t = "t_sub (t_utc (w_clock w 1)) win" and ?w = "w\<lparr>w_clock := \<lambda>n. w_clock w (Suc (Suc n))\<rparr>"
  have wins: "t_truncate (t_utc (w_clock w 0)) W = win" "t_truncate (t_utc (w_clock w (Suc 0))) W = win"
    "t_truncate (t_utc (w_clock w (Suc (Suc 0)))) W = win" using win by simp_all
  obtain st where check: "limiter_Check (N, W) ip w = (Ok st, ?w)"
    "IsLimited st \<longleftrightarrow> (\<exists>r. calc_rate W ?t ?p ?n = Some r \<and> f_int N \<le> r)"
    by (simp add: limiter_Check_def go_simps store_Get_def Let_def wins split: option.split)
  have p: "passes E ip w \<longleftrightarrow> \<not> IsLimited st" using check(1) E(1) by (simp add: passes_def)
  have pos: "0 \<le> ?p" by (rule limit_val_nonneg) (use k in \<open>simp add: counted_at_def\<close>)
  have kn: "int k \<le> ?n" if "k \<noteq> 0" using k that by (auto simp: counted_at_def limit_val_def)
  have n0: "0 \<le> ?n" by (rule limit_val_nonneg) (use k in \<open>simp add: counted_at_def\<close>)
  have st: "\<not> IsLimited st" using that p by simp
  obtain r where r: "calc_rate W ?t ?p ?n = Some r" using E(3) by (simp add: calc_rate_def)
  have "?n < N"
  proof (rule ccontr)
    assume "\<not> ?n < N"
    then have "of_int N \<le> r" using rate_ge[OF r in_window[OF _ E(3,4)] E(4) pos E(5,6)] wins(2) by simp
    then show False using st r E(5,6) unfolding check(2) by (simp add: f_int_exact)
  qed
  then have "int k < N" using kn n0 by (cases "k = 0") simp_all
  moreover define w1 where "w1 = snd (store_Inc ip win (?w\<lparr>w_clock := \<lambda>n. w_clock w (Suc (Suc (Suc n)))\<rparr>))"
  moreover have "limiter_Inc (N, W) ip ?w = (Ok (), w1)"
    by (simp add: limiter_Inc_def store_Inc_eq go_bind_def time_now_def wins w1_def)
  then have "handler E u c w = dispatch E u c w1" using E(1,2) check(1) st by (simp add: handler_def go_bind_def)
  moreover have "counted_at (mapKey ip win) (t_ns win) k (?w\<lparr>w_clock := \<lambda>n. w_clock w (Suc (Suc (Suc n)))\<rparr>)"
    using cnt.I_tick[OF cnt.I_tick[OF cnt.I_tick[OF k]]] by simp
  then have "counted_at (mapKey ip win) (t_ns win) (Suc k) w1"
    unfolding w1_def using counted_Inc[of "mapKey ip win" "t_ns win" k _ ip win] by simp
  ultimately show ?thesis by blast
qed

text \<open>The limiter never fails: it lets a request through or answers for it.\<close>

lemma limiter_decides:
  assumes "e_limiter E = Some (N, W)" "split_host_port (cn_remote c) = Inr ip"
  shows "if passes E ip w then (\<exists>w1. handler E u c w = dispatch E u c w1 \<and> w_db w1 = w_db w \<and> w_clock w1 = (\<lambda>i. w_clock w (4 + i)))
    else (\<exists>st w1. handler E u c w = (Ok (slow_down st), w1) \<and> w_db w1 = w_db w \<and> w_limits w1 = w_limits w)"
proof -
  obtain st where check: "limiter_Check (N, W) ip w = (Ok st, w\<lparr>w_clock := \<lambda>n. w_clock w (Suc (Suc n))\<rparr>)"
    by (simp add: limiter_Check_def go_simps store_Get_def Let_def split: option.split)
  then have p: "passes E ip w \<longleftrightarrow> \<not> IsLimited st" using assms(1) by (simp add: passes_def)
  show ?thesis
  proof (cases "IsLimited st")
    case False
    obtain w1 where "limiter_Inc (N, W) ip (w\<lparr>w_clock := \<lambda>n. w_clock w (Suc (Suc n))\<rparr>) = (Ok (), w1)" "w_db w1 = w_db w"
      "w_clock w1 = (\<lambda>i. w_clock w (4 + i))"
      by (simp add: limiter_Inc_def store_Inc_eq go_bind_def time_now_def numeral_eq_Suc)
    then show ?thesis using assms check False p by (auto simp: handler_def go_bind_def)
  next
    case True
    then show ?thesis using assms check p by (simp add: handler_def go_bind_def go_ret_def) (rule exI[of _ st], rule refl)
  qed
qed

lemma passes_fresh:
  assumes "e_limiter E = Some (N, W)" "0 < N" "N < 2 ^ 53" "t_truncate (t_utc (w_clock w 0)) W = win"
    and "limit_val (w_limits w) (mapKey ip win) = 0" "limit_val (w_limits w) (mapKey ip (t_add win (- W))) = 0"
  shows "passes E ip w"
proof -
  have z: "calc_rate W t 0 0 = Some r \<Longrightarrow> r = 0" for t r by (simp add: calc_rate_def f_int_def f64_def split: if_splits)
  then show ?thesis using assms
    by (auto simp: passes_def limiter_Check_def go_simps store_Get_def Let_def f_int_exact split: option.split dest!: z)
qed

text \<open>The count of a run within a window.\<close>

lemma served_counted:
  assumes E: "e_limiter E = Some (N, W)" "0 \<le> N" "N < 2 ^ 53" "0 < W" "W \<le> limit_expiration"
    and w: "\<forall>(k, v, t) \<in> set (w_limits w). 0 \<le> v" "mono (\<lambda>i. t_ns (w_clock w i))" "t_truncate (t_utc (w_clock w 0)) W = win"
  shows "served E ip w k w' \<Longrightarrow> t_truncate (t_utc (w_clock w' 0)) W = win \<Longrightarrow>
    int k \<le> N \<and> counted_at (mapKey ip win) (t_ns win) k w'"
proof -
  have W: "W < 2 ^ 53" using E(5) by (simp add: limit_expiration_def nsec_per_sec_def)
  have early: "t_truncate (t_utc (w_clock w' i)) W = win" "t_ns win \<le> t_ns (w_clock w' i)" "t_ns (w_clock w' i) < t_ns win + W"
    if s: "served E ip w k w'" and c: "w_clock w'' = (\<lambda>i. w_clock w' (n + i))" "i \<le> n" and e: "t_truncate (t_utc (w_clock w'' 0)) W = win"
    for k w' w'' i n
  proof -
    obtain m where m: "w_clock w' = (\<lambda>i. w_clock w (m + i))" using served_clock[OF s] by (auto simp: clock_from_def)
    have "t_ns (w_clock w 0) \<le> t_ns (w_clock w' i)" "t_ns (w_clock w' i) \<le> t_ns (w_clock w'' 0)"
      using monoD[OF w(2), of 0 "m + i"] monoD[OF w(2), of "m + i" "m + n"] c m by simp_all
    note window_between[OF w(3) e E(4) this]
    then show "t_truncate (t_utc (w_clock w' i)) W = win" "t_ns win \<le> t_ns (w_clock w' i)" "t_ns (w_clock w' i) < t_ns win + W" .
  qed
  show "served E ip w k w' \<Longrightarrow> t_truncate (t_utc (w_clock w' 0)) W = win \<Longrightarrow>
    int k \<le> N \<and> counted_at (mapKey ip win) (t_ns win) k w'"
  proof (induction rule: served.induct)
    case none
    then show ?case using E(2) w window_between(2)[OF w(3) w(3) E(4)] by (simp add: counted_at_def)
  next
    case (request k w' q c r w'')
    obtain n where n: "w_clock w'' = (\<lambda>i. w_clock w' (n + i))"
      using clk.holdsD[OF clk.holds_handler request(2) clock_from_self] by (auto simp: clock_from_def)
    note IH = request.IH[OF early(1)[OF request(1) n _ request.prems, of 0, simplified]]
    show ?case
    proof (cases "split_host_port (cn_remote c) = Inr ip \<and> passes E ip w'")
      case True
      obtain w1 where w1: "handler E q c w' = dispatch E q c w1" "w_clock w1 = (\<lambda>i. w_clock w' (4 + i))"
        using limiter_decides[OF E(1), of c ip w' q] True by auto
      obtain m where "w_clock w'' = (\<lambda>i. w_clock w' (4 + m + i))"
        using clk.holdsD[OF clk.holds_dispatch _ clock_from_self, of E q c w1 r w''] request(2) w1 by (auto simp: clock_from_def add.assoc)
      note turn = limiter_turn[OF E(1) conjunct1[OF True] E(4) W E(2,3) conjunct2[OF IH]
          early(1)[OF request(1) this _ request.prems] conjunct2[OF True], of q]
      then obtain w2 where "dispatch E q c w2 = (r, w'')" "int k < N" "counted_at (mapKey ip win) (t_ns win) (Suc k) w2"
        using request(2) by auto
      then show ?thesis using True cnt.holdsD[OF cnt.holds_dispatch] by fastforce
    qed (use IH cnt.holdsD[OF cnt.holds_handler request(2)] in auto)
  next
    case (flushed k w' r w'')
    let ?n = "length (w_limits w')"
    obtain c: "w_clock w'' = (\<lambda>i. w_clock w' (?n + i))" and l: "set (w_limits w'') \<subseteq> set (w_limits w')"
      and young: "\<And>key v t. map_of (w_limits w') key = Some (v, t) \<Longrightarrow> \<forall>i < ?n. t_ns (w_clock w' i) - limit_expiration \<le> t_ns t
       \<Longrightarrow> map_of (w_limits w'') key = Some (v, t)"
      using flush_run[OF flushed(2)] by metis
    note e = early[OF flushed(1) c _ flushed.prems]
    note IH = flushed.IH[OF e(1)[of 0, simplified]]
    have "\<forall>i < ?n. t_ns (w_clock w' i) - limit_expiration \<le> t" if "t_ns win \<le> t" for t using e(3) E(5) that
      by (meson diff_le_eq less_imp_le order_trans add_mono)
    then have "k = 0 \<or> (\<exists>v t. map_of (w_limits w'') (mapKey ip win) = Some (v, t) \<and> int k \<le> v \<and> t_ns win \<le> t_ns t)"
      using IH young unfolding counted_at_def by blast
    moreover have "mono (\<lambda>i. t_ns (w_clock w'' i))" using IH unfolding c counted_at_def mono_def by simp
    moreover have "t_ns win \<le> t_ns (w_clock w'' 0)" using e(2)[of ?n] unfolding c by simp
    ultimately show ?case using IH l by (auto simp: counted_at_def)
  next
    case (typed k w' line r w'')
    obtain n where n: "w_clock w'' = (\<lambda>i. w_clock w' (n + i))"
      using clk.holdsD[OF clk.holds_background(1) typed(2) clock_from_self] by (auto simp: clock_from_def)
    show ?case using typed.IH[OF early(1)[OF typed(1) n _ typed.prems, of 0, simplified]] cnt.holdsD[OF cnt.holds_background(1) typed(2)] by blast
  next
    case (indexed k w' x w'')
    obtain n where n: "w_clock w'' = (\<lambda>i. w_clock w' (n + i))"
      using clk.holds_background(2)[OF indexed(2) clock_from_self] by (auto simp: clock_from_def)
    show ?case using indexed.IH[OF early(1)[OF indexed(1) n _ indexed.prems, of 0, simplified]] cnt.holds_background(2)[OF indexed(2)] by blast
  next
    case (backed_up k w' A prefix files r w'')
    obtain n where n: "w_clock w'' = (\<lambda>i. w_clock w' (n + i))"
      using clk.holds_background(3)[OF backed_up(2) clock_from_self] by (auto simp: clock_from_def)
    show ?case using backed_up.IH[OF early(1)[OF backed_up(1) n _ backed_up.prems, of 0, simplified]] cnt.holds_background(3)[OF backed_up(2)] by blast
  qed
qed

section \<open>The limit\<close>

text \<open>
  C36: the rate limit holds for windows of at most ten minutes: in a run within one window, with requests of any clients taken one
  after another and commands, index, flush and backup steps between them in any order, the number of requests of an address
  that are let through is at most the configured limit, whatever the rounding in \<open>float64\<close>; the flush loop drops no counter that still matters.
  Each request of the address is dispatched, on the same database, or answered by \<open>SlowDown\<close>, with the database and the counters as they
  were; the first request of an address without counts in this window and the one before is dispatched.
\<close>
theorem rate_limit:
  assumes "e_limiter E = Some (N, W)" "0 \<le> N" "N < 2 ^ 53" "0 < W" "W \<le> limit_expiration"
    and "\<forall>(k, v, t) \<in> set (w_limits w). 0 \<le> v" "mono (\<lambda>i. t_ns (w_clock w i))"
    and "t_truncate (t_utc (w_clock w 0)) W = win" "t_truncate (t_utc (w_clock w' 0)) W = win"
    and "served E ip w k w'" "split_host_port (cn_remote c) = Inr ip"
  shows "int k \<le> N
    \<and> (if passes E ip w' then (\<exists>w1. handler E u c w' = dispatch E u c w1 \<and> w_db w1 = w_db w')
       else (\<exists>st w1. handler E u c w' = (Ok (slow_down st), w1) \<and> w_db w1 = w_db w' \<and> w_limits w1 = w_limits w'))
    \<and> (0 < N \<and> limit_val (w_limits w) (mapKey ip win) = 0 \<and> limit_val (w_limits w) (mapKey ip (t_add win (- W))) = 0
       \<longrightarrow> passes E ip w)"
  using served_counted[OF assms(1-8,10,9)] limiter_decides[OF assms(1,11), of w' u] passes_fresh[OF assms(1) _ assms(3,8)]
  by (auto split: if_splits)

text \<open>Three times the same request at a server that lets two through per minute.\<close>

theorem rate_limit_witness:
  "\<exists>w1 w2 w3 k. (let E = demo_env\<lparr>e_limiter := Some (2, 60000000000)\<rparr>; serve = \<lambda>w. snd (handler E demo_post demo_conn w) in
     w1 = serve (demo_world demo_db) \<and> w2 = serve w1 \<and> w3 = serve w2
     \<and> served E ''127.0.0.1'' (demo_world demo_db) k w3 \<and> 1 \<le> k \<and> k \<le> 2)"
proof -
  define E where "E = demo_env\<lparr>e_limiter := Some (2, 60000000000)\<rparr>"
  define serve where "serve w = snd (handler E demo_post demo_conn w)" for w
  let ?w = "demo_world demo_db" and ?ip = "''127.0.0.1''" and ?win = "t_truncate (t_utc demo_time) 60000000000"
  have ip: "split_host_port (cn_remote demo_conn) = Inr ?ip" by code_simp
  have E: "e_limiter E = Some (2, 60000000000)" "(2 :: int) < 2 ^ 53" "60000000000 \<le> limit_expiration"
    by (simp_all add: E_def limit_expiration_def nsec_per_sec_def)
  have first: "passes E ?ip ?w" by (rule passes_fresh[OF E(1) _ E(2)]) (simp_all add: limit_val_def demo_world_def)
  have more: "\<exists>j. served E ?ip ?w j (serve w') \<and> k \<le> j" if "served E ?ip ?w k w'" for k w'
  proof -
    have "served E ?ip ?w (if split_host_port (cn_remote demo_conn) = Inr ?ip \<and> passes E ?ip w' then Suc k else k) (serve w')"
      unfolding serve_def by (rule served.request[OF that surjective_pairing])
    then show ?thesis by (intro exI conjI) (auto simp: ip)
  qed
  have "served E ?ip ?w 1 (serve ?w)"
    using served.request[OF served.none surjective_pairing[of "handler E demo_post demo_conn ?w"], of ?ip] ip first by (simp add: serve_def)
  then obtain k where k: "served E ?ip ?w k (serve (serve (serve ?w)))" "1 \<le> k" using more order_trans by meson
  have "t_truncate (t_utc (w_clock (serve (serve (serve ?w))) 0)) 60000000000 = ?win"
    using served_clock[OF k(1)] by (auto simp: clock_from_def demo_world_def)
  from rate_limit[OF E(1) _ E(2) _ E(3) _ _ _ this k(1) ip, of demo_post] have "int k \<le> 2"
    by (auto simp: demo_world_def mono_def)
  then show ?thesis using k unfolding E_def[symmetric] Let_def serve_def[symmetric] by auto
qed

end
