(* ===== verification/Pages.thy ===== *)
theory Pages imports Demo begin

text \<open>
  The configured pages: where they are served, and where the links of the home page lead.
\<close>

lemma has_prefix_seg:
  assumes "CHR ''/'' \<notin> set a" "CHR ''/'' \<notin> set b"
  shows "has_prefix (a @ CHR ''/'' # x) (b @ CHR ''/'' # y) \<longleftrightarrow> a = b \<and> has_prefix x y"
proof -
  have "a = b \<and> x = y @ r" if "a @ CHR ''/'' # x = b @ CHR ''/'' # (y @ r)" for r
  proof -
    have "takeWhile (\<lambda>c. c \<noteq> CHR ''/'') (a @ CHR ''/'' # x) = a" "takeWhile (\<lambda>c. c \<noteq> CHR ''/'') (b @ CHR ''/'' # (y @ r)) = b"
      using assms by (auto simp: takeWhile_append)
    then show ?thesis using that by auto
  qed
  then show ?thesis by (auto simp: has_prefix_iff)
qed

lemma path_escape_seg: "CHR ''/'' \<notin> set (path_escape s)"
proof -
  have "\<forall>d \<in> set [0..<16]. upper_hex d \<noteq> CHR ''/''" by code_simp
  then have h: "d < 16 \<Longrightarrow> upper_hex d \<noteq> CHR ''/''" for d by simp
  have "\<not> path_keeps CHR ''/''" by (simp add: path_keeps_def is_alnum_def byte_def)
  moreover have "byte c div 16 < 16" for c using byte_bound[of c] by (simp add: less_mult_imp_div_less)
  ultimately show ?thesis using h[symmetric] by (auto simp: path_escape_def split: if_splits)
qed

lemma path_escape_eq: "path_escape s = path_escape t \<longleftrightarrow> s = t"
  using path_unescape_escape by (metis sum.inject(2))

lemma split_byte_single: "d \<notin> set s \<Longrightarrow> split_byte d s = [s]"
  by (induction s) auto

definition page_path :: "bytes \<Rightarrow> bytes" where
  "page_path s = ''/'' @ path_escape s @ ''/''"

text \<open>The first parts of a path that \<open>handler.go\<close> knows.\<close>

definition sections :: "bytes list" where
  "sections = [''register'', ''login'', ''logout'', ''console'', ''verify'', ''report'', ''f'', ''thread'', ''search'', ''page'']"

lemma dispatch_other:
  assumes "u_path q = ''/'' @ a @ ''/''" "CHR ''/'' \<notin> set a" "a \<noteq> []" "a \<notin> set sections"
  shows "dispatch E q c w = (Ok (ResponseFormat Success ''text/gemini'' [u_path q]), w)"
proof -
  have p: "has_prefix (u_path q) (CHR ''/'' # b @ CHR ''/'' # y) \<longleftrightarrow> a = b \<and> y = []" if "CHR ''/'' \<notin> set b" for b y
  proof -
    have "has_prefix (u_path q) (CHR ''/'' # b @ CHR ''/'' # y) \<longleftrightarrow> has_prefix (a @ CHR ''/'' # []) (b @ CHR ''/'' # y)"
      by (simp add: assms(1) has_prefix_def)
    also have "\<dots> \<longleftrightarrow> a = b \<and> has_prefix [] y" by (rule has_prefix_seg[OF assms(2) that])
    finally show ?thesis by (auto simp: has_prefix_def)
  qed
  have r: "u_path q \<noteq> ''/''" using assms(1,3) by simp
  note s = assms(4)[unfolded sections_def]
  show ?thesis
    using p[of "''register''" "[]"] p[of "''login''" "[]"] p[of "''logout''" "[]"] p[of "''console''" "[]"] p[of "''verify''" "[]"]
      p[of "''report''" "[]"] p[of "''f''" "[]"] p[of "''thread''" "[]"] p[of "''new''" "''thread/''"] p[of "''new''" "''post/''"]
      p[of "''search''" "[]"] p[of "''page''" "[]"] s r
    by (simp add: dispatch_def Let_def go_ret_def)
qed

text \<open>
  C37: a page of the configuration is served under \<open>/page/\<close> and its name, but the home page links to the name alone: that
  link leads to a path no handler knows, which is answered by repeating the path (unless the page has the name of
  a handler).
\<close>
theorem configured_pages:
  assumes "map_of (c_Page (e_cfg E)) name = Some file" "e_read_file E file = Inr body" "name \<noteq> []" "name \<notin> {''.'', ''..''}"
    and "path_escape name \<notin> set sections"
    and "u_path q = ''/page/'' @ path_escape name @ ''/''" "u_path q' = normalize_path (''/'' @ path_escape name)"
  shows "dispatch E q c w = (Ok (ResponsePlain body), w)
    \<and> (\<exists>ls. RootHandler E None w = (Ok (ResponseFormat Success ''text/gemini'' ls), w) \<and> LinkPrefix @ path_escape name @ '' '' @ name \<in> set ls)
    \<and> dispatch E q' c w = (Ok (ResponseFormat Success ''text/gemini'' [page_path name]), w)"
proof -
  let ?a = "path_escape name"
  have a: "CHR ''/'' \<notin> set ?a" "?a \<noteq> []" by (rule path_escape_seg) (use assms(3) path_escape_eq[of name "[]"] in \<open>simp add: path_escape_def\<close>)
  have d: "path_escape ''.'' = ''.''" "path_escape ''..'' = ''..''" by code_simp+
  have parts: "path_parts (u_path q) = [''page'', ?a]" "path_parts (''/'' @ ?a @ ''/'') = [?a]"
    using path_parts_join[of "[''page'', ?a]"] path_parts_join[of "[?a]"] a assms(6) by simp_all
  have 1: "dispatch E q c w = (Ok (ResponsePlain body), w)"
  proof -
    have p: "has_prefix (u_path q) (CHR ''/'' # b @ CHR ''/'' # y) \<longleftrightarrow> ''page'' = b \<and> has_prefix (?a @ ''/'') y" if "CHR ''/'' \<notin> set b" for b y
    proof -
      have "has_prefix (u_path q) (CHR ''/'' # b @ CHR ''/'' # y) \<longleftrightarrow> has_prefix (''page'' @ CHR ''/'' # (?a @ ''/'')) (b @ CHR ''/'' # y)"
        by (simp add: assms(6) has_prefix_def)
      also have "\<dots> \<longleftrightarrow> ''page'' = b \<and> has_prefix (?a @ ''/'') y" by (rule has_prefix_seg[OF _ that]) simp
      finally show ?thesis .
    qed
    have "dispatch E q c w = PageHandler E q (Some c) w"
      using p[of "''register''" "[]"] p[of "''login''" "[]"] p[of "''logout''" "[]"] p[of "''console''" "[]"] p[of "''verify''" "[]"]
        p[of "''report''" "[]"] p[of "''f''" "[]"] p[of "''thread''" "[]"] p[of "''new''" "''thread/''"] p[of "''new''" "''post/''"]
        p[of "''search''" "[]"] p[of "''page''" "[]"] assms(6) by (simp add: dispatch_def Let_def has_prefix_def)
    then show ?thesis using parts(1) assms(1,2) by (simp add: PageHandler_def path_unescape_escape go_ret_def)
  qed
  have 2: "LinkPrefix @ ?a @ '' '' @ name \<in> set (root_lines E no_session)"
    using map_of_SomeD[OF assms(1)] by (fastforce simp: root_lines_def Let_def line_link_desc_def)
  have "path_parts (''/'' @ ?a) = [?a]"
    using a by (simp add: path_parts_split split_byte_single)
  then have n: "normalize_path (''/'' @ ?a) = ''/'' @ ?a @ ''/''"
    using assms(4) d path_escape_eq[of name "''.''"] path_escape_eq[of name "''..''"] by (simp add: normalize_path_def Let_def)
  have 3: "dispatch E q' c w = (Ok (ResponseFormat Success ''text/gemini'' [page_path name]), w)"
    using dispatch_other[OF _ a(1,2) assms(5), of q'] assms(7) n by (simp add: page_path_def)
  show ?thesis using 1 2 3 by (simp add: RootHandler_def GetFingerprint_def go_bind_def go_ret_def)
qed

theorem configured_pages_witness:
  "dispatch demo_env \<lparr>u_path = ''/page/about/'', u_query = [], u_force = False\<rparr> demo_conn (demo_world demo_db)
      = (Ok (ResponsePlain ''text''), demo_world demo_db)
   \<and> dispatch demo_env \<lparr>u_path = ''/about/'', u_query = [], u_force = False\<rparr> demo_conn (demo_world demo_db)
      = (Ok (ResponseFormat Success ''text/gemini'' [''/about/'']), demo_world demo_db)"
proof -
  have e: "path_escape ''about'' = ''about''" "normalize_path ''/about'' = ''/about/''" "''about'' \<notin> set sections" by code_simp+
  have "map_of (c_Page (e_cfg demo_env)) ''about'' = Some ''about.gmi''" "e_read_file demo_env ''about.gmi'' = Inr ''text''"
    by (simp_all add: demo_env_def demo_cfg_def)
  from configured_pages[OF this, of "\<lparr>u_path = ''/page/about/'', u_query = [], u_force = False\<rparr>" "\<lparr>u_path = ''/about/'', u_query = [], u_force = False\<rparr>"
      demo_conn "demo_world demo_db"] e show ?thesis by (simp add: page_path_def)
qed

end
