(* ===== verification/Process.thy ===== *)
theory Process imports System begin

text \<open>
  The process around the server: the goroutines \<open>main\<close> starts in \<open>main.go\<close>, the channels between them,
  and the way they shut down (\<open>OnQuit\<close>, with \<open>Server.Run\<close> of the Gemini library).  Every goroutine has a
  position in its code and a step is one of them moving on; channels are their number of buffered
  bytes, each with room for one.  Requests and lines are taken whole, as steps of the server are.
\<close>

section \<open>The goroutines\<close>

text \<open>The next statement of \<open>OnQuit\<close>.\<close>

datatype quit_at = Send | Await | CloseDB | CloseLog | Tell | Return

text \<open>\<open>OnQuit\<close> is called by the goroutine that waits for a signal and by the one that reads the prompt.\<close>

datatype caller = OnSignal | OnPrompt

datatype routine = Absent | Idle | Quitting quit_at | Ended

datatype main_at = Notify | StartPrompt | StartBackup | OpenLog | MakeServer | StartServer | WaitQuit

text \<open>\<open>Server.Run\<close>, and the goroutine it starts to wait for a shutdown.\<close>

datatype listener_at = NotStarted | Binding | Accepting | Returned

datatype closer_at = NoCloser | WaitShutdown | ClosingListener | Completing | CloserDone

datatype fate = Alive | ExitedWith int | Panicked | Killed

record process =
  p_fate :: fate
  p_main :: main_at
  p_call :: "caller \<Rightarrow> routine"
  p_run :: listener_at
  p_closer :: closer_at
  p_ticking :: bool
  p_serv :: bool
  p_listening :: bool
  p_db_open :: bool
  p_log_open :: bool
  p_signals :: nat
  p_shutdown :: nat
  p_completed :: nat
  p_quit_done :: nat
  p_requests :: "(url \<times> conn) list"
  p_env :: env
  p_world :: world

text \<open>The process when \<open>main\<close> has brought up database and index.\<close>

definition launch :: "env \<Rightarrow> world \<Rightarrow> process" where
  "launch E w = \<lparr>p_fate = Alive, p_main = Notify, p_call = (\<lambda>_. Absent), p_run = NotStarted, p_closer = NoCloser,
     p_ticking = False, p_serv = False, p_listening = False, p_db_open = True, p_log_open = False, p_signals = 0,
     p_shutdown = 0, p_completed = 0, p_quit_done = 0, p_requests = [], p_env = E, p_world = w\<rparr>"

definition move :: "caller \<Rightarrow> routine \<Rightarrow> process \<Rightarrow> process" where
  "move c x p = p\<lparr>p_call := (p_call p)(c := x)\<rparr>"

text \<open>Who makes a step: \<open>Outside\<close> stands for clients, the operator and the system.\<close>

datatype who = Main | Caller caller | Closer | Listener | Workers | Outside

section \<open>Shutting down\<close>

text \<open>
  \<open>OnQuit\<close>, statement by statement.  A call before \<open>serv\<close> is set dereferences \<open>nil\<close>.  When it
  returns to the prompt the line is still given to \<open>ConsoleCommand\<close>, which knows no \<open>quit\<close> and whose
  log entry is refused by the closed database.
\<close>

inductive quit_step :: "caller \<Rightarrow> process \<Rightarrow> process \<Rightarrow> bool" for c where
  nil: "p_call p c = Quitting Send \<Longrightarrow> \<not> p_serv p \<Longrightarrow> quit_step c p (p\<lparr>p_fate := Panicked\<rparr>)"
| send: "p_call p c = Quitting Send \<Longrightarrow> p_serv p \<Longrightarrow> p_shutdown p < 1 \<Longrightarrow>
     quit_step c p (move c (Quitting Await) (p\<lparr>p_shutdown := p_shutdown p + 1\<rparr>))"
| await: "p_call p c = Quitting Await \<Longrightarrow> 0 < p_completed p \<Longrightarrow>
     quit_step c p (move c (Quitting CloseDB) (p\<lparr>p_completed := p_completed p - 1\<rparr>))"
| close_db: "p_call p c = Quitting CloseDB \<Longrightarrow> quit_step c p (move c (Quitting CloseLog) (p\<lparr>p_db_open := False\<rparr>))"
| close_log: "p_call p c = Quitting CloseLog \<Longrightarrow> quit_step c p (move c (Quitting Tell) (p\<lparr>p_log_open := False\<rparr>))"
| tell: "p_call p c = Quitting Tell \<Longrightarrow> p_quit_done p < 1 \<Longrightarrow>
     quit_step c p (move c (Quitting Return) (p\<lparr>p_quit_done := p_quit_done p + 1\<rparr>))"
| return: "p_call p c = Quitting Return \<Longrightarrow> quit_step c p (move c (if c = OnSignal then Ended else Idle) p)"

text \<open>\<open>main\<close> from the first goroutine on.\<close>

inductive main_step :: "process \<Rightarrow> process \<Rightarrow> bool" where
  notify: "p_main p = Notify \<Longrightarrow> main_step p (move OnSignal Idle (p\<lparr>p_main := StartPrompt\<rparr>))"
| start_prompt: "p_main p = StartPrompt \<Longrightarrow> main_step p (move OnPrompt Idle (p\<lparr>p_main := StartBackup\<rparr>))"
| start_backup: "p_main p = StartBackup \<Longrightarrow> main_step p (p\<lparr>p_main := OpenLog, p_ticking := True\<rparr>)"
| open_log: "p_main p = OpenLog \<Longrightarrow> main_step p (p\<lparr>p_main := MakeServer, p_log_open := ok\<rparr>)"
| make_server: "p_main p = MakeServer \<Longrightarrow> main_step p (p\<lparr>p_main := StartServer, p_serv := True\<rparr>)"
| start_server: "p_main p = StartServer \<Longrightarrow> main_step p (p\<lparr>p_main := WaitQuit, p_run := Binding\<rparr>)"
| finish: "p_main p = WaitQuit \<Longrightarrow> 0 < p_quit_done p \<Longrightarrow>
     main_step p (p\<lparr>p_quit_done := p_quit_done p - 1, p_fate := ExitedWith 0\<rparr>)"

text \<open>
  \<open>Server.Run\<close>: certificates or address that do not work end the process with 1.  An \<open>Accept\<close> that fails although the listener
  is open is logged and then handled as if it had given a connection, which is \<open>nil\<close>.
\<close>

inductive listener_step :: "process \<Rightarrow> process \<Rightarrow> bool" where
  bind: "p_run p = Binding \<Longrightarrow> listener_step p (p\<lparr>p_run := Accepting, p_listening := True, p_closer := WaitShutdown\<rparr>)"
| fatal: "p_run p = Binding \<Longrightarrow> listener_step p (p\<lparr>p_fate := ExitedWith 1\<rparr>)"
| leave: "p_run p = Accepting \<Longrightarrow> \<not> p_listening p \<Longrightarrow> listener_step p (p\<lparr>p_run := Returned\<rparr>)"
| broken: "p_run p = Accepting \<Longrightarrow> p_listening p \<Longrightarrow> listener_step p (p\<lparr>p_fate := Panicked\<rparr>)"

inductive closer_step :: "process \<Rightarrow> process \<Rightarrow> bool" where
  told: "p_closer p = WaitShutdown \<Longrightarrow> 0 < p_shutdown p \<Longrightarrow>
     closer_step p (p\<lparr>p_closer := ClosingListener, p_shutdown := p_shutdown p - 1\<rparr>)"
| close: "p_closer p = ClosingListener \<Longrightarrow> closer_step p (p\<lparr>p_closer := Completing, p_listening := False\<rparr>)"
| complete: "p_closer p = Completing \<Longrightarrow> p_completed p < 1 \<Longrightarrow>
     closer_step p (p\<lparr>p_closer := CloserDone, p_completed := p_completed p + 1\<rparr>)"

section \<open>Working\<close>

text \<open>
  Connections are accepted while the listener is open and answered by goroutines nobody waits for:
  an answer that comes after the database is closed finds its transactions refused.
\<close>

inductive worker_step :: "process \<Rightarrow> process \<Rightarrow> bool" where
  respond: "p_db_open p \<Longrightarrow> p_requests p = qs @ (u, c) # qs' \<Longrightarrow> handler (p_env p) u c (p_world p) = (Ok r, w) \<Longrightarrow>
     worker_step p (p\<lparr>p_requests := qs @ qs', p_world := w\<rparr>)"
| crash: "p_db_open p \<Longrightarrow> p_requests p = qs @ (u, c) # qs' \<Longrightarrow> handler (p_env p) u c (p_world p) = (Panic, w) \<Longrightarrow>
     worker_step p (p\<lparr>p_fate := Panicked, p_world := w\<rparr>)"
| late: "\<not> p_db_open p \<Longrightarrow> p_requests p = qs @ (u, c) # qs' \<Longrightarrow> worker_step p (p\<lparr>p_requests := qs @ qs'\<rparr>)"
| indexed: "keywordDBloop_step (p_world p) = Some (x, w) \<Longrightarrow> worker_step p (p\<lparr>p_world := w\<rparr>)"
| flushed: "store_flush ex (p_world p) = (Ok (), w) \<Longrightarrow> worker_step p (p\<lparr>p_world := w\<rparr>)"
| saved: "p_ticking p \<Longrightarrow> p_db_open p \<Longrightarrow> runBackup A (e_cfg (p_env p)) prefix files (p_world p) = (r, w) \<Longrightarrow>
     worker_step p (p\<lparr>p_world := w\<rparr>)"

text \<open>A signal that finds the buffer full is dropped; before \<open>Notify\<close> it kills the process, as others always do.\<close>

inductive outside_step :: "process \<Rightarrow> process \<Rightarrow> bool" where
  accept: "p_run p = Accepting \<Longrightarrow> p_listening p \<Longrightarrow> request_ok u \<Longrightarrow>
     outside_step p (p\<lparr>p_requests := p_requests p @ [(u, c)]\<rparr>)"
| signal: "p_main p \<noteq> Notify \<Longrightarrow> p_signals p < 1 \<Longrightarrow> outside_step p (p\<lparr>p_signals := p_signals p + 1\<rparr>)"
| received: "p_call p OnSignal = Idle \<Longrightarrow> 0 < p_signals p \<Longrightarrow>
     outside_step p (move OnSignal (Quitting Send) (p\<lparr>p_signals := p_signals p - 1\<rparr>))"
| quit: "p_call p OnPrompt = Idle \<Longrightarrow> outside_step p (move OnPrompt (Quitting Send) p)"
| typed: "p_call p OnPrompt = Idle \<Longrightarrow> p_db_open p \<Longrightarrow> line \<noteq> ''quit'' \<Longrightarrow>
     OnSTDin (p_env p) (go_ret ()) line (p_world p) = (Ok r, w) \<Longrightarrow> outside_step p (p\<lparr>p_world := w\<rparr>)"
| typed_late: "p_call p OnPrompt = Idle \<Longrightarrow> \<not> p_db_open p \<Longrightarrow> outside_step p p"
| eof: "p_call p OnPrompt = Idle \<Longrightarrow> outside_step p (move OnPrompt Ended p)"
| killed: "outside_step p (p\<lparr>p_fate := Killed\<rparr>)"

fun moves :: "who \<Rightarrow> process \<Rightarrow> process \<Rightarrow> bool" where
  "moves Main = main_step"
| "moves (Caller c) = quit_step c"
| "moves Closer = closer_step"
| "moves Listener = listener_step"
| "moves Workers = worker_step"
| "moves Outside = outside_step"

definition proc_step :: "who \<Rightarrow> process \<Rightarrow> process \<Rightarrow> bool" where
  "proc_step g p q \<longleftrightarrow> p_fate p = Alive \<and> moves g p q"

inductive proc_steps :: "nat \<Rightarrow> process \<Rightarrow> process \<Rightarrow> bool" where
  none: "proc_steps 0 p p"
| more: "proc_steps n p q \<Longrightarrow> proc_step g q q' \<Longrightarrow> proc_steps (Suc n) p q'"

section \<open>The invariant\<close>

text \<open>
  The single byte of \<open>ShutdownCompleted\<close> is a ticket: it is made once, by the closer, and then held
  by one caller until it becomes the byte of \<open>quitDone\<close> and the end of \<open>main\<close>.
\<close>

definition n_at :: "process \<Rightarrow> quit_at \<Rightarrow> nat" where
  "n_at p x = of_bool (p_call p OnSignal = Quitting x) + of_bool (p_call p OnPrompt = Quitting x)"

text \<open>What has been started, and what is listening.\<close>

definition placed :: "process \<Rightarrow> bool" where
  "placed p \<longleftrightarrow>
     (p_serv p \<longleftrightarrow> p_main p \<in> {StartServer, WaitQuit}) \<and> (p_run p = NotStarted \<longleftrightarrow> p_main p \<noteq> WaitQuit)
     \<and> (p_main p = Notify \<longrightarrow> p_call p OnSignal = Absent) \<and> (p_main p \<in> {Notify, StartPrompt} \<longrightarrow> p_call p OnPrompt = Absent)
     \<and> (p_closer p = NoCloser \<longleftrightarrow> p_run p \<in> {NotStarted, Binding})
     \<and> (p_listening p \<longleftrightarrow> p_closer p \<in> {WaitShutdown, ClosingListener})
     \<and> (\<not> p_serv p \<longrightarrow> p_shutdown p = 0)
     \<and> (\<forall>(u, c) \<in> set (p_requests p). request_ok u)"

text \<open>Who waits for the shutdown to complete, where the ticket is, and what is closed by then.\<close>

definition waits :: "process \<Rightarrow> bool" where
  "waits p \<longleftrightarrow> n_at p Await = p_shutdown p + of_bool (p_closer p = ClosingListener) + of_bool (p_closer p = Completing) + p_completed p"

definition ticket :: "process \<Rightarrow> bool" where
  "ticket p \<longleftrightarrow> p_completed p + n_at p CloseDB + n_at p CloseLog + n_at p Tell + p_quit_done p + of_bool (p_fate p = ExitedWith 0)
     = of_bool (p_closer p = CloserDone)"

definition shut :: "process \<Rightarrow> bool" where
  "shut p \<longleftrightarrow> (p_db_open p \<longleftrightarrow> n_at p CloseLog = 0 \<and> n_at p Tell = 0 \<and> p_quit_done p = 0 \<and> p_fate p \<noteq> ExitedWith 0)
     \<and> (p_log_open p \<longrightarrow> n_at p Tell = 0 \<and> p_quit_done p = 0 \<and> p_fate p \<noteq> ExitedWith 0)
     \<and> (0 < n_at p Return \<longrightarrow> 0 < p_quit_done p \<or> p_fate p = ExitedWith 0)"

definition proc_ok :: "process \<Rightarrow> bool" where
  "proc_ok p \<longleftrightarrow> placed p \<and> waits p \<and> ticket p \<and> shut p"

lemmas proc_defs = proc_ok_def placed_def waits_def ticket_def shut_def

lemma n_at_caller: "0 < n_at p x \<longleftrightarrow> (\<exists>c. p_call p c = Quitting x)"
proof -
  have "(\<exists>c. P c) \<longleftrightarrow> P OnSignal \<or> P OnPrompt" for P by (metis caller.exhaust)
  then show ?thesis by (simp add: n_at_def)
qed

lemma n_at_move [simp]:
  "n_at (move c x p) y = (n_at p y - of_bool (p_call p c = Quitting y)) + of_bool (x = Quitting y)"
  by (cases c) (auto simp: n_at_def move_def)

lemma n_at_simps [simp]:
  "n_at (p\<lparr>p_fate := x0\<rparr>) y = n_at p y" "n_at (p\<lparr>p_main := x1\<rparr>) y = n_at p y" "n_at (p\<lparr>p_run := x2\<rparr>) y = n_at p y"
  "n_at (p\<lparr>p_closer := x3\<rparr>) y = n_at p y" "n_at (p\<lparr>p_ticking := x4\<rparr>) y = n_at p y" "n_at (p\<lparr>p_serv := x5\<rparr>) y = n_at p y"
  "n_at (p\<lparr>p_listening := x6\<rparr>) y = n_at p y" "n_at (p\<lparr>p_db_open := x7\<rparr>) y = n_at p y" "n_at (p\<lparr>p_log_open := x8\<rparr>) y = n_at p y"
  "n_at (p\<lparr>p_signals := x9\<rparr>) y = n_at p y" "n_at (p\<lparr>p_shutdown := x10\<rparr>) y = n_at p y" "n_at (p\<lparr>p_completed := x11\<rparr>) y = n_at p y"
  "n_at (p\<lparr>p_quit_done := x12\<rparr>) y = n_at p y" "n_at (p\<lparr>p_requests := x13\<rparr>) y = n_at p y" "n_at (p\<lparr>p_world := x14\<rparr>) y = n_at p y"
  by (simp_all add: n_at_def)

lemma n_at_pos: "p_call p c = Quitting x \<Longrightarrow> 0 < n_at p x"
  unfolding n_at_caller by blast

lemma move_simps [simp]:
  "p_fate (move c x p) = p_fate p" "p_main (move c x p) = p_main p" "p_run (move c x p) = p_run p" "p_closer (move c x p) = p_closer p"
  "p_serv (move c x p) = p_serv p" "p_listening (move c x p) = p_listening p" "p_db_open (move c x p) = p_db_open p"
  "p_log_open (move c x p) = p_log_open p" "p_signals (move c x p) = p_signals p" "p_shutdown (move c x p) = p_shutdown p"
  "p_completed (move c x p) = p_completed p" "p_quit_done (move c x p) = p_quit_done p" "p_requests (move c x p) = p_requests p"
  "p_env (move c x p) = p_env p" "p_world (move c x p) = p_world p" "p_call (move c x p) = (p_call p)(c := x)"
  by (simp_all add: move_def)



lemma proc_ok_launch: "proc_ok (launch E w)"
  by (simp add: proc_defs launch_def n_at_def)

lemma quit_step_ok:
  assumes "quit_step c p q" "proc_ok p" "p_fate p = Alive"
  shows "proc_ok q"
proof -
  have ok: "placed p" "waits p" "ticket p" "shut p" using assms(2) by (simp_all add: proc_ok_def)
  have pos: "p_call p c = Quitting x \<Longrightarrow> \<exists>n. n_at p x = Suc n" for x
    using n_at_pos[of p c x] by (simp add: gr0_conv_Suc)
  have "p_call p c \<noteq> Absent" using assms(1) by cases auto
  then have m: "p_main p \<noteq> Notify" "p_main p = StartPrompt \<longrightarrow> c = OnSignal"
    using ok(1) by (cases c; simp add: placed_def)+
  have "placed q" using assms(1) by cases (use ok(1) m in \<open>simp_all add: placed_def\<close>)
  moreover have "waits q" using assms(1) by cases (use ok(2) in \<open>auto simp: waits_def\<close>)
  moreover have "ticket q" using assms(1) by cases (use ok(3) assms(3) in \<open>auto dest!: pos simp: ticket_def of_bool_def split: if_splits\<close>)
  moreover have "shut q" using assms(1)
  proof cases
    case tell
    then show ?thesis using ok(3,4) assms(3) pos[OF tell(2)] by (auto simp: shut_def ticket_def)
  qed (use ok(4) assms(3) in \<open>auto dest!: pos simp: shut_def\<close>)
  ultimately show ?thesis by (simp add: proc_ok_def)
qed

lemma main_step_ok:
  assumes "main_step p q" "proc_ok p" "p_fate p = Alive"
  shows "proc_ok q"
proof -
  have ok: "placed p" "waits p" "ticket p" "shut p" using assms(2) by (simp_all add: proc_ok_def)
  have early: "p_main p \<noteq> WaitQuit \<Longrightarrow> n_at p CloseLog = 0 \<and> n_at p Tell = 0 \<and> p_quit_done p = 0"
    using ok(1,3) by (auto simp: ticket_def placed_def)
  have "placed q" using assms(1) by cases (use ok(1) in \<open>auto simp: placed_def\<close>)
  moreover have "waits q" using assms(1) by cases (use ok(2) ok(1)[unfolded placed_def] in \<open>auto simp: waits_def\<close>)
  moreover have "ticket q" using assms(1) by cases (use ok(3) assms(3) ok(1)[unfolded placed_def] in \<open>auto simp: ticket_def\<close>)
  moreover have "shut q" using assms(1) by cases (use ok(4) assms(3) early in \<open>auto simp: shut_def\<close>)
  ultimately show ?thesis by (simp add: proc_ok_def)
qed

lemma listener_step_ok:
  assumes "listener_step p q" "proc_ok p" "p_fate p = Alive"
  shows "proc_ok q"
proof -
  have ok: "placed p" "waits p" "ticket p" "shut p" using assms(2) by (simp_all add: proc_ok_def)
  have "placed q" using assms(1) by cases (use ok(1) in \<open>auto simp: placed_def\<close>)
  moreover have "waits q" using assms(1) by cases (use ok(2) ok(1)[unfolded placed_def] in \<open>auto simp: waits_def\<close>)
  moreover have "ticket q" using assms(1) by cases (use ok(3) assms(3) ok(1)[unfolded placed_def] in \<open>auto simp: ticket_def\<close>)
  moreover have "shut q" using assms(1) by cases (use ok(4) assms(3) in \<open>auto simp: shut_def\<close>)
  ultimately show ?thesis by (simp add: proc_ok_def)
qed

lemma closer_step_ok:
  assumes "closer_step p q" "proc_ok p" "p_fate p = Alive"
  shows "proc_ok q"
proof -
  have ok: "placed p" "waits p" "ticket p" "shut p" using assms(2) by (simp_all add: proc_ok_def)
  have "placed q" using assms(1) by cases (use ok(1) in \<open>auto simp: placed_def\<close>)
  moreover have "waits q" using assms(1) by cases (use ok(2) in \<open>auto simp: waits_def\<close>)
  moreover have "ticket q" using assms(1) by cases (use ok(3) assms(3) in \<open>auto simp: ticket_def\<close>)
  moreover have "shut q" using assms(1) by cases (use ok(4) assms(3) in \<open>auto simp: shut_def\<close>)
  ultimately show ?thesis by (simp add: proc_ok_def)
qed

lemma worker_step_ok:
  assumes "worker_step p q" "proc_ok p" "p_fate p = Alive"
  shows "proc_ok q"
proof -
  have ok: "placed p" "waits p" "ticket p" "shut p" using assms(2) by (simp_all add: proc_ok_def)
  have "placed q" using assms(1) by cases (use ok(1) in \<open>auto simp: placed_def\<close>)
  moreover have "waits q" using assms(1) by cases (use ok(2) in \<open>auto simp: waits_def\<close>)
  moreover have "ticket q" using assms(1) by cases (use ok(3) assms(3) in \<open>auto simp: ticket_def\<close>)
  moreover have "shut q" using assms(1) by cases (use ok(4) assms(3) in \<open>auto simp: shut_def\<close>)
  ultimately show ?thesis by (simp add: proc_ok_def)
qed

lemma outside_step_ok:
  assumes "outside_step p q" "proc_ok p" "p_fate p = Alive"
  shows "proc_ok q"
proof -
  have ok: "placed p" "waits p" "ticket p" "shut p" using assms(2) by (simp_all add: proc_ok_def)
  have "placed q" using assms(1) by cases (use ok(1) in \<open>auto simp: placed_def\<close>)
  moreover have "waits q" using assms(1) by cases (use ok(2) in \<open>auto simp: waits_def\<close>)
  moreover have "ticket q" using assms(1) by cases (use ok(3) assms(3) in \<open>auto simp: ticket_def\<close>)
  moreover have "shut q" using assms(1) by cases (use ok(4) assms(3) in \<open>auto simp: shut_def\<close>)
  ultimately show ?thesis by (simp add: proc_ok_def)
qed

lemma proc_step_ok: "proc_step g p q \<Longrightarrow> proc_ok p \<Longrightarrow> proc_ok q"
  by (cases g) (auto simp: proc_step_def intro: main_step_ok quit_step_ok closer_step_ok listener_step_ok worker_step_ok outside_step_ok)

lemma proc_steps_ok: "proc_steps n p q \<Longrightarrow> proc_ok p \<Longrightarrow> proc_ok q"
  by (induction rule: proc_steps.induct) (auto intro: proc_step_ok)


section \<open>The process as the server\<close>

text \<open>The server runs while the database is open and the process alive.\<close>

definition server_of :: "process \<Rightarrow> server" where
  "server_of p = (if p_fate p = Alive \<and> p_db_open p then Up (p_env p) (p_world p) else Down (w_db (p_world p)))"

lemma proc_step_server:
  assumes "proc_step g p q" "proc_ok p"
  shows "server_of q = server_of p \<or> step (server_of p) (server_of q)"
proof -
  have f: "p_fate p = Alive" using assms(1) by (simp add: proc_step_def)
  have stop: "q = p\<lparr>p_fate := x\<rparr> \<Longrightarrow> x \<noteq> Alive \<Longrightarrow> ?thesis" for x
    using f by (auto simp: server_of_def intro: step.stop)
  show ?thesis
  proof (cases g)
    case Main
    then have "main_step p q" using assms(1) by (simp add: proc_step_def)
    moreover have "0 < p_quit_done p \<Longrightarrow> \<not> p_db_open p" using assms(2) by (simp add: proc_ok_def shut_def)
    ultimately show ?thesis using f by cases (auto simp: server_of_def)
  next
    case (Caller c)
    then have "quit_step c p q" using assms(1) by (simp add: proc_step_def)
    then show ?thesis using f stop by cases (auto simp: server_of_def intro: step.stop)
  next
    case Closer
    then have "closer_step p q" using assms(1) by (simp add: proc_step_def)
    then show ?thesis using f by cases (auto simp: server_of_def)
  next
    case Listener
    then have "listener_step p q" using assms(1) by (simp add: proc_step_def)
    then show ?thesis using f stop by cases (auto simp: server_of_def)
  next
    case Workers
    then have "worker_step p q" using assms(1) by (simp add: proc_step_def)
    then show ?thesis
    proof cases
      case (respond qs u c qs' r w)
      then have "request_ok u" using assms(2) by (simp add: proc_ok_def placed_def)
      then show ?thesis using respond f by (auto simp: server_of_def intro: step.serve)
    next
      case (crash qs u c qs' w)
      then have "request_ok u" using assms(2) by (simp add: proc_ok_def placed_def)
      then show ?thesis using crash f by (auto simp: server_of_def intro: step.crash)
    next
      case (indexed x w)
      then have "w_db w = w_db (p_world p)" by (auto simp: keywordDBloop_step_def split: option.splits list.splits)
      then show ?thesis using indexed f by (auto simp: server_of_def intro: step.indexed)
    next
      case (flushed ex w)
      then show ?thesis using f flush_db[OF flushed(2)] by (auto simp: server_of_def intro: step.flushed)
    qed (use f in \<open>auto simp: server_of_def intro: step.backed_up\<close>)
  next
    case Outside
    then have "outside_step p q" using assms(1) by (simp add: proc_step_def)
    then show ?thesis using f stop by cases (auto simp: server_of_def intro: step.typed)
  qed
qed

lemma steps_one: "step s s' \<Longrightarrow> steps 1 s s'"
  using steps.more[OF steps.none] by simp

lemma steps_trans: "steps n s' s'' \<Longrightarrow> steps m s s' \<Longrightarrow> steps (m + n) s s''"
  by (induction rule: steps.induct) (auto intro: steps.more)

lemma proc_steps_server:
  assumes "proc_steps n p q" "proc_ok p"
  obtains m where "m \<le> n" "steps m (server_of p) (server_of q)"
proof -
  from assms have "\<exists>m\<le>n. steps m (server_of p) (server_of q)"
  proof (induction rule: proc_steps.induct)
    case (more n p q g q')
    then obtain m where m: "m \<le> n" "steps m (server_of p) (server_of q)" by blast
    have "proc_ok q" using proc_steps_ok more.hyps(1) more.prems by blast
    from proc_step_server[OF more.hyps(2) this] m show ?case by (auto intro: steps.more le_SucI exI[of _ "Suc m"])
  qed (auto intro: steps.none)
  then show ?thesis using that by blast
qed

end
