(* ===== verification/Shutdown.thy ===== *)
theory Shutdown imports Process Starting begin

text \<open>
  How a shutdown ends.  \<open>quit_left\<close> ranks the states of the process by how far the shutdown has come; in every state
  of a shutdown it is one goroutine's turn, which can go on and stays able to until it does, so that a fair
  scheduler brings the process to its end.
\<close>

section \<open>How far a shutdown is\<close>

text \<open>From its end backwards; \<open>quit_left\<close> is the first stage that is reached.\<close>

definition stages :: "process \<Rightarrow> bool list" where
  "stages p = [p_fate p \<noteq> Alive, 0 < p_quit_done p, 0 < n_at p Tell, 0 < n_at p CloseLog, 0 < n_at p CloseDB, 0 < p_completed p,
     p_closer p = Completing, p_closer p = ClosingListener, 0 < p_shutdown p \<and> p_closer p = WaitShutdown,
     0 < p_shutdown p \<and> p_run p = Binding, 0 < p_shutdown p, 0 < n_at p Send]"

definition quit_left :: "process \<Rightarrow> nat" where
  "quit_left p = length (takeWhile Not (stages p))"

abbreviation quitting :: "process \<Rightarrow> bool" where
  "quitting p \<equiv> quit_left p < 12"

text \<open>Whose turn it is.\<close>

inductive helps :: "who \<Rightarrow> process \<Rightarrow> bool" where
  "quit_left p = 1 \<Longrightarrow> helps Main p"
| "quit_left p = 2 \<Longrightarrow> p_call p c = Quitting Tell \<Longrightarrow> helps (Caller c) p"
| "quit_left p = 3 \<Longrightarrow> p_call p c = Quitting CloseLog \<Longrightarrow> helps (Caller c) p"
| "quit_left p = 4 \<Longrightarrow> p_call p c = Quitting CloseDB \<Longrightarrow> helps (Caller c) p"
| "quit_left p = 5 \<Longrightarrow> p_call p c = Quitting Await \<Longrightarrow> helps (Caller c) p"
| "quit_left p \<in> {6, 7, 8} \<Longrightarrow> helps Closer p"
| "quit_left p = 9 \<Longrightarrow> helps Listener p"
| "quit_left p = 10 \<Longrightarrow> helps Main p"
| "quit_left p = 11 \<Longrightarrow> p_call p c = Quitting Send \<Longrightarrow> helps (Caller c) p"

lemma length_stages [simp]: "length (stages p) = 12"
  by (simp add: stages_def)

lemma stages_nth [simp]:
  "stages p ! 0 \<longleftrightarrow> p_fate p \<noteq> Alive" "stages p ! 1 \<longleftrightarrow> 0 < p_quit_done p" "stages p ! Suc 0 \<longleftrightarrow> 0 < p_quit_done p"
  "stages p ! 2 \<longleftrightarrow> 0 < n_at p Tell" "stages p ! 3 \<longleftrightarrow> 0 < n_at p CloseLog" "stages p ! 4 \<longleftrightarrow> 0 < n_at p CloseDB"
  "stages p ! 5 \<longleftrightarrow> 0 < p_completed p" "stages p ! 6 \<longleftrightarrow> p_closer p = Completing" "stages p ! 7 \<longleftrightarrow> p_closer p = ClosingListener"
  "stages p ! 8 \<longleftrightarrow> 0 < p_shutdown p \<and> p_closer p = WaitShutdown" "stages p ! 9 \<longleftrightarrow> 0 < p_shutdown p \<and> p_run p = Binding"
  "stages p ! 10 \<longleftrightarrow> 0 < p_shutdown p" "stages p ! 11 \<longleftrightarrow> 0 < n_at p Send"
  by (simp_all add: stages_def)

lemma quit_left_le: "i < 12 \<Longrightarrow> stages p ! i \<Longrightarrow> quit_left p \<le> i"
  unfolding quit_left_def by (rule ccontr) (metis linorder_not_le nth_mem set_takeWhileD takeWhile_nth)

lemma quit_left_stage: "quitting p \<Longrightarrow> stages p ! quit_left p"
  unfolding quit_left_def using nth_length_takeWhile[of Not "stages p"] by simp

lemma quit_left_iff: "i < 12 \<Longrightarrow> quit_left p = i \<longleftrightarrow> stages p ! i \<and> (\<forall>j<i. \<not> stages p ! j)"
  using quit_left_le[of _ p] quit_left_stage[of p] by (metis le_eq_less_or_eq linorder_neqE_nat not_le order.strict_trans)

lemma quit_left_keep:
  assumes "k = 12 \<or> k < 12 \<and> stages q ! k" "list_all2 (\<longrightarrow>) (take k (stages p)) (take k (stages q))"
  shows "quit_left q \<le> quit_left p"
proof -
  have keep: "stages p ! i \<Longrightarrow> stages q ! i" if "i < k" for i
    using list_all2_nthD[OF assms(2), of i] that assms(1) by auto
  have l: "quit_left q \<le> 12" unfolding quit_left_def using length_takeWhile_le[of Not "stages q"] by simp
  show ?thesis
  proof (cases "quit_left p < k")
    case True
    then have "quitting p" using assms(1) by auto
    then show ?thesis using quit_left_le[OF _ keep[OF True quit_left_stage]] by blast
  next
    case False
    then show ?thesis using assms(1) l quit_left_le[of k q] by linarith
  qed
qed

lemma quit_left_same:
  assumes "p_fate q = p_fate p \<or> p_fate q \<noteq> Alive" "p_quit_done q = p_quit_done p" "p_completed q = p_completed p"
    "p_closer q = p_closer p" "p_shutdown q = p_shutdown p" "p_run q = p_run p \<or> p_run p \<noteq> Binding"
    "\<And>x. x \<noteq> Return \<Longrightarrow> 0 < n_at p x \<Longrightarrow> 0 < n_at q x"
  shows "quit_left q \<le> quit_left p"
  by (rule quit_left_keep[of 12]) (use assms in \<open>auto simp: stages_def\<close>)

lemma quit_step_left:
  assumes "quit_step c p q"
  shows "quit_left q \<le> quit_left p"
  using assms
proof cases
  case nil
  then show ?thesis by (intro quit_left_same) auto
next
  case send
  then show ?thesis by (intro quit_left_keep[of 10]) (auto simp: stages_def)
next
  case await
  then show ?thesis by (intro quit_left_keep[of 4]) (auto simp: stages_def)
next
  case close_db
  then show ?thesis by (intro quit_left_keep[of 3]) (auto simp: stages_def)
next
  case close_log
  then show ?thesis by (intro quit_left_keep[of 2]) (auto simp: stages_def)
next
  case tell
  then show ?thesis by (intro quit_left_keep[of 1]) (auto simp: stages_def)
next
  case return
  then show ?thesis by (intro quit_left_same) auto
qed

lemma closer_step_left:
  assumes "closer_step p q"
  shows "quit_left q \<le> quit_left p"
  using assms
proof cases
  case told
  then show ?thesis by (intro quit_left_keep[of 7]) (auto simp: stages_def)
next
  case close
  then show ?thesis by (intro quit_left_keep[of 6]) (auto simp: stages_def)
next
  case complete
  then show ?thesis by (intro quit_left_keep[of 5]) (auto simp: stages_def)
qed

lemma listener_step_left:
  assumes "listener_step p q" "proc_ok p"
  shows "quit_left q \<le> quit_left p"
  using assms(1)
proof cases
  case bind
  then have "p_closer p = NoCloser" using assms(2) by (simp add: proc_defs)
  then show ?thesis using bind
    by (cases "0 < p_shutdown p") (intro quit_left_keep[of 8] quit_left_keep[of 12]; auto simp: stages_def)+
next
  case fatal
  then show ?thesis by (intro quit_left_same) auto
next
  case leave
  then show ?thesis by (intro quit_left_same) auto
next
  case broken
  then show ?thesis by (intro quit_left_same) auto
qed

lemma main_step_left:
  assumes "main_step p q" "proc_ok p"
  shows "quit_left q \<le> quit_left p"
proof -
  have m: "p_main p = Notify \<longrightarrow> p_call p OnSignal = Absent" "p_main p = StartPrompt \<longrightarrow> p_call p OnPrompt = Absent"
    "p_main p \<noteq> WaitQuit \<longrightarrow> p_run p = NotStarted"
    using assms(2) by (simp_all add: proc_defs)
  from assms(1) show ?thesis
  proof cases
    case finish
    then show ?thesis by (intro quit_left_keep[of 0]) auto
  qed (use m in \<open>auto intro!: quit_left_same\<close>)
qed

lemma worker_step_left: "worker_step p q \<Longrightarrow> quit_left q \<le> quit_left p"
  by (induction rule: worker_step.induct) (auto intro!: quit_left_same)

lemma outside_step_left: "outside_step p q \<Longrightarrow> quit_left q \<le> quit_left p"
  by (induction rule: outside_step.induct) (auto intro!: quit_left_same)

lemma proc_step_left: "proc_step g p q \<Longrightarrow> proc_ok p \<Longrightarrow> quit_left q \<le> quit_left p"
  by (cases g) (auto simp: proc_step_def
      intro: main_step_left quit_step_left closer_step_left listener_step_left worker_step_left outside_step_left)

lemma helper:
  assumes "p_fate p = Alive" "quitting p" "proc_ok p"
  obtains g where "helps g p"
proof -
  have a: "0 < n_at p Await" if "0 < p_completed p" using that assms(3) by (simp add: proc_defs)
  note s = quit_left_stage[OF assms(2)]
  from assms(2) have "quit_left p = 0 \<or> quit_left p = 1 \<or> quit_left p = 2 \<or> quit_left p = 3 \<or> quit_left p = 4 \<or> quit_left p = 5
      \<or> quit_left p \<in> {6, 7, 8} \<or> quit_left p = 9 \<or> quit_left p = 10 \<or> quit_left p = 11"
    by (simp only: insert_iff empty_iff) arith
  then consider "quit_left p = 0" | "quit_left p = 1" | "quit_left p = 2" | "quit_left p = 3" | "quit_left p = 4" | "quit_left p = 5"
    | "quit_left p \<in> {6, 7, 8}" | "quit_left p = 9" | "quit_left p = 10" | "quit_left p = 11" by metis
  then have "\<exists>g. helps g p"
  proof cases
    case 1 then show ?thesis using s assms(1) by simp
  next
    case 2 then show ?thesis by (blast intro: helps.intros)
  next
    case 3 then show ?thesis using s by (auto simp: n_at_caller intro: helps.intros)
  next
    case 4 then show ?thesis using s by (auto simp: n_at_caller intro: helps.intros)
  next
    case 5 then show ?thesis using s by (auto simp: n_at_caller intro: helps.intros)
  next
    case 6 then show ?thesis using s a by (auto simp: n_at_caller intro: helps.intros)
  next
    case 10 then show ?thesis using s by (auto simp: n_at_caller intro: helps.intros)
  qed (blast intro: helps.intros)+
  then show ?thesis using that by blast
qed

text \<open>The goroutine whose turn it is can move, and takes the shutdown on when it does.\<close>

lemma helper_turn:
  assumes "helps g p" "proc_ok p" "p_fate p = Alive"
  shows "\<exists>q. proc_step g p q" "proc_step g p q \<Longrightarrow> quit_left q < quit_left p"
proof -
  have st: "stages p ! quit_left p" using assms(1) by (intro quit_left_stage) (auto elim: helps.cases)
  have no: "j < quit_left p \<Longrightarrow> \<not> stages p ! j" for j
    using quit_left_le[of j p] assms(1) by (fastforce elim: helps.cases)
  have low: "quit_left q < quit_left p" if "stages q ! j" "j < quit_left p" for j q
    using quit_left_le[of j q] that assms(1) by (fastforce elim: helps.cases)
  have "(\<exists>q. moves g p q) \<and> (moves g p q \<longrightarrow> quit_left q < quit_left p)"
    using assms(1)
  proof cases
    case 1
    then have "p_main p = WaitQuit" "0 < p_quit_done p" using st assms(2) by (auto simp: proc_defs of_bool_def split: if_splits)
    then show ?thesis using 1 low[of _ 0] by (auto intro: main_step.finish elim!: main_step.cases)
  next
    case (2 c)
    then have "p_quit_done p < 1" using no[of 1] by simp
    then show ?thesis using 2 low[of _ 1] by (auto intro: quit_step.tell elim!: quit_step.cases)
  next
    case (3 c)
    then show ?thesis using low[of _ 2] by (auto intro: quit_step.close_log elim!: quit_step.cases)
  next
    case (4 c)
    then show ?thesis using low[of _ 3] by (auto intro: quit_step.close_db elim!: quit_step.cases)
  next
    case (5 c)
    then have "0 < p_completed p" using st by simp
    then show ?thesis using 5 low[of _ 4] by (auto intro: quit_step.await elim!: quit_step.cases)
  next
    case 6
    then consider "p_closer p = Completing" "p_completed p < 1" | "p_closer p = ClosingListener"
      | "p_closer p = WaitShutdown" "0 < p_shutdown p" using st no[of 5] by auto
    then have "\<exists>q. closer_step p q" by cases (blast intro: closer_step.intros)+
    then show ?thesis using 6 st low[of _ 5] low[of _ 6] low[of _ 7] by (auto elim!: closer_step.cases)
  next
    case 7
    then show ?thesis using st low[of _ 0] low[of _ 8] by (auto intro: listener_step.intros elim!: listener_step.cases)
  next
    case 8
    then have "p_closer p \<noteq> Completing" "p_closer p \<noteq> ClosingListener" "p_closer p \<noteq> WaitShutdown" "p_run p \<noteq> Binding" "0 < p_shutdown p"
      "p_completed p = 0" "p_quit_done p = 0"
      using st no[of 6] no[of 7] no[of 8] no[of 9] no[of 5] no[of 1] by simp_all
    moreover have "p_closer p \<noteq> CloserDone"
      using assms(2,3) no[of 1] no[of 2] no[of 3] no[of 4] no[of 5] 8 by (auto simp: proc_defs)
    ultimately have "p_main p = StartServer"
      using assms(2) by (cases "p_closer p") (auto simp: proc_defs)
    then show ?thesis using 8 st low[of _ 9] by (auto intro: main_step.start_server elim!: main_step.cases)
  next
    case (9 c)
    then show ?thesis using no[of 10] low[of _ 0] low[of _ 10] by (cases "p_serv p") (auto intro: quit_step.intros elim!: quit_step.cases)
  qed
  then show "\<exists>q. proc_step g p q" "proc_step g p q \<Longrightarrow> quit_left q < quit_left p"
    using assms(3) by (auto simp: proc_step_def)
qed

text \<open>It stays that goroutine's turn until it moves or the shutdown gets on without it.\<close>

lemma call_stays:
  assumes "proc_step g p q" "g \<noteq> Caller c" "p_call p c = Quitting x" "proc_ok p"
  shows "p_call q c = Quitting x"
proof -
  have m: "p_main p = Notify \<Longrightarrow> p_call p OnSignal = Absent" "p_main p = StartPrompt \<Longrightarrow> p_call p OnPrompt = Absent"
    using assms(4) by (simp_all add: proc_defs)
  show ?thesis
  proof (cases g)
    case Main
    then have "main_step p q" using assms(1) by (simp add: proc_step_def)
    then show ?thesis using assms(3) m by cases auto
  next
    case (Caller d)
    then have "quit_step d p q" "d \<noteq> c" using assms(1,2) by (auto simp: proc_step_def)
    then show ?thesis using assms(3) by cases auto
  next
    case Closer
    then have "closer_step p q" using assms(1) by (simp add: proc_step_def)
    then show ?thesis using assms(3) by cases auto
  next
    case Listener
    then have "listener_step p q" using assms(1) by (simp add: proc_step_def)
    then show ?thesis using assms(3) by cases auto
  next
    case Workers
    then have "worker_step p q" using assms(1) by (simp add: proc_step_def)
    then show ?thesis using assms(3) by cases auto
  next
    case Outside
    then have "outside_step p q" using assms(1) by (simp add: proc_step_def)
    then show ?thesis using assms(3) by cases auto
  qed
qed

lemma helper_stays:
  assumes "helps g p" "proc_step g' p q" "g' \<noteq> g" "quit_left q = quit_left p" "proc_ok p"
  shows "helps g q"
  using assms(1)
proof cases
  case (2 c)
  then show ?thesis using call_stays[OF assms(2) _ _ assms(5)] assms(3,4) by (auto intro: helps.intros)
next
  case (3 c)
  then show ?thesis using call_stays[OF assms(2) _ _ assms(5)] assms(3,4) by (auto intro: helps.intros)
next
  case (4 c)
  then show ?thesis using call_stays[OF assms(2) _ _ assms(5)] assms(3,4) by (auto intro: helps.intros)
next
  case (5 c)
  then show ?thesis using call_stays[OF assms(2) _ _ assms(5)] assms(3,4) by (auto intro: helps.intros)
next
  case (9 c)
  then show ?thesis using call_stays[OF assms(2) _ _ assms(5)] assms(3,4) by (auto intro: helps.intros)
qed (use assms(4) in \<open>auto intro: helps.intros\<close>)

section \<open>Fair runs\<close>

text \<open>
  The scheduler: a goroutine that can go on is not left waiting forever.  Clients, operator and background
  work are under no obligation.  When the process has ended nothing changes any more.
\<close>

definition run :: "(nat \<Rightarrow> process) \<Rightarrow> (nat \<Rightarrow> who) \<Rightarrow> bool" where
  "run r g \<longleftrightarrow> (\<forall>i. if p_fate (r i) = Alive then proc_step (g i) (r i) (r (Suc i)) else r (Suc i) = r i)"

definition fair :: "(nat \<Rightarrow> process) \<Rightarrow> (nat \<Rightarrow> who) \<Rightarrow> bool" where
  "fair r g \<longleftrightarrow> (\<forall>h i. h \<notin> {Workers, Outside} \<longrightarrow> (\<exists>j\<ge>i. g j = h \<or> \<not> (\<exists>q. proc_step h (r j) q)))"

lemma run_cases:
  assumes "run r g"
  obtains "p_fate (r i) = Alive" "proc_step (g i) (r i) (r (Suc i))" | "p_fate (r i) \<noteq> Alive" "r (Suc i) = r i"
  using assms unfolding run_def by meson

lemma run_ok:
  assumes "run r g" "proc_ok (r 0)"
  shows "proc_ok (r i)"
proof (induction i)
  case (Suc i)
  then show ?case by (cases rule: run_cases[OF assms(1), of i]) (auto intro: proc_step_ok)
qed (rule assms(2))

lemma run_left:
  assumes "run r g" "proc_ok (r 0)"
  shows "quit_left (r (Suc i)) \<le> quit_left (r i)"
  by (cases rule: run_cases[OF assms(1), of i]) (auto intro: proc_step_left run_ok[OF assms])

lemma shutdown_ends:
  assumes "run r g" "fair r g" "proc_ok (r 0)" "quitting (r i)"
  shows "\<exists>j\<ge>i. p_fate (r j) \<noteq> Alive"
  using assms(4)
proof (induction "quit_left (r i)" arbitrary: i rule: less_induct)
  case less
  show ?case
  proof (rule ccontr)
    assume n: "\<not> (\<exists>j\<ge>i. p_fate (r j) \<noteq> Alive)"
    then have alive: "p_fate (r j) = Alive" if "i \<le> j" for j using that by blast
    have ok: "proc_ok (r j)" for j by (rule run_ok[OF assms(1,3)])
    have st: "proc_step (g j) (r j) (r (Suc j))" if "i \<le> j" for j using assms(1) alive[OF that] by (simp add: run_def)
    have le: "quit_left (r j) \<le> quit_left (r i)" if "i \<le> j" for j
      using lift_Suc_antimono_le[of "\<lambda>i. quit_left (r i)", OF run_left[OF assms(1,3)] that] .
    have same: "quit_left (r j) = quit_left (r i)" if j: "i \<le> j" for j
    proof (rule ccontr)
      assume "quit_left (r j) \<noteq> quit_left (r i)"
      then have "quit_left (r j) < quit_left (r i)" using le[OF j] by simp
      from less.hyps[OF this] this less.prems have "\<exists>k\<ge>j. p_fate (r k) \<noteq> Alive" by simp
      then show False using n j order_trans by blast
    qed
    obtain h where h: "helps h (r i)" using helper[OF alive less.prems ok] by blast
    have "h \<notin> {Workers, Outside}" using h by (auto elim: helps.cases)
    have stays: "helps h (r (i + m))" if "\<forall>k<m. g (i + k) \<noteq> h" for m
      using that
    proof (induction m)
      case (Suc m)
      then show ?case using helper_stays[OF Suc.IH st[of "i + m"]] same[of "i + m"] same[of "Suc (i + m)"] ok[of "i + m"] by simp
    qed (use h in simp)
    have "g (i + m) \<noteq> h" for m
    proof (induction m rule: less_induct)
      case (less m)
      show ?case
      proof
        assume "g (i + m) = h"
        then have "quit_left (r (Suc (i + m))) < quit_left (r (i + m))"
          using helper_turn(2)[OF stays[of m] ok alive] less st[of "i + m"] by simp
        then show False using same[of "i + m"] same[of "Suc (i + m)"] by simp
      qed
    qed
    then have "helps h (r j)" "g j \<noteq> h" if "i \<le> j" for j
      using stays[of "j - i"] that by (metis le_add_diff_inverse)+
    moreover have "h \<notin> {Workers, Outside}" using h by (auto elim: helps.cases)
    then obtain j where "i \<le> j" "g j = h \<or> \<not> (\<exists>q. proc_step h (r j) q)" using assms(2) unfolding fair_def by blast
    ultimately show False using helper_turn(1)[OF _ ok alive] by blast
  qed
qed

text \<open>Once \<open>OnQuit\<close> is called the shutdown is under way.\<close>

lemma quittingI: "stages p ! i \<Longrightarrow> i < 12 \<Longrightarrow> quitting p"
  using quit_left_le[of i p] by simp

lemma caller_quitting:
  assumes "proc_ok p" "p_call p c = Quitting x"
  shows "quitting p"
proof -
  have n: "0 < n_at p x" using n_at_pos[OF assms(2)] .
  show ?thesis
  proof (cases x)
    case Send
    then show ?thesis using n quittingI[of p 11] by simp
  next
    case Await
    then have "0 < p_shutdown p \<or> p_closer p = ClosingListener \<or> p_closer p = Completing \<or> 0 < p_completed p"
      using n assms(1) by (auto simp: proc_ok_def waits_def)
    then show ?thesis using quittingI[of p 10] quittingI[of p 7] quittingI[of p 6] quittingI[of p 5] by auto
  next
    case CloseDB
    then show ?thesis using n quittingI[of p 4] by simp
  next
    case CloseLog
    then show ?thesis using n quittingI[of p 3] by simp
  next
    case Tell
    then show ?thesis using n quittingI[of p 2] by simp
  next
    case Return
    then have "0 < p_quit_done p \<or> p_fate p \<noteq> Alive" using n assms(1) by (auto simp: proc_ok_def shut_def)
    then show ?thesis using quittingI[of p 1] quittingI[of p 0] by auto
  qed
qed

section \<open>An example\<close>

text \<open>Runs exist: any steps that end the process are the beginning of a fair run.\<close>

lemma run_through:
  assumes "proc_steps n p q" "run r g" "fair r g" "r 0 = q"
  shows "\<exists>r' g'. run r' g' \<and> fair r' g' \<and> r' 0 = p \<and> (\<forall>i. r' (n + i) = r i)"
  using assms
proof (induction arbitrary: r g rule: proc_steps.induct)
  case (none p)
  then show ?case by auto
next
  case (more n p q h q')
  let ?r = "case_nat q r" and ?g = "case_nat h g"
  have "run ?r ?g"
    unfolding run_def
  proof
    fix i
    have "p_fate q = Alive" using more.hyps(2) by (simp add: proc_step_def)
    then show "if p_fate (?r i) = Alive then proc_step (?g i) (?r i) (?r (Suc i)) else ?r (Suc i) = ?r i"
      using more.hyps(2) more.prems(1,3) by (cases i) (simp_all add: run_def)
  qed
  moreover have "fair ?r ?g"
    unfolding fair_def
  proof (intro allI impI)
    fix f i assume "f \<notin> {Workers, Outside}"
    then obtain j where "i \<le> j" "g j = f \<or> \<not> (\<exists>q. proc_step f (r j) q)" using more.prems(2) unfolding fair_def by blast
    then show "\<exists>j\<ge>i. ?g j = f \<or> \<not> (\<exists>q. proc_step f (?r j) q)" by (intro exI[of _ "Suc j"]) simp
  qed
  ultimately obtain r' g' where r': "run r' g'" "fair r' g'" "r' 0 = p" "\<forall>i. r' (n + i) = ?r i"
    using more.IH[of ?r ?g] by auto
  have "r' (Suc n + i) = r i" for i using spec[OF r'(4), of "Suc i"] by simp
  then show ?case using r' by blast
qed

lemma run_dead: "p_fate p \<noteq> Alive \<Longrightarrow> run (\<lambda>_. p) (\<lambda>_. Main) \<and> fair (\<lambda>_. p) (\<lambda>_. Main)"
  by (auto simp: run_def fair_def proc_step_def)

lemma proc_steps_trans: "proc_steps n q q' \<Longrightarrow> proc_steps m p q \<Longrightarrow> proc_steps (m + n) p q'"
  by (induction rule: proc_steps.induct) (auto intro: proc_steps.more)

lemma proc_steps_Suc: "proc_steps n p q \<Longrightarrow> proc_step g q q' \<Longrightarrow> m = Suc n \<Longrightarrow> proc_steps m p q'"
  by (simp add: proc_steps.more)

text \<open>A quit typed as soon as there is a prompt, and one typed when the server runs.\<close>

definition demo_prompt :: process where
  "demo_prompt = (launch demo_env (demo_world demo_db))\<lparr>p_main := StartBackup, p_call := (\<lambda>c. Idle)\<rparr>"

definition demo_running :: process where
  "demo_running = demo_prompt\<lparr>p_main := WaitQuit, p_ticking := True, p_log_open := True, p_serv := True, p_run := Accepting,
     p_listening := True, p_closer := WaitShutdown\<rparr>"

lemma caller_fun_eq: "f = (g :: caller \<Rightarrow> routine) \<longleftrightarrow> f OnSignal = g OnSignal \<and> f OnPrompt = g OnPrompt"
  by (metis caller.exhaust ext)

lemma demo_prompt_steps: "proc_steps 2 (launch demo_env (demo_world demo_db)) demo_prompt"
proof -
  let ?l = "launch demo_env (demo_world demo_db)"
  let ?p = "?l\<lparr>p_main := StartPrompt, p_call := (\<lambda>_. Absent)(OnSignal := Idle)\<rparr>"
  have a: "proc_step Main ?l ?p" using main_step.notify[of ?l] by (simp add: proc_step_def launch_def move_def)
  have "move OnPrompt Idle (?p\<lparr>p_main := StartBackup\<rparr>) = demo_prompt"
    by (simp add: demo_prompt_def launch_def move_def caller_fun_eq)
  then have b: "proc_step Main ?p demo_prompt" using main_step.start_prompt[of ?p] by (simp add: proc_step_def launch_def)
  show ?thesis by (rule proc_steps_Suc[OF proc_steps_Suc[OF proc_steps.none a refl] b]) simp
qed

lemma demo_running_steps: "proc_steps 7 (launch demo_env (demo_world demo_db)) demo_running"
proof -
  note df = demo_prompt_def demo_running_def launch_def proc_step_def
  let ?p3 = "demo_prompt\<lparr>p_main := OpenLog, p_ticking := True\<rparr>"
  let ?p4 = "?p3\<lparr>p_main := MakeServer, p_log_open := True\<rparr>"
  let ?p5 = "?p4\<lparr>p_main := StartServer, p_serv := True\<rparr>"
  let ?p6 = "?p5\<lparr>p_main := WaitQuit, p_run := Binding\<rparr>"
  have a: "proc_step Main demo_prompt ?p3" using main_step.start_backup[of demo_prompt] by (simp add: df)
  have b: "proc_step Main ?p3 ?p4" using main_step.open_log[of ?p3 True] by (simp add: df)
  have c: "proc_step Main ?p4 ?p5" using main_step.make_server[of ?p4] by (simp add: df)
  have d: "proc_step Main ?p5 ?p6" using main_step.start_server[of ?p5] by (simp add: df)
  have e: "proc_step Listener ?p6 demo_running" using listener_step.bind[of ?p6] by (simp add: df)
  show ?thesis
    by (rule proc_steps_Suc[OF proc_steps_Suc[OF proc_steps_Suc[OF proc_steps_Suc[OF proc_steps_Suc[OF demo_prompt_steps a refl] b refl] c refl] d refl] e]) simp
qed

text \<open>From the \<open>quit\<close> at the running server to the end.\<close>

definition demo_asked :: process where
  "demo_asked = demo_running\<lparr>p_call := (\<lambda>c. Idle)(OnPrompt := Quitting Send)\<rparr>"

definition demo_ended :: process where
  "demo_ended = demo_running\<lparr>p_call := (\<lambda>c. Idle)(OnPrompt := Quitting Return), p_closer := CloserDone, p_listening := False,
     p_db_open := False, p_log_open := False, p_fate := ExitedWith 0\<rparr>"

lemma demo_shutdown: "proc_steps 8 (launch demo_env (demo_world demo_db)) demo_asked" "proc_steps 9 demo_asked demo_ended"
proof -
  note d = demo_prompt_def demo_running_def demo_asked_def demo_ended_def launch_def proc_step_def
  have "proc_step Outside demo_running demo_asked" using outside_step.quit[of demo_running] by (simp add: d move_def)
  then show "proc_steps 8 (launch demo_env (demo_world demo_db)) demo_asked" by (rule proc_steps_Suc[OF demo_running_steps]) simp
  let ?c = "\<lambda>x. (\<lambda>c. Idle)(OnPrompt := Quitting x)"
  let ?p1 = "demo_asked\<lparr>p_call := ?c Await, p_shutdown := 1\<rparr>"
  let ?p2 = "?p1\<lparr>p_closer := ClosingListener, p_shutdown := 0\<rparr>"
  let ?p3 = "?p2\<lparr>p_closer := Completing, p_listening := False\<rparr>"
  let ?p4 = "?p3\<lparr>p_closer := CloserDone, p_completed := 1\<rparr>"
  let ?p5 = "?p4\<lparr>p_call := ?c CloseDB, p_completed := 0\<rparr>"
  let ?p6 = "?p5\<lparr>p_call := ?c CloseLog, p_db_open := False\<rparr>"
  let ?p7 = "?p6\<lparr>p_call := ?c Tell, p_log_open := False\<rparr>"
  let ?p8 = "?p7\<lparr>p_call := ?c Return, p_quit_done := 1\<rparr>"
  have a: "proc_step (Caller OnPrompt) demo_asked ?p1" using quit_step.send[of demo_asked OnPrompt] by (simp add: d move_def)
  have b: "proc_step Closer ?p1 ?p2" using closer_step.told[of ?p1] by (simp add: d)
  have c: "proc_step Closer ?p2 ?p3" using closer_step.close[of ?p2] by (simp add: d)
  have e: "proc_step Closer ?p3 ?p4" using closer_step.complete[of ?p3] by (simp add: d)
  have f: "proc_step (Caller OnPrompt) ?p4 ?p5" using quit_step.await[of ?p4 OnPrompt] by (simp add: d move_def)
  have g: "proc_step (Caller OnPrompt) ?p5 ?p6" using quit_step.close_db[of ?p5 OnPrompt] by (simp add: d move_def)
  have h: "proc_step (Caller OnPrompt) ?p6 ?p7" using quit_step.close_log[of ?p6 OnPrompt] by (simp add: d move_def)
  have i: "proc_step (Caller OnPrompt) ?p7 ?p8" using quit_step.tell[of ?p7 OnPrompt] by (simp add: d move_def)
  have j: "proc_step Main ?p8 demo_ended" using main_step.finish[of ?p8] by (simp add: d)
  have k: "proc_steps 4 demo_asked ?p4"
    by (rule proc_steps_Suc[OF proc_steps_Suc[OF proc_steps_Suc[OF proc_steps_Suc[OF proc_steps.none a refl] b refl] c refl] e]) simp
  show "proc_steps 9 demo_asked demo_ended"
    by (rule proc_steps_Suc[OF proc_steps_Suc[OF proc_steps_Suc[OF proc_steps_Suc[OF proc_steps_Suc[OF k f refl] g refl] h refl] i refl] j]) simp
qed

section \<open>The properties\<close>

text \<open>
  C11: a process that ends with status 0 has closed listener, database and log; the database is closed only after the
  listener, by one caller of \<open>OnQuit\<close>, and once.
\<close>
theorem clean_exit:
  assumes "proc_steps n (launch E w) p"
  shows "(p_fate p = ExitedWith 0 \<longrightarrow> \<not> p_listening p \<and> \<not> p_db_open p \<and> \<not> p_log_open p)
    \<and> (\<not> p_db_open p \<longrightarrow> \<not> p_listening p)
    \<and> (\<forall>c d. p_call p c = Quitting CloseDB \<longrightarrow> p_db_open p \<and> \<not> p_listening p \<and> (p_call p d = Quitting CloseDB \<longrightarrow> d = c))"
proof -
  have "proc_ok p" by (rule proc_steps_ok[OF assms proc_ok_launch])
  then have ok: "placed p" "ticket p" "shut p" by (simp_all add: proc_ok_def)
  have "p_closer p = CloserDone" if "p_fate p = ExitedWith 0 \<or> \<not> p_db_open p \<or> 0 < n_at p CloseDB"
    using that ok(2,3) by (auto simp: ticket_def shut_def of_bool_def split: if_splits)
  then have l: "\<not> p_listening p" if "p_fate p = ExitedWith 0 \<or> \<not> p_db_open p \<or> 0 < n_at p CloseDB"
    using that ok(1) by (simp add: placed_def)
  have "p_db_open p \<and> n_at p CloseDB = 1" if "0 < n_at p CloseDB"
    using that ok(2,3) by (auto simp: ticket_def shut_def of_bool_def split: if_splits)
  then have "p_db_open p \<and> \<not> p_listening p \<and> (p_call p d = Quitting CloseDB \<longrightarrow> d = c)" if "p_call p c = Quitting CloseDB" for c d
    using n_at_pos[OF that] l that by (cases c; cases d) (auto simp: n_at_def)
  then show ?thesis using l ok(3) by (auto simp: shut_def)
qed

text \<open>
  C10: a shutdown comes to its end: once a signal or a typed \<open>quit\<close> has called \<open>OnQuit\<close>, wherever the program is then,
  every run of a fair scheduler ends the process, however many requests, lines and further signals come in between.
\<close>
theorem quit_ends:
  assumes "run r g" "fair r g" "r 0 = launch E w" "p_call (r i) c = Quitting x"
  shows "\<exists>j\<ge>i. p_fate (r j) \<noteq> Alive"
proof -
  have "proc_ok (r 0)" using assms(3) proc_ok_launch by simp
  then show ?thesis using shutdown_ends[OF assms(1,2)] caller_quitting[OF run_ok[OF assms(1)] assms(4)] by blast
qed

text \<open>
  C38: quitting too early is a panic: while \<open>main\<close> has not yet made the server, which it does after it has started the prompt,
  \<open>OnQuit\<close> cannot but dereference \<open>nil\<close>, and the process dies with the database open.
\<close>
theorem early_quit:
  assumes "proc_steps n (launch E w) p" "p_fate p = Alive" "\<not> p_serv p" "p_call p c = Quitting x"
  shows "x = Send \<and> p_db_open p \<and> (\<forall>q. proc_step (Caller c) p q \<longleftrightarrow> q = p\<lparr>p_fate := Panicked\<rparr>)"
proof -
  have ok: "proc_ok p" by (rule proc_steps_ok[OF assms(1) proc_ok_launch])
  then have "p_closer p = NoCloser" "p_shutdown p = 0" using assms(3) by (auto simp: proc_ok_def placed_def)
  then have z: "n_at p Await = 0" "n_at p CloseDB = 0" "n_at p CloseLog = 0" "n_at p Tell = 0" "p_quit_done p = 0"
    using ok assms(3) by (simp_all add: proc_ok_def ticket_def waits_def)
  moreover have "n_at p Return = 0" using ok z assms(2) by (simp add: proc_ok_def shut_def)
  ultimately have x: "x = Send" using n_at_pos[OF assms(4)] by (cases x) simp_all
  have "p_db_open p" using ok z assms(2) by (simp add: proc_ok_def shut_def)
  moreover have "quit_step c p q \<longleftrightarrow> q = p\<lparr>p_fate := Panicked\<rparr>" for q
    using assms(3,4) x by (auto intro: quit_step.nil elim: quit_step.cases)
  ultimately show ?thesis using x assms(2) by (simp add: proc_step_def)
qed

text \<open>
  C9: from \<open>main\<close> to the end of the process the database file goes through steps of the server only: what the process has done
  by any moment, shutdown and goroutines included, is a run of the step relation from the file it found to the file it leaves.
\<close>
theorem process_refines:
  assumes "start_main M E0 fl w = Serving R w'" "os_bolt_open M (c_Database (e_cfg (rn_env R))) = Inr b"
    and "sound b" "hash_ok E0" "clock_ok (w_clock w)" and "proc_steps n (launch (rn_env R) w') p"
  shows "\<exists>m\<le>Suc n. steps m (Down b) (server_of p)"
proof -
  obtain m where m: "m \<le> n" "steps m (server_of (launch (rn_env R) w')) (server_of p)"
    by (rule proc_steps_server[OF assms(6) proc_ok_launch])
  then have "steps m (Up (rn_env R) w') (server_of p)" by (simp add: server_of_def launch_def)
  from steps_trans[OF this steps_one] startup_step[OF assms(1-5)] have "steps (1 + m) (Down b) (server_of p)" by blast
  then show ?thesis using m(1) by (intro exI[of _ "1 + m"]) simp
qed

theorem clean_exit_witness:
  "p_fate demo_ended = ExitedWith 0 \<and> \<not> p_listening demo_ended \<and> \<not> p_db_open demo_ended"
  using clean_exit[OF proc_steps_trans[OF demo_shutdown(2,1)]] by (simp add: demo_ended_def)

theorem quit_ends_witness:
  "\<exists>r g. run r g \<and> fair r g \<and> r 0 = launch demo_env (demo_world demo_db) \<and> r 8 = demo_asked \<and> (\<exists>j\<ge>8. p_fate (r j) \<noteq> Alive)"
proof -
  have "p_fate demo_ended \<noteq> Alive" by (simp add: demo_ended_def)
  then obtain r1 g1 where "run r1 g1" "fair r1 g1" "r1 0 = demo_asked" using run_through[OF demo_shutdown(2)] run_dead by blast
  from run_through[OF demo_shutdown(1) this] obtain r g where r: "run r g" "fair r g" "r 0 = launch demo_env (demo_world demo_db)"
    "r 8 = demo_asked" using \<open>r1 0 = demo_asked\<close> by (metis add_0_right)
  have "p_call (r 8) OnPrompt = Quitting Send" using r(4) by (simp add: demo_asked_def)
  from quit_ends[OF r(1-3) this] r show ?thesis by blast
qed

theorem early_quit_witness:
  "\<exists>p. proc_steps 3 (launch demo_env (demo_world demo_db)) p \<and> proc_step (Caller OnPrompt) p (p\<lparr>p_fate := Panicked\<rparr>) \<and> p_db_open p"
proof -
  let ?p = "move OnPrompt (Quitting Send) demo_prompt"
  have "proc_step Outside demo_prompt ?p"
    using outside_step.quit[of demo_prompt] by (simp add: proc_step_def demo_prompt_def launch_def)
  then have s: "proc_steps 3 (launch demo_env (demo_world demo_db)) ?p" by (rule proc_steps_Suc[OF demo_prompt_steps]) simp
  have "p_fate ?p = Alive" "\<not> p_serv ?p" "p_call ?p OnPrompt = Quitting Send"
    by (simp_all add: demo_prompt_def launch_def)
  from early_quit[OF s this] s show ?thesis by blast
qed

theorem process_refines_witness:
  "\<exists>R w' p. start_main (demo_machine demo_cfg) demo_env demo_flags (demo_world empty_bucket) = Serving R w'
     \<and> proc_steps 1 (launch (rn_env R) w') p \<and> p_fate p = Killed \<and> (\<exists>m\<le>2. steps m (Down demo_db) (Down (w_db w')))"
proof -
  obtain R w' where R: "start_main (demo_machine demo_cfg) demo_env demo_flags (demo_world empty_bucket) = Serving R w'"
    by (rule demo_started)
  let ?p = "(launch (rn_env R) w')\<lparr>p_fate := Killed\<rparr>"
  have p: "proc_steps 1 (launch (rn_env R) w') ?p"
    by (rule proc_steps_Suc[OF proc_steps.none, where g = Outside]) (simp_all add: proc_step_def outside_step.killed, simp add: launch_def)
  have "os_bolt_open (demo_machine demo_cfg) f = Inr demo_db" for f by (simp add: demo_machine_def)
  from process_refines[OF R this _ _ _ p] have "\<exists>m\<le>Suc 1. steps m (Down demo_db) (server_of ?p)"
    using sound_schema[OF goodD(1)[OF demo_db]] by simp
  moreover have "server_of ?p = Down (w_db w')" by (simp add: server_of_def launch_def)
  ultimately show ?thesis using R p by (intro exI[of _ R] exI[of _ w'] exI[of _ ?p]) (simp add: numeral_2_eq_2)
qed

end
