(* ===== verification/Connection.thy ===== *)
theory Connection imports Handler begin

text \<open>
  One connection of the vendored Gemini server (the goroutine of \<open>Server.Run\<close> in \<open>gemini.go\<close>): the request line is
  read with \<open>fmt.Fscanln\<close> through an \<open>io.LimitedReader\<close>, parsed by \<open>net/url\<close> (a parameter), normalised and
  given to the handler, and the bytes of its response are written.
\<close>

section \<open>Reading the line\<close>

text \<open>What a reader of runes has taken from its input after one rune: a broken sequence is read up to the byte that breaks it.\<close>

fun reads_on :: "(char \<Rightarrow> bool) list \<Rightarrow> bytes \<Rightarrow> nat" where
  "reads_on (p # ps) (c # cs) = (if p c then Suc (reads_on ps cs) else 1)"
| "reads_on ps cs = 0"

definition rune_reads :: "bytes \<Rightarrow> nat" where
  "rune_reads s =
     (case s of [] \<Rightarrow> 0
      | c0 # cs \<Rightarrow>
          (let b0 = byte c0; any = in_range 0x80 0xBF;
               first = in_range (if b0 = 0xE0 then 0xA0 else if b0 = 0xF0 then 0x90 else 0x80)
                                (if b0 = 0xED then 0x9F else if b0 = 0xF4 then 0x8F else 0xBF)
           in Suc (if b0 < 0xC2 then 0
                   else if b0 < 0xE0 then reads_on [first] cs
                   else if b0 < 0xF0 then reads_on [first, any] cs
                   else if b0 < 0xF5 then reads_on [first, any, any] cs
                   else 0)))"

text \<open>The three ways a scan stops, each with what is left unread.\<close>

datatype scan_stop = AtNewline | AtEnd | AtRune

lemma length_decoded: "s \<noteq> [] \<Longrightarrow> decode_rune s = (r, n) \<Longrightarrow> 0 < n \<and> n \<le> length s"
  using decode_rune_width[of s] decode_rune_fits[of s] by simp

function scan_spaces :: "bytes \<Rightarrow> scan_stop \<times> bytes" where
  "scan_spaces s =
     (if s = [] then (AtEnd, [])
      else (let (r, n) = decode_rune s in
        if r = 10 then (AtNewline, drop n s)
        else if is_space r then scan_spaces (drop n s)
        else (AtRune, s)))"
  by pat_completeness auto
termination
proof (relation "measure length", goal_cases)
  case (2 s x r n)
  then show ?case using length_decoded[of s r n] by simp
qed simp

text \<open>A word, written rune by rune: a byte that is not UTF-8 becomes U+FFFD.\<close>

definition rune_bytes :: "nat \<Rightarrow> bytes \<Rightarrow> bytes" where
  "rune_bytes r s = (if r = RuneError then [CHR 0xEF, CHR 0xBF, CHR 0xBD] else s)"

function scan_word :: "bytes \<Rightarrow> bytes \<times> bytes" where
  "scan_word s =
     (if s = [] then ([], [])
      else (let (r, n) = decode_rune s in
        if is_space r then ([], s)
        else (case scan_word (drop n s) of (t, rest) \<Rightarrow> (rune_bytes r (take n s) @ t, rest))))"
  by pat_completeness auto
termination
proof (relation "measure length", goal_cases)
  case (2 s x r n)
  then show ?case using length_decoded[of s r n] by simp
qed simp

declare scan_spaces.simps [simp del] scan_word.simps [simp del]

text \<open>
  \<open>fmt.Fscanln(r, &path)\<close> on the first \<open>n\<close> bytes of what the client sends, which ends in a closed
  connection or in the read deadline: the line, if there is one, and what the limit has left.
\<close>

definition fscanln :: "nat \<Rightarrow> bool \<Rightarrow> bytes \<Rightarrow> bytes option \<times> nat" where
  "fscanln n gone s =
     (let a = take n s; eof = (gone \<or> n \<le> length s);
          res = (case scan_spaces a of
             (AtRune, r) \<Rightarrow>
               (case scan_word r of (t, r1) \<Rightarrow>
                 (case scan_spaces r1 of
                    (AtNewline, r2) \<Rightarrow> (Some t, r2)
                  | (AtEnd, r2) \<Rightarrow> (if eof then Some t else None, r2)
                  | (AtRune, r2) \<Rightarrow> (None, drop (rune_reads r2) r2)))
           | (_, r) \<Rightarrow> (None, r))
      in (fst res, n - (length a - length (snd res))))"

section \<open>Answering\<close>

definition ReadLimit :: nat where "ReadLimit = 1024"

definition normalizeURI :: "url \<Rightarrow> url" where
  "normalizeURI u = u\<lparr>u_path := normalize_path (u_path u)\<rparr>"

definition serve_conn :: "(bytes \<Rightarrow> url option) \<Rightarrow> env \<Rightarrow> conn \<Rightarrow> bool \<Rightarrow> bytes \<Rightarrow> bytes go" where
  "serve_conn parse E c gone input =
     (case fscanln (ReadLimit + 3) gone input of (line, left) \<Rightarrow>
        if left = 0 then go_ret (fmt_d (status_code BadRequest) @ '' Request too long'' @ crlf)
        else (case line of
                None \<Rightarrow> go_ret []
              | Some path \<Rightarrow>
                  (case parse path of
                     None \<Rightarrow> go_ret (fmt_d 50 @ '' improper request'')
                   | Some u \<Rightarrow> go_bind (handler E (normalizeURI u) c) (\<lambda>r. go_ret (response_bytes r)))))"

section \<open>How long a request can be\<close>

lemma length_scan_spaces: "length (snd (scan_spaces s)) \<le> length s"
proof (induction s rule: scan_spaces.induct)
  case (1 s)
  obtain r n where d: "decode_rune s = (r, n)" by fastforce
  then show ?case using 1 d by (subst scan_spaces.simps) (fastforce intro: le_trans)
qed

lemma length_scan_word: "length (fst (scan_word s)) + 3 * length (snd (scan_word s)) \<le> 3 * length s"
proof (induction s rule: scan_word.induct)
  case (1 s)
  obtain r n where d: "decode_rune s = (r, n)" by fastforce
  show ?case
  proof (cases "s = [] \<or> is_space r")
    case False
    then have n: "0 < n" "n \<le> length s" using length_decoded[OF _ d] by auto
    obtain t rest where t: "scan_word (drop n s) = (t, rest)" by fastforce
    have "length t + 3 * length rest \<le> 3 * length (drop n s)" using 1[OF _ d[symmetric] refl] False t by simp
    moreover have "length (rune_bytes r (take n s)) \<le> 3 * n" using n by (simp add: rune_bytes_def)
    ultimately show ?thesis using False d t n by (subst (1 2) scan_word.simps) simp
  qed (subst (1 2) scan_word.simps, auto simp: d)
qed

lemma length_line:
  assumes "fscanln n gone s = (Some t, m)"
  shows "length t \<le> 3 * n"
proof -
  obtain x r where r: "scan_spaces (take n s) = (x, r)" by fastforce
  obtain t' r1 where w: "scan_word r = (t', r1)" by fastforce
  have "t = t'" using assms r w by (auto simp: fscanln_def Let_def split: scan_stop.splits prod.splits if_splits)
  then show ?thesis using length_scan_spaces[of "take n s"] length_scan_word[of r] r w by simp
qed

end
