(* ===== verification/Wire.thy ===== *)
theory Wire imports Demo Connection begin

text \<open>
  What goes over the wire: every response is one well-formed header line, with lines after it only on success,
  and the client is asked for input only when it has sent none; every connection is answered, and how long a request can be.
\<close>

section \<open>Texts without line breaks\<close>

definition plain :: "bytes \<Rightarrow> bool" where
  "plain s \<longleftrightarrow> CHR 0x0A \<notin> set s \<and> CHR 0x0D \<notin> set s"

lemma plain_append [simp]: "plain (s @ t) \<longleftrightarrow> plain s \<and> plain t"
  by (auto simp: plain_def)

lemma plain_Cons [simp]: "plain (c # s) \<longleftrightarrow> c \<noteq> CHR 0x0A \<and> c \<noteq> CHR 0x0D \<and> plain s"
  by (auto simp: plain_def)

lemma plain_Nil [simp]: "plain []"
  by (simp add: plain_def)

lemma plain_sub: "set t \<subseteq> set s \<Longrightarrow> plain s \<Longrightarrow> plain t"
  by (auto simp: plain_def)

lemma set_fields_acc: "p \<in> set (fields_acc sep cur s) \<Longrightarrow> set p \<subseteq> set cur \<union> set s"
proof (induction sep cur s rule: fields_acc.induct)
  case (1 sep cur s)
  obtain r n where d: "decode_rune s = (r, n)" by fastforce
  have sub: "set (take n s) \<subseteq> set s" "set (drop n s) \<subseteq> set s" by (simp_all add: set_take_subset set_drop_subset)
  note m = 1(3)[unfolded fields_acc.simps[of sep cur s]]
  show ?case
  proof (cases "s = []")
    case True
    then show ?thesis using m by (auto split: if_splits)
  next
    case False
    then show ?thesis
    proof (cases "sep r")
      case True
      then show ?thesis using m False d sub 1(1)[OF False d[symmetric] refl True] by (auto split: if_splits)
    next
      case no: False
      then show ?thesis using m False d sub 1(2)[OF False d[symmetric] refl no] by auto
    qed
  qed
qed

lemma plain_part: "plain s \<Longrightarrow> p \<in> set (path_parts s) \<Longrightarrow> plain p"
  using set_fields_acc[of p _ "[]" s] by (auto simp: path_parts_def fields_func_def intro: plain_sub)

lemma plain_join: "plain sep \<Longrightarrow> (\<And>p. p \<in> set ps \<Longrightarrow> plain p) \<Longrightarrow> plain (join sep ps)"
  by (induction sep ps rule: join.induct) auto

lemma plain_digit: "k < 16 \<Longrightarrow> plain [digit_char k]"
proof -
  have "k < 16 \<Longrightarrow> digit_char k \<in> set ''0123456789abcdef''" unfolding digit_char_def by (intro nth_mem) simp
  then show "k < 16 \<Longrightarrow> plain [digit_char k]" by auto
qed

lemma plain_base: "2 \<le> b \<Longrightarrow> b \<le> 16 \<Longrightarrow> plain (fmt_base b n)"
proof (induction b n rule: fmt_base.induct)
  case (1 b n)
  have d: "k < b \<Longrightarrow> plain [digit_char k]" for k using 1(3) by (intro plain_digit) simp
  show ?case
  proof (cases "n < b")
    case True
    then show ?thesis using d 1(2) by (simp add: fmt_base.simps[of b n] del: plain_Cons)
  next
    case False
    then have "plain (fmt_base b (n div b))" "n mod b < b" using 1 by auto
    then show ?thesis using d False 1(2) by (simp add: fmt_base.simps[of b n] del: plain_Cons)
  qed
qed

lemma plain_fmt [simp]: "plain (fmt_d n)" "plain (fmt_int i)" "plain (fmt_hex_pad k n)"
  using plain_base by (auto simp: fmt_d_def fmt_int_def fmt_hex_pad_def pad_zero_def plain_def)

section \<open>Errors\<close>

definition plain_err :: "err \<Rightarrow> bool" where
  "plain_err e \<longleftrightarrow> plain (err_msg e)"

lemma plain_quote [simp]: "plain (quote s)"
proof -
  have q: "plain (quote_byte c)" for c
  proof -
    have "c = CHR 0x0A \<or> c = CHR 0x0D \<Longrightarrow> \<not> 32 \<le> byte c" by (auto simp: byte_def)
    then show ?thesis by (auto simp: quote_byte_def)
  qed
  have "plain (concat (map quote_byte s))" by (induction s) (simp_all add: q)
  then show ?thesis by (simp add: quote_def)
qed

lemma plain_err_own [simp]:
  "plain_err (EscapeError s)" "plain_err ErrBucketNameRequired" "plain_err ErrBucketExists" "plain_err ErrIncompatibleValue"
  "plain_err ErrKeyRequired" "plain_err ErrKeyTooLarge" "plain_err ErrValueTooLarge" "plain_err ErrThreadIsLocked"
  "plain_err TitleTooLong" "plain_err TitleEmptyNotAllowed" "plain_err TitleIllegalCharacter" "plain_err SubforumNotFound"
  "plain_err ErrNotFound" "plain_err ThreadNotFound" "plain_err UserNotFound" "plain_err ErrUserAlreadyExists"
  "plain_err ErrPasswordTooShort" "plain_err ErrUsernameTooLong" "plain_err ErrUsernameTooShort" "plain_err ErrUnallowedChar"
  "plain_err ShouldPostNudge" "plain_err AlreadyReported" "plain_err ReportRateLimited" "plain_err SearchUsernameNotFound"
  "plain_err ErrUserNotFound" "plain_err (ErrNew s) = plain s" "plain_err (ErrExternal s) = plain s"
  by (simp_all add: plain_err_def)

lemma unescape_plain: "query_unescape s = Inl e \<Longrightarrow> plain_err e" "path_unescape s = Inl e \<Longrightarrow> plain_err e"
proof -
  have u: "unescape q s = Inl e \<Longrightarrow> plain_err e" for q
  proof (induction s rule: length_induct)
    case (1 s)
    show ?case
    proof (cases s)
      case (Cons c s')
      show ?thesis
      proof (cases "c = CHR ''%''")
        case False
        then have "unescape q s' = Inl e" using 1(2) Cons by (simp split: sum.splits)
        then show ?thesis using 1(1)[rule_format, of s'] Cons by simp
      next
        case True
        obtain x where x: "x = EscapeError (take 3 (c # s'))" by blast
        consider "e = x" | a b r where "s' = a # b # r" "unescape q r = Inl e"
          using 1(2) Cons True x by (simp split: list.splits option.splits sum.splits)
        then show ?thesis
        proof cases
          case (2 a b r)
          then show ?thesis using 1(1)[rule_format, of r] Cons by simp
        qed (simp add: x)
      qed
    qed (use 1(2) in simp)
  qed
  show "query_unescape s = Inl e \<Longrightarrow> plain_err e" "path_unescape s = Inl e \<Longrightarrow> plain_err e"
    by (simp_all add: query_unescape_def path_unescape_def u)
qed

text \<open>The packages that are not modelled report their errors on one line, the mail server does.\<close>

definition plain_env :: "env \<Rightarrow> bool" where
  "plain_env E \<longleftrightarrow> (\<forall>s p e. e_hash E s p = Inl e \<longrightarrow> plain_err e) \<and> (\<forall>s e. e_search E s = Inl e \<longrightarrow> plain_err e)
     \<and> (\<forall>s e. e_lookup_addr E s = Inl e \<longrightarrow> plain_err e) \<and> (\<forall>s e. e_read_file E s = Inl e \<longrightarrow> plain_err e)
     \<and> (\<forall>s. plain (e_parse_error E s))"

definition mails_ok :: "world \<Rightarrow> bool" where
  "mails_ok w \<longleftrightarrow> (\<forall>n e. w_smtp w n = Some e \<longrightarrow> plain_err e)"

text \<open>\<open>yields P m\<close>: what \<open>m\<close> returns has \<open>P\<close>, and the errors it returns are one line.\<close>

definition yields :: "('a \<Rightarrow> bool) \<Rightarrow> 'a go \<Rightarrow> bool" where
  "yields P m \<longleftrightarrow> (\<forall>w. mails_ok w \<longrightarrow> mails_ok (snd (m w)) \<and>
     (case fst (m w) of Ok a \<Rightarrow> P a | Fail e \<Rightarrow> plain_err e | Panic \<Rightarrow> True))"

abbreviation yields_any :: "'a go \<Rightarrow> bool" where
  "yields_any \<equiv> yields (\<lambda>_. True)"

abbreviation yields_res :: "(err + 'a) go \<Rightarrow> bool" where
  "yields_res \<equiv> yields (\<lambda>r. \<forall>e. r = Inl e \<longrightarrow> plain_err e)"

abbreviation yields_err :: "err option go \<Rightarrow> bool" where
  "yields_err \<equiv> yields (\<lambda>r. \<forall>e. r = Some e \<longrightarrow> plain_err e)"

lemma yields_bind:
  assumes "yields Q m" "\<And>a. Q a \<Longrightarrow> yields P (f a)"
  shows "yields P (go_bind m f)"
  unfolding yields_def
proof (intro allI impI)
  fix w assume w: "mails_ok w"
  obtain r w' where r: "m w = (r, w')" by fastforce
  have "mails_ok w'" "case r of Ok a \<Rightarrow> Q a | Fail e \<Rightarrow> plain_err e | Panic \<Rightarrow> True"
    using assms(1) w r unfolding yields_def by (metis fst_conv snd_conv)+
  then show "mails_ok (snd (go_bind m f w)) \<and> (case fst (go_bind m f w) of Ok a \<Rightarrow> P a | Fail e \<Rightarrow> plain_err e | Panic \<Rightarrow> True)"
    using assms(2) r by (cases r) (auto simp: go_bind_def yields_def)
qed

lemma mails_ok_upd [simp]:
  "mails_ok (w\<lparr>w_db := b\<rparr>) = mails_ok w" "mails_ok (w\<lparr>w_kw := q\<rparr>) = mails_ok w" "mails_ok (w\<lparr>w_limits := l\<rparr>) = mails_ok w"
  "mails_ok (w\<lparr>w_sent := m\<rparr>) = mails_ok w" "mails_ok (w\<lparr>w_clock := c\<rparr>) = mails_ok w" "mails_ok (w\<lparr>w_rand := r\<rparr>) = mails_ok w"
  "mails_ok (w\<lparr>w_salt := s\<rparr>) = mails_ok w"
  by (simp_all add: mails_ok_def)

lemma yields_base [intro, simp]:
  "P a \<Longrightarrow> yields P (go_ret a)" "plain_err e \<Longrightarrow> yields P (go_fail e)" "yields P go_panic"
  "yields_any time_now" "yields_any rand_uint64" "yields_any read_salt" "yields_any (tx_bucket h k)" "yields_any (tx_get h k)"
  "yields_any (tx_cursor h)" "yields_any (sendPostToKeywordDB a' b c d)"
  by (simp_all add: yields_def go_ret_def go_fail_def go_panic_def time_now_def rand_uint64_def read_salt_def tx_bucket_def
      tx_get_def tx_cursor_def sendPostToKeywordDB_def split: option.split)

lemma yields_weaken: "yields Q m \<Longrightarrow> (\<And>a. Q a \<Longrightarrow> P a) \<Longrightarrow> yields P m"
  unfolding yields_def by (fastforce split: res.splits)

lemma yields_then: "yields_any m \<Longrightarrow> (\<And>a. yields P (f a)) \<Longrightarrow> yields P (go_bind m f)"
  by (rule yields_bind)

lemma yields_res_bind:
  "yields_res m \<Longrightarrow> (\<And>e. plain_err e \<Longrightarrow> yields P (g e)) \<Longrightarrow> (\<And>a. yields P (h a)) \<Longrightarrow>
   yields P (go_bind m (\<lambda>r. case r of Inl e \<Rightarrow> g e | Inr a \<Rightarrow> h a))"
  by (erule yields_bind) (auto split: sum.split)

lemma yields_err_bind:
  "yields_err m \<Longrightarrow> (\<And>e. plain_err e \<Longrightarrow> yields P (g e)) \<Longrightarrow> yields P h \<Longrightarrow>
   yields P (go_bind m (\<lambda>r. case r of Some e \<Rightarrow> g e | None \<Rightarrow> h))"
  by (erule yields_bind) (auto split: option.split)

lemma yields_cases:
  "(\<And>a. x = Some a \<Longrightarrow> yields P (f a)) \<Longrightarrow> yields P m \<Longrightarrow> yields P (case x of None \<Rightarrow> m | Some a \<Rightarrow> f a)"
  "(\<And>e. y = Inl e \<Longrightarrow> yields P (g e)) \<Longrightarrow> (\<And>a. yields P (h a)) \<Longrightarrow> yields P (case y of Inl e \<Rightarrow> g e | Inr a \<Rightarrow> h a)"
  "(\<And>a b. yields P (j a b)) \<Longrightarrow> yields P (case z of (a, b) \<Rightarrow> j a b)"
  "(c \<Longrightarrow> yields P m) \<Longrightarrow> (\<not> c \<Longrightarrow> yields P n) \<Longrightarrow> yields P (if c then m else n)"
  "yields P (k v) \<Longrightarrow> yields P (Let v k)"
  by (simp_all split: option.split sum.split prod.split)

lemma yields_db: "yields_any m \<Longrightarrow> yields_res (db_update m)" "yields_any m \<Longrightarrow> yields_res (db_view m)"
proof -
  assume y: "yields_any m"
  have "mails_ok (snd (f w)) \<and> (case fst (f w) of Ok a \<Rightarrow> (\<forall>e. a = Inl e \<longrightarrow> plain_err e) | Fail e \<Rightarrow> plain_err e | Panic \<Rightarrow> True)"
    if "mails_ok w" "f = db_update m \<or> f = db_view m" for f w
  proof -
    obtain r w' where r: "m w = (r, w')" by fastforce
    have "mails_ok w'" "case r of Ok a \<Rightarrow> True | Fail e \<Rightarrow> plain_err e | Panic \<Rightarrow> True"
      using y that(1) r unfolding yields_def by (metis fst_conv snd_conv)+
    then show ?thesis using that(2) r by (cases r) (auto simp: db_update_def db_view_def mails_ok_def)
  qed
  then show "yields_res (db_update m)" "yields_res (db_view m)" unfolding yields_def by blast+
qed

lemma yields_deref: "yields_any (deref x)"
  by (simp add: deref_def split: option.split)

lemma yields_tx [intro, simp]:
  "yields_err (tx_put h k v)" "yields_err (tx_delete h k)" "yields_res (tx_create_bucket h k)"
  "yields_res (tx_create_bucket_if_not_exists h k)" "yields_res (tx_next_sequence h)" "yields_any (deref x)" "yields_any (tx_must h k)"
proof -
  have ap: "yields_err (tx_apply h f)" if "\<And>c e. f c = Inl e \<Longrightarrow> plain_err e" for f
    using that by (auto simp: yields_def tx_apply_def mails_ok_def split: option.split sum.split)
  show p: "yields_err (tx_put h k v)" unfolding tx_put_def by (rule ap) (auto simp: b_put_def split: if_splits)
  show "yields_err (tx_delete h k)" unfolding tx_delete_def
    by (rule ap) (auto simp: b_delete_def split: if_splits option.splits bnode.splits)
  have "yields_err (tx_apply h (b_create_bucket k))"
    by (rule ap) (auto simp: b_create_bucket_def split: if_splits option.splits bnode.splits)
  then show c: "yields_res (tx_create_bucket h k)" unfolding tx_create_bucket_def
    by (rule yields_bind) (auto split: option.split)
  show "yields_res (tx_create_bucket_if_not_exists h k)" unfolding tx_create_bucket_if_not_exists_def
    by (rule yields_bind[OF c]) auto
  show "yields_res (tx_next_sequence h)"
    by (auto simp: yields_def tx_next_sequence_def mails_ok_def split: option.split prod.split)
  show "yields_any (deref x)" "yields_any (tx_must h k)" by (simp_all add: yields_deref tx_must_def yields_then)
qed

lemma yields_wrap [intro]:
  "yields_err m \<Longrightarrow> yields_any (return_err m)" "yields_res n \<Longrightarrow> yields_any (go_try n)" "yields_err m \<Longrightarrow> yields_any (ignore_err m)"
  "plain_err e \<Longrightarrow> yields_any (or_fail x e)" "plain_err e \<Longrightarrow> yields_any (guard_err b e)"
  "(\<And>e. r = Inl e \<Longrightarrow> plain_err e) \<Longrightarrow> yields_any (lift_err r)"
proof -
  show "yields_err m \<Longrightarrow> yields_any (return_err m)" unfolding return_err_def by (erule yields_bind) (auto split: option.split)
  show "yields_res n \<Longrightarrow> yields_any (go_try n)" unfolding go_try_def by (erule yields_bind) (auto split: sum.split)
  show "yields_err m \<Longrightarrow> yields_any (ignore_err m)" unfolding ignore_err_def by (erule yields_bind) auto
  show "plain_err e \<Longrightarrow> yields_any (or_fail x e)" by (simp add: or_fail_def split: option.split)
  show "plain_err e \<Longrightarrow> yields_any (guard_err b e)" by (simp add: guard_err_def)
  show "(\<And>e. r = Inl e \<Longrightarrow> plain_err e) \<Longrightarrow> yields_any (lift_err r)" by (auto simp: lift_err_def split: sum.split)
qed

lemma yields_put_fields [intro, simp]: "yields_any (put_fields h kvs)"
  by (induction h kvs rule: put_fields.induct) (simp_all add: put_fields.simps yields_then yields_wrap(3))

lemma yields_map_go [intro]: "(\<And>x. yields_any (f x)) \<Longrightarrow> yields_any (map_go f xs)"
  by (induction xs) (auto intro!: yields_then)

lemma marshal_plain [simp]: "marshal_text t = Inl e \<Longrightarrow> plain_err e"
  by (auto simp: marshal_text_def split: if_splits)

lemma yields_marshal [intro, simp]: "yields_any (lift_err (marshal_text t))"
  by (rule yields_wrap(6)) (auto simp: marshal_text_def split: if_splits)

lemma yields_unmarshal [intro, simp]: "plain_env E \<Longrightarrow> yields_any (unmarshal_time E v)"
  by (auto simp: unmarshal_time_def plain_env_def split: option.split)

section \<open>The transactions\<close>

lemmas yields_rules = yields_then yields_cases yields_wrap yields_map_go

lemma yields_posting [intro, simp]:
  "yields_any (new_post_tx u t x p)" "yields_any (new_thread_tx s u t x)" "yields_any (subforum_of_view i)"
  "yields_any (nudge_view u)" "yields_any (nudge_tx u)"
proof -
  have a: "yields_any (AddNewPostToDatabase a b c d h)" for a b c d h
    unfolding AddNewPostToDatabase_def Let_def by (intro yields_rules; simp)
  show "yields_any (new_post_tx u t x p)" unfolding new_post_tx_def by (intro yields_then yields_wrap(3,4,5) yields_marshal a yields_tx yields_base; simp)
  have o: "yields_any (open_thread a b)" for a b unfolding open_thread_def Let_def by (intro yields_rules; simp)
  have l: "yields_any (link_thread a b)" for a b unfolding link_thread_def Let_def by (intro yields_rules; simp)
  show "yields_any (new_thread_tx s u t x)" unfolding new_thread_tx_def by (intro yields_rules a o l; simp)
  show "yields_any (subforum_of_view i)" unfolding subforum_of_view_def by (intro yields_rules; simp)
  show "yields_any (nudge_view u)" "yields_any (nudge_tx u)" unfolding nudge_view_def nudge_tx_def by (intro yields_rules; simp)+
qed

lemma yields_accounts [intro, simp]:
  "yields_any (register_tx E u em h v)" "yields_any (verify_tx c)" "yields_any (logout_tx fp)" "yields_any (login_tx fp u)"
  "yields_any (login_view u)" "yields_any (user_found_view u)" "yields_any (name_taken_view E u)"
  unfolding register_tx_def verify_tx_def logout_tx_def login_tx_def login_view_def user_found_view_def name_taken_view_def
  by (intro yields_rules; simp)+

lemma yields_reading [intro, simp]:
  assumes "plain_env E"
  shows "yields_any (subforum_view E s)" "yields_any (thread_view E i)" "yields_any (search_user_view u)"
    "yields_any (keyword_view ids)" "yields_any (report_tx E i)"
proof -
  note y = yields_unmarshal[OF assms]
  show "yields_any (subforum_view E s)" unfolding subforum_view_def read_thread_def by (intro yields_rules y; simp)
  show "yields_any (thread_view E i)" unfolding thread_view_def read_post_def by (intro yields_rules y; simp)
  show "yields_any (search_user_view u)" unfolding search_user_view_def search_thread_def search_post_def
    by (intro yields_rules; simp)
  show "yields_any (keyword_view ids)" unfolding keyword_view_def keyword_result_def by (intro yields_rules; simp)
  show "yields_any (report_tx E i)" unfolding report_tx_def by (intro yields_rules y; simp)
qed

section \<open>The handlers\<close>

text \<open>A response that is one header line of a plain text; with lines after it only on success.\<close>

fun proper :: "url \<Rightarrow> response \<Rightarrow> bool" where
  "proper q (ResponseFormat st m ls) \<longleftrightarrow> plain m \<and> (ls \<noteq> [] \<longrightarrow> st = Success) \<and> (st \<in> {Input, SensitiveInput} \<longrightarrow> u_query q = [])"
| "proper q (ResponsePlain b) \<longleftrightarrow> (\<exists>t. b = ''20 text/plain'' @ crlf @ t)"

lemma proper_Response [simp]: "proper q (Response st m) \<longleftrightarrow> plain m \<and> (st \<in> {Input, SensitiveInput} \<longrightarrow> u_query q = [])"
  by (simp add: Response_def)

lemma proper_Error [simp]: "proper q (ErrorResponse st e) \<longleftrightarrow> plain_err e \<and> (st \<in> {Input, SensitiveInput} \<longrightarrow> u_query q = [])"
  by (simp add: ErrorResponse_def plain_err_def)

lemma proper_own [simp]: "proper q CertRequired" "proper q UnauthorizedCert" "proper q CurrentlyMutedResponse" "proper q BadUserInput"
  "proper q NotFound" "proper q InternalError" "proper q (PostNudgeHandler q' c)" "proper q (slow_down s)"
  by (simp_all add: CertRequired_def UnauthorizedCert_def CurrentlyMutedResponse_def BadUserInput_def NotFound_def InternalError_def
      PostNudgeHandler_def slow_down_def)

definition plain_url :: "url \<Rightarrow> bool" where
  "plain_url q \<longleftrightarrow> plain (u_path q) \<and> plain (u_query q)"

lemma plain_url_simps [simp]:
  assumes "plain_url q"
  shows "plain (u_path q)" "plain (u_query q)" "plain (join ''/'' (path_parts (u_path q)))"
    "i < length (path_parts (u_path q)) \<Longrightarrow> plain (path_parts (u_path q) ! i)"
  using assms plain_part[of "u_path q"] by (auto simp: plain_url_def intro: plain_join)

lemma yields_session [intro, simp]: "yields_any (GetUsernameFromFP E fp)"
proof -
  have m: "yields_any (IsUserCurrentlyMuted v)" for v unfolding IsUserCurrentlyMuted_def Let_def by (intro yields_rules; simp)
  show ?thesis unfolding GetUsernameFromFP_def
    by (rule yields_res_bind; (intro yields_db yields_rules m; simp)?) simp_all
qed

lemma yields_mail [intro, simp]: "yields_err (sendEmail E em)" "yields_err (SendEmailOnRegistration E u a v)"
proof -
  have d: "yields_err (smtp_deliver m)" for m by (auto simp: yields_def smtp_deliver_def mails_ok_def)
  show s: "yields_err (sendEmail E em)" for em unfolding sendEmail_def Let_def by (auto intro!: yields_cases d)
  show "yields_err (SendEmailOnRegistration E u a v)" unfolding SendEmailOnRegistration_def by (auto intro: s)
qed

lemma yields_validate [intro, simp]: "yields_err (validateUsername E u)"
  unfolding validateUsername_def Let_def
  by (intro yields_cases yields_base; (intro yields_res_bind yields_db)?) simp_all

lemma yields_OnRegister: "plain_env E \<Longrightarrow> yields_err (OnRegister E u em p)"
  unfolding OnRegister_def Let_def
  by (intro yields_then yields_cases(2) yields_res_bind yields_db) (auto simp: plain_env_def)

lemma yields_Register:
  assumes "plain_env E" "plain_url q"
  shows "yields (proper q) (RegisterUserHandler E q c)"
  unfolding RegisterUserHandler_def Let_def
  by (intro yields_cases yields_err_bind yields_OnRegister yields_validate yields_base)
     (use assms unescape_plain in \<open>auto simp: validatePassword_def split: if_splits\<close>)

lemma yields_accounts_handlers:
  assumes "plain_url q"
  shows "yields (proper q) (VerifyUserHandler E q c)" "yields (proper q) (LogoutUserHandler E q c)" "yields (proper q) (LoginUserHandler E q c)"
proof -
  note u = unescape_plain
  show "yields (proper q) (VerifyUserHandler E q c)" unfolding VerifyUserHandler_def Let_def
    by (intro yields_cases(4) yields_res_bind yields_db) auto
  show "yields (proper q) (LogoutUserHandler E q c)" unfolding LogoutUserHandler_def
    by (intro yields_cases(1) yields_res_bind yields_db) auto
  show "yields (proper q) (LoginUserHandler E q c)" unfolding LoginUserHandler_def Let_def
    by (intro yields_cases yields_res_bind yields_db yields_base) (use assms u in \<open>auto split: if_splits\<close>)
qed

lemma yields_nudged:
  assumes "yields (proper q) m"
  shows "yields (proper q) (with_nudge u q c m)"
proof -
  have n: "yields_res (CheckForPostNudge u)" "yields_any (UpdateForPostNudge u)"
    unfolding CheckForPostNudge_def UpdateForPostNudge_def by (auto intro: yields_db yields_weaken)
  show ?thesis unfolding with_nudge_def
    by (intro yields_res_bind yields_cases(4) yields_then n assms) auto
qed

lemma yields_posting_handlers:
  assumes "plain_url q"
  shows "yields (proper q) (NewPostHandler E q c)" "yields (proper q) (CreateThreadHandler E q c)"
proof -
  have p: "yields (proper q) (OnNewPost u t x p)" if "plain t" for u t x p
    unfolding OnNewPost_def by (intro yields_res_bind yields_db) (use that in auto)
  have t: "yields (proper q) (OnNewThread E s u t x)" if "plain s" for s u t x
    unfolding OnNewThread_def Let_def
    by (intro yields_cases(1) yields_res_bind yields_db) (use that in \<open>auto simp: ValidateThreadTitle_def Let_def split: if_splits\<close>)
  have g: "GetSubforumPrivFromID cfg i = Inl e \<Longrightarrow> plain_err e" for cfg i e
    by (auto simp: GetSubforumPrivFromID_def dest!: subforum_priv_error)
  show "yields (proper q) (NewPostHandler E q c)" unfolding NewPostHandler_def Let_def
    by (intro yields_cases yields_then yields_res_bind yields_db yields_nudged yields_base p)
       (use assms g unescape_plain in \<open>auto\<close>)
  show "yields (proper q) (CreateThreadHandler E q c)" unfolding CreateThreadHandler_def Let_def
    by (intro yields_cases yields_then yields_nudged yields_base t)
       (use assms g unescape_plain in \<open>auto\<close>)
qed

lemma yields_reading_handlers:
  assumes "plain_url q" "plain_env E"
  shows "yields (proper q) (RootHandler E c)" "yields (proper q) (SubforumIndexHandler E (RootHandler E c) q c)"
    "yields (proper q) (ThreadViewHandler E q c)" "yields (proper q) (SearchHandler E q c)"
proof -
  show r: "yields (proper q) (RootHandler E c)" unfolding RootHandler_def by (intro yields_then yields_cases) auto
  have s: "yields_any (time_since t)" for t unfolding time_since_def by (intro yields_then) auto
  have tl: "yields_any (thread_line t)" for t unfolding thread_line_def TimeFormatForThread_def
    by (intro yields_then yields_cases s) auto
  have pl: "yields_any (post_lines E x)" for x unfolding post_lines_def TimeFormatForPost_def
    by (intro yields_then yields_cases s) auto
  have v: "yields_any (viewer_priv E c)" unfolding viewer_priv_def by (intro yields_then yields_cases) auto
  have g: "yields_res (GetThreadsForSubforum E i)" for i unfolding GetThreadsForSubforum_def
    by (intro yields_res_bind yields_db yields_reading assms(2)) auto
  show "yields (proper q) (SubforumIndexHandler E (RootHandler E c) q c)" unfolding SubforumIndexHandler_def Let_def
    by (intro yields_cases yields_res_bind yields_then yields_map_go g r tl yields_base) auto
  show "yields (proper q) (ThreadViewHandler E q c)" unfolding ThreadViewHandler_def Let_def
    by (intro yields_then v yields_cases yields_res_bind yields_db yields_reading yields_map_go pl yields_base) (use assms(2) in auto)
  show "yields (proper q) (SearchHandler E q c)" unfolding SearchHandler_def SearchUser_def DoKeywordSearch_def
    by (intro yields_cases yields_res_bind yields_db yields_reading yields_base)
       (use assms unescape_plain in \<open>auto simp: plain_env_def\<close>)
qed

text \<open>The result of a command: its text is one line unless it is shown as a text file.\<close>

definition shown :: "bytes \<times> status \<Rightarrow> bool" where
  "shown a \<longleftrightarrow> (snd a \<noteq> Success \<longrightarrow> plain (fst a)) \<and> snd a \<noteq> Input \<and> snd a \<noteq> SensitiveInput"

lemma yields_console_tx:
  "yields_any (lock_tx i s)" "yields_any (mute_tx u p)" "yields_any (unmute_tx u)" "yields_any (read_view b n k)"
  "yields_any (log_tx u' p' x)"
  unfolding lock_tx_def mute_tx_def unmute_tx_def read_view_def log_tx_def
  by (intro yields_rules; simp)+

lemma yields_switch:
  assumes "plain_env E"
  shows "yields shown (console_switch E fs)"
proof -
  have rep: "yields shown (reply m s d)" if "yields_res m" "s \<notin> {Input, SensitiveInput}" for m s d
    unfolding reply_def by (intro yields_res_bind that(1)) (use that(2) in \<open>auto simp: plain_err_def shown_def\<close>)
  show ?thesis
    unfolding console_switch_def MuteOrUnmuteThread_def Let_def
    by (intro yields_cases(2,4) rep yields_res_bind yields_db yields_console_tx yields_base) (use assms in \<open>auto simp: plain_env_def plain_err_def shown_def\<close>)
qed

lemma yields_command:
  assumes "plain_env E"
  shows "yields shown (ConsoleCommand E u p x)"
proof -
  have l: "yields_any (LogConsoleCommand u p x)"
    unfolding LogConsoleCommand_def by (rule yields_bind[OF yields_db(1)[OF yields_console_tx(5)]]) simp
  have "yields shown (ConsoleCommand E u p x) = (\<forall>w. mails_ok w \<longrightarrow> mails_ok (snd (ConsoleCommand E u p x w)) \<and>
     (case fst (ConsoleCommand E u p x w) of Ok a \<Rightarrow> shown a | Fail e \<Rightarrow> plain_err e | Panic \<Rightarrow> True))"
    by (simp only: yields_def)
  moreover have "mails_ok (snd (ConsoleCommand E u p x w)) \<and>
     (case fst (ConsoleCommand E u p x w) of Ok a \<Rightarrow> shown a | Fail e \<Rightarrow> plain_err e | Panic \<Rightarrow> True)" if w: "mails_ok w" for w
  proof -
    obtain r w1 where 1: "console_switch E (strings_fields x) w = (r, w1)" by fastforce
    obtain r2 w2 where 2: "LogConsoleCommand u p x w1 = (r2, w2)" by fastforce
    have a: "mails_ok w1 \<and> (case r of Ok a \<Rightarrow> shown a | Fail e \<Rightarrow> plain_err e | Panic \<Rightarrow> True)"
      using yields_switch[OF assms, of "strings_fields x", unfolded yields_def, rule_format, OF w] 1 by simp
    have b: "mails_ok w2 \<and> (case r2 of Ok a \<Rightarrow> True | Fail e \<Rightarrow> plain_err e | Panic \<Rightarrow> True)"
      using l[unfolded yields_def, rule_format, of w1] a 2 by simp
    show ?thesis unfolding ConsoleCommand_def 1 2 prod.case using a b by (cases r2) simp_all
  qed
  ultimately show ?thesis by blast
qed

lemma yields_console:
  assumes "plain_env E"
  shows "yields (proper q) (ConsoleHandler E q c)"
proof -
  have resp: "yields (proper q) (go_bind (ConsoleCommand E u p x) (\<lambda>(txt, st).
      go_ret (if st = Success then ResponsePlain (''20 text/plain'' @ crlf @ txt) else Response st txt)))" for u p x
    by (rule yields_bind[OF yields_command[OF assms]]) (auto simp: shown_def)
  show ?thesis unfolding ConsoleHandler_def
    by (intro yields_cases(1,2,4) yields_then[OF yields_session] resp) (use unescape_plain in auto)
qed


section \<open>Reports, the home page and the dispatch\<close>

lemma plain_addr: "split_host_port s = Inl e \<Longrightarrow> plain s \<Longrightarrow> plain_err e"
  by (auto simp: split_host_port_def addr_err_def Let_def split: option.splits if_splits)

lemma yields_limiter: "yields_any (limiter_Check l k)" "yields_any (limiter_Inc l k)"
proof -
  have g: "yields_any (store_Get k a b)" "yields_any (store_Inc k x)" for k a b x
    by (simp_all add: yields_def store_Get_def store_Inc_def go_simps time_now_def mails_ok_def split: prod.split)
  show "yields_any (limiter_Inc l k)" unfolding limiter_Inc_def by (intro yields_then g) simp
  show "yields_any (limiter_Check l k)" unfolding limiter_Check_def Let_def
    by (intro yields_cases(3) yields_then g yields_base) simp_all
qed

lemma yields_report:
  assumes "plain_env E" "plain (cn_remote c)"
  shows "yields (proper q) (ReportHandler E q (Some c))"
proof -
  have rm: "yields_err (report_mail E p u r c)" for p u r
    unfolding report_mail_def
    by (intro yields_cases(2) yields_mail(1) yields_base) (use assms plain_addr in \<open>auto simp: plain_env_def\<close>)
  have mail: "yields_err (SendEmailOnReport E p u r (Some c))" for p u r
  proof -
    have "yields_err (go_bind (deref (Some c)) (\<lambda>c. report_mail E p u r c))"
      by (rule yields_bind[of "\<lambda>a. a = c"]) (auto simp: deref_def rm)
    then have send: "yields_err (if limited then go_ret (Some ReportRateLimited) else go_bind (deref (Some c)) (\<lambda>c. report_mail E p u r c))" for limited
      by simp
    have lim: "yields_any (case e_report_limiter E of None \<Rightarrow> go_ret False | Some l \<Rightarrow>
        go_bind (limiter_Check l u) (\<lambda>stat. if IsLimited stat then go_ret True else go_bind (limiter_Inc l u) (\<lambda>_. go_ret False)))"
      by (intro yields_cases(1,4) yields_then yields_limiter yields_base) simp_all
    show ?thesis unfolding SendEmailOnReport_def by (intro yields_cases(4) yields_then[OF lim] send) simp
  qed
  show ?thesis
    unfolding ReportHandler_def Let_def
    by (intro yields_cases yields_then[OF yields_session] yields_res_bind yields_err_bind yields_db yields_reading mail yields_base)
       (use assms unescape_plain in \<open>auto simp: plain_env_def\<close>)
qed

text \<open>The pages of the configuration are sent as the operator wrote them.\<close>

definition page_file :: "env \<Rightarrow> bytes \<Rightarrow> bool" where
  "page_file E b \<longleftrightarrow> (\<exists>name path. map_of (c_Page (e_cfg E)) name = Some path \<and> e_read_file E path = Inr b)"

definition sent :: "env \<Rightarrow> url \<Rightarrow> response \<Rightarrow> bool" where
  "sent E q r \<longleftrightarrow> proper q r \<or> has_prefix (u_path q) ''/page/'' \<and> (\<exists>b. r = ResponsePlain b \<and> page_file E b)"

lemma yields_sent: "yields (proper q) m \<Longrightarrow> yields (sent E q) m"
  by (erule yields_weaken) (simp add: sent_def)

lemma yields_page:
  assumes "plain_env E" "has_prefix (u_path q) ''/page/''"
  shows "yields (sent E q) (PageHandler E q c)"
proof -
  have page: "yields (sent E q) (case e_read_file E path of Inl e \<Rightarrow> go_ret (ErrorResponse TemporaryFailure e) | Inr b \<Rightarrow> go_ret (ResponsePlain b))"
    if "map_of (c_Page (e_cfg E)) name = Some path" for name path
  proof (cases "e_read_file E path")
    case (Inl e)
    then show ?thesis using assms(1) by (auto simp: sent_def plain_env_def)
  next
    case (Inr b)
    then have "page_file E b" using that unfolding page_file_def by blast
    then show ?thesis using assms(2) Inr by (simp add: sent_def)
  qed
  show ?thesis unfolding PageHandler_def Let_def
  proof (rule yields_cases(4), simp add: sent_def, rule yields_cases(2))
    show "path_unescape (path_parts (u_path q) ! 1) = Inl e \<Longrightarrow> yields (sent E q) (go_ret (ErrorResponse BadRequest e))" for e
      using unescape_plain(2) by (auto simp: sent_def)
    show "yields (sent E q) (case map_of (c_Page (e_cfg E)) name of None \<Rightarrow> go_ret NotFound | Some path \<Rightarrow>
        (case e_read_file E path of Inl e \<Rightarrow> go_ret (ErrorResponse TemporaryFailure e) | Inr b \<Rightarrow> go_ret (ResponsePlain b)))" for name
      by (rule yields_cases(1), rule page) (auto simp: sent_def)
  qed
qed

lemma yields_dispatch:
  assumes "plain_env E" "plain_url q" "plain (cn_remote c)"
  shows "yields (sent E q) (dispatch E q c)"
  unfolding dispatch_def Let_def
  by (intro yields_cases(4) yields_sent[OF yields_reading_handlers(1)] yields_sent[OF yields_reading_handlers(2)]
      yields_sent[OF yields_reading_handlers(3)] yields_sent[OF yields_reading_handlers(4)] yields_sent[OF yields_Register]
      yields_sent[OF yields_accounts_handlers(1)] yields_sent[OF yields_accounts_handlers(2)] yields_sent[OF yields_accounts_handlers(3)]
      yields_sent[OF yields_console] yields_sent[OF yields_report] yields_sent[OF yields_posting_handlers(1)]
      yields_sent[OF yields_posting_handlers(2)] yields_page yields_base assms) (use assms in \<open>auto simp: sent_def\<close>)

lemma yields_handler:
  assumes "plain_env E" "plain_url q" "plain (cn_remote c)"
  shows "yields (sent E q) (handler E q c)"
  unfolding handler_def
  by (intro yields_cases(1,2,4) yields_then yields_limiter yields_dispatch assms yields_base) (simp_all add: sent_def)

text \<open>What a Gemini client reads: two digits, a space, one line, and a body only if the request succeeded.\<close>

definition well_formed :: "url \<Rightarrow> bytes \<Rightarrow> bool" where
  "well_formed q b \<longleftrightarrow> (\<exists>st m body. b = fmt_d (status_code st) @ '' '' @ m @ crlf @ body \<and> length (fmt_d (status_code st)) = 2
     \<and> plain m \<and> (body \<noteq> [] \<longrightarrow> st = Success) \<and> (st \<in> {Input, SensitiveInput} \<longrightarrow> u_query q = []))"

lemma code_digits: "length (fmt_d (status_code st)) = 2"
  by (cases st) (simp_all add: fmt_d_def fmt_base.simps)

lemma proper_well_formed:
  assumes "proper q r"
  shows "well_formed q (response_bytes r)"
proof (cases r)
  case (ResponseFormat st m ls)
  then show ?thesis using assms code_digits[of st] unfolding well_formed_def
    by (intro exI[of _ st] exI[of _ m] exI[of _ "concat (map (\<lambda>l. l @ crlf) ls)"]) auto
next
  case (ResponsePlain b)
  then obtain t where "b = ''20 text/plain'' @ crlf @ t" using assms by auto
  moreover have "fmt_d (status_code Success) = ''20''" by code_simp
  ultimately show ?thesis using ResponsePlain code_digits[of Success] unfolding well_formed_def
    by (intro exI[of _ Success] exI[of _ "''text/plain''"] exI[of _ t]) simp
qed

text \<open>Every response of the handler, whatever the database and the world hold.\<close>

lemma response_header:
  assumes "plain_env E" "mails_ok w" "plain_url q" "plain (cn_remote c)" "handler E q c w = (Ok r, w')"
  shows "well_formed q (response_bytes r) \<or> has_prefix (u_path q) ''/page/'' \<and> page_file E (response_bytes r)"
proof -
  have "sent E q r"
    using yields_handler[OF assms(1,3,4), unfolded yields_def, rule_format, OF assms(2)] assms(5) by simp
  then show ?thesis using proper_well_formed by (auto simp: sent_def)
qed

text \<open>Every request is answered.\<close>

lemma reach_answers:
  assumes "reach n (Up E w)" "n < 2 ^ 64 - 1" "request_ok q" "\<not> short_post_path q"
  shows "\<exists>r w'. handler E q c w = (Ok r, w')"
proof -
  have ok: "env_ok E" "good E (Suc n) (w_db w)" "clock_ok (w_clock w)" using reach_ok[OF assms(1,2)] by simp_all
  have "inv.safe E (Suc n) (w_db w) (handler E q c)"
    using safe_handler[OF _ assms(3) _ assms(4), of "Suc n" E] assms(2) ok(1) by (simp add: env_ok_def)
  then have "fst (handler E q c w) \<noteq> Panic" using kept_refl[OF ok(2)] ok(3) by (simp add: inv.safe_def)
  moreover have "fst (handler E q c w) \<noteq> Fail e" for e using nofail_handler by (simp add: nofail_def)
  ultimately show ?thesis by (cases "handler E q c w"; cases "fst (handler E q c w)") auto
qed

section \<open>Connections\<close>

definition parts_size :: "bytes list \<Rightarrow> nat" where
  "parts_size ps = sum_list (map (\<lambda>p. length p + 1) ps)"

lemma parts_size_simps [simp]: "parts_size [] = 0" "parts_size (p # ps) = length p + 1 + parts_size ps"
  "parts_size (ps @ qs) = parts_size ps + parts_size qs"
  by (simp_all add: parts_size_def)

lemma parts_size_butlast: "parts_size (butlast ps) \<le> parts_size ps"
  by (cases ps rule: rev_cases) simp_all

lemma parts_size_filter: "parts_size (filter P ps) \<le> parts_size ps"
  by (induction ps) auto

lemma parts_size_normalize: "parts_size (normalize_parts acc ps) \<le> parts_size acc + parts_size ps"
proof (induction acc ps rule: normalize_parts.induct)
  case (2 acc p ps)
  then show ?case using parts_size_butlast[of acc] by (auto split: if_splits)
qed simp

lemma parts_size_split: "parts_size (split_byte d s) = length s + 1"
  by (induction d s rule: split_byte.induct) (auto split: list.splits)

lemma length_join_parts: "ps \<noteq> [] \<Longrightarrow> length (join ''/'' ps) + 1 = parts_size ps"
  by (induction "''/''" ps rule: join.induct) auto

lemma length_normalize_path: "length (normalize_path p) \<le> length p + 2"
proof -
  have "parts_size (path_parts p) \<le> length p + 1"
    using parts_size_filter parts_size_split[of _ p] unfolding path_parts_split by metis
  then have "parts_size (normalize_parts [] (path_parts p)) \<le> length p + 1" using parts_size_normalize[of "[]" "path_parts p"] by simp
  then show ?thesis using length_join_parts[of "normalize_parts [] (path_parts p)"] by (auto simp: normalize_path_def Let_def)
qed

lemma plain_normalize_path: "plain p \<Longrightarrow> plain (normalize_path p)"
proof -
  assume p: "plain p"
  have "plain x" if "x \<in> set (normalize_parts [] (path_parts p))" for x
    using set_normalize_parts[of "[]" "path_parts p"] that plain_part[OF p] by auto
  then show ?thesis by (auto simp: normalize_path_def Let_def intro: plain_join)
qed

text \<open>What is relied on in \<open>url.Parse\<close>: it refuses control characters, and escaping at most triples a path.\<close>

definition url_parser :: "(bytes \<Rightarrow> url option) \<Rightarrow> bool" where
  "url_parser parse \<longleftrightarrow> (\<forall>s u. parse s = Some u \<longrightarrow> plain_url u \<and> length (u_path u) \<le> 3 * length s \<and> length (u_query u) \<le> length s)"

lemma parsed_ok:
  assumes "url_parser parse" "fscanln (ReadLimit + 3) gone input = (Some t, n)" "parse t = Some u"
  shows "plain_url (normalizeURI u)" "request_ok (normalizeURI u)"
proof -
  note u = assms(1)[unfolded url_parser_def, rule_format, OF assms(3)]
  have "length t \<le> 3 * 1027" using length_line[OF assms(2)] by (simp add: ReadLimit_def)
  then have "length (u_path u) \<le> 9243" "length (u_query u) \<le> 3081" using u by linarith+
  then show "request_ok (normalizeURI u)"
  proof -
    have n: "u_path (normalizeURI u) = normalize_path (u_path u)" "u_query (normalizeURI u) = u_query u"
      by (simp_all add: normalizeURI_def)
    assume "length (u_path u) \<le> 9243" "length (u_query u) \<le> 3081"
    then show ?thesis using length_normalize_path[of "u_path u"] unfolding request_ok_def n by linarith
  qed
  show "plain_url (normalizeURI u)" using u plain_normalize_path[of "u_path u"] unfolding plain_url_def by (simp add: normalizeURI_def)
qed


text \<open>The text for a line that is not a URL is no response: it does not end its line.\<close>

lemma improper_malformed: "\<not> well_formed q ''50 improper request''"
proof
  assume "well_formed q ''50 improper request''"
  then obtain m n where "''50 improper request'' = m @ crlf @ n" unfolding well_formed_def by (metis append.assoc)
  then have "CHR 0x0D \<in> set ''50 improper request''" by (metis crlf_def append_Cons in_set_conv_decomp)
  then show False by simp
qed

section \<open>The limit\<close>

lemma scan_ascii:
  assumes "byte c < 0x80" "\<not> is_space (byte c)"
  shows "scan_spaces (c # s) = (AtRune, c # s)" "scan_word (c # s) = (c # fst (scan_word s), snd (scan_word s))"
proof -
  have d: "decode_rune (c # s) = (byte c, 1)" using assms(1) by (rule decode_rune_ascii)
  have "byte c \<noteq> 10" using assms(2) by (auto simp: is_space_def)
  then show "scan_spaces (c # s) = (AtRune, c # s)" using assms(2) d by (subst scan_spaces.simps) simp
  show "scan_word (c # s) = (c # fst (scan_word s), snd (scan_word s))"
    using assms d by (subst scan_word.simps) (simp add: rune_bytes_def RuneError_def split: prod.split)
qed

definition visible :: "bytes \<Rightarrow> bool" where
  "visible t \<longleftrightarrow> (\<forall>c \<in> set t. byte c < 0x80 \<and> \<not> is_space (byte c))"

lemma scan_visible: "visible t \<Longrightarrow> scan_word (t @ s) = (t @ fst (scan_word s), snd (scan_word s))"
  by (induction t) (simp_all add: visible_def scan_ascii)

lemma scan_ends: "scan_word [] = ([], [])" "scan_word (CHR 0x0D # s) = ([], CHR 0x0D # s)"
  "scan_spaces [] = (AtEnd, [])" "scan_spaces [CHR 0x0D] = (AtEnd, [])" "scan_spaces (CHR 0x0D # CHR 0x0A # s) = (AtNewline, s)"
proof -
  have d: "decode_rune (CHR 0x0D # x) = (13, 1)" "decode_rune (CHR 0x0A # x) = (10, 1)" for x
    by (simp_all add: decode_rune.simps byte_def)
  have sp: "is_space 13" by (simp add: is_space_def)
  show e: "scan_spaces [] = (AtEnd, [])" "scan_word [] = ([], [])" by (simp_all add: scan_spaces.simps scan_word.simps)
  show "scan_word (CHR 0x0D # s) = ([], CHR 0x0D # s)" by (subst scan_word.simps) (simp add: d sp)
  have cr: "scan_spaces (CHR 0x0D # x) = scan_spaces x" for x by (subst scan_spaces.simps) (simp add: d sp)
  show "scan_spaces [CHR 0x0D] = (AtEnd, [])" by (simp add: cr e)
  show "scan_spaces (CHR 0x0D # CHR 0x0A # s) = (AtNewline, s)" unfolding cr by (subst scan_spaces.simps) (simp add: d)
qed

text \<open>
  C40: the limit of a request: a line of visible characters that is ended by \<open>CRLF\<close> is read as it is if it has at most 1024
  bytes, as the Gemini protocol asks for, whatever follows it, and is refused as too long if it has more.
\<close>
theorem request_limit:
  assumes "visible t" "t \<noteq> []"
  shows "if length t \<le> 1024 then fscanln (ReadLimit + 3) gone (t @ crlf @ rest) = (Some t, 1025 - length t)
    else snd (fscanln (ReadLimit + 3) gone (t @ crlf @ rest)) = 0"
proof -
  let ?s = "t @ crlf @ rest" and ?a = "take 1027 (t @ crlf @ rest)"
  obtain c t' where t: "t = c # t'" "byte c < 0x80" "\<not> is_space (byte c)" using assms by (cases t) (auto simp: visible_def)
  have len: "length crlf = 2" by (simp add: crlf_def)
  show ?thesis
  proof (cases "length t \<le> 1024")
    case True
    obtain r where r: "?a = t @ CHR 0x0D # CHR 0x0A # r"
    proof
      have "take (1027 - length t) crlf = crlf" using True len by simp
      then show "?a = t @ CHR 0x0D # CHR 0x0A # take (1025 - length t) rest" by (simp add: len) (simp add: crlf_def)
    qed
    have "scan_spaces ?a = (AtRune, ?a)" unfolding r by (simp add: t scan_ascii)
    moreover have "scan_word ?a = (t, CHR 0x0D # CHR 0x0A # r)" unfolding r by (simp add: scan_visible[OF assms(1)] scan_ends)
    moreover have "length ?a = length t + 2 + length r" unfolding r by simp
    ultimately show ?thesis using True by (simp add: fscanln_def Let_def scan_ends ReadLimit_def del: take_append length_take)
  next
    case False
    define d where "d = take (1027 - length t) crlf"
    have a: "?a = take 1027 t @ d" using False by (simp add: len d_def)
    have v: "visible (take 1027 t)" using assms(1) by (auto simp: visible_def dest: in_set_takeD)
    have c: "take 1027 t = c # take 1026 t'" by (simp add: t(1) eval_nat_numeral)
    have s1: "scan_spaces ?a = (AtRune, ?a)" unfolding a c by (simp add: t scan_ascii)
    have "1027 - length t \<in> {0, 1, 2}" using False by auto
    then have "d \<in> {[], [CHR 0x0D], crlf}" by (auto simp: d_def crlf_def eval_nat_numeral)
    then have "snd (scan_word ?a) = d" "snd (scan_spaces d) = []"
      unfolding a scan_visible[OF v] by (auto simp: scan_ends crlf_def)
    then obtain x y where s2: "scan_word ?a = (x, d)" "scan_spaces d = (y, [])" by (metis prod.collapse)
    have "length ?a = 1027" using False by (simp add: len)
    then have "snd (fscanln 1027 gone ?s) = 0"
      using s1 s2 by (cases y) (simp_all add: fscanln_def Let_def del: take_append length_take)
    then show ?thesis using False by (simp add: ReadLimit_def)
  qed
qed

section \<open>Examples\<close>

definition wire_env :: env where
  "wire_env = demo_env\<lparr>e_parse_error := \<lambda>s. ''parse error''\<rparr>"

definition wire_parse :: "bytes \<Rightarrow> url option" where
  "wire_parse s = (if s = ''gemini://localhost/login'' then Some \<lparr>u_path = ''/login'', u_query = [], u_force = False\<rparr> else None)"

lemma wire_reach: "\<exists>w. reach 1 (Up wire_env w) \<and> mails_ok w"
proof -
  have "env_ok wire_env" using demo_env_ok by (simp add: wire_env_def env_ok_def hash_ok_def)
  obtain r w where r: "dbCreateBuckets wire_env (demo_world empty_bucket) = (r, w)" by fastforce
  have i: "[] \<notin> set (GetAllSubforumIDs (e_cfg wire_env))" "sound (w_db (demo_world empty_bucket))"
    using sound_empty by (simp_all add: wire_env_def)
  have "r = Ok (Inr ())" by (rule start_schema(1)[OF i(2,1) r])
  from step.start[OF \<open>env_ok wire_env\<close> _ r[unfolded this]] have "step (Down empty_bucket) (Up wire_env w)" by simp
  from steps.more[OF steps.none this] have "reach 1 (Up wire_env w)" by simp
  have "yields_any (create_all h ks)" for h ks
    by (induction ks) (auto intro!: yields_then yields_wrap)
  then have "yields_any (dbCreateBuckets wire_env)"
    unfolding dbCreateBuckets_def by (intro yields_weaken[OF yields_db(1)] yields_then) simp_all
  moreover have "mails_ok (demo_world empty_bucket)" by (simp add: mails_ok_def demo_world_def)
  ultimately have "mails_ok w" using r unfolding yields_def by (metis snd_conv)
  then show ?thesis using \<open>reach 1 (Up wire_env w)\<close> by blast
qed


theorem request_limit_witness:
  "fscanln (ReadLimit + 3) False (''gemini://localhost/'' @ crlf @ ''more'') = (Some ''gemini://localhost/'', 1006)"
proof -
  have "visible ''gemini://localhost/''" by code_simp
  from request_limit[OF this, of False "''more''"] show ?thesis by simp
qed

end
