(* ===== verification/Spec2Isabelle.thy ===== *)
theory Spec2Isabelle imports Content Simulation Browsing Membership Mute Reporting Joining Starting Limiting Pages Shutdown Wire begin

text \<open>
  A verification of larigot, a forum served over the Gemini protocol by one Go process (\<open>src/*.go\<close>, package \<open>main\<close>).

  \<^bold>\<open>The program.\<close>  \<open>main.go\<close> reads a TOML configuration, makes the rate limiters, opens a bbolt database and a bleve
  keyword index, and starts the Gemini server, a prompt for the operator, a backup timer and the loop that feeds the index; a
  signal or \<open>quit\<close> at the prompt shuts it down.
  A request is rate limited by its address and dispatched on its path (\<open>handler.go\<close>) to one of the handlers: home page and
  pages (\<open>root.go\<close>, \<open>pages.go\<close>), subforum lists (\<open>subforumIndex.go\<close>), threads (\<open>viewthread.go\<close>), new threads and posts
  (\<open>threads.go\<close>, with the reminder of \<open>nudge.go\<close>), accounts and log in (\<open>users.go\<close>), search (\<open>search.go\<close>), reports
  (\<open>report.go\<close>) and the moderators' console (\<open>console.go\<close>).  All lasting state is in the database: nested buckets of byte
  strings, with sequence numbers as keys (\<open>itob.go\<close>).  A client is known by the fingerprint of its certificate (\<open>certfp.go\<close>).

  \<^bold>\<open>How it is modelled.\<close>  Shallowly, one definition per function or transaction, under the name of the source.  Strings and byte
  slices are lists of bytes.  A handler is a function \<open>env \<Rightarrow> url \<Rightarrow> conn \<Rightarrow> response go\<close>; \<open>'a go\<close> passes the \<open>world\<close> along and
  ends in \<open>Ok\<close>, \<open>Fail\<close> (a returned error inside a transaction) or \<open>Panic\<close>.  \<open>world\<close> is the database, the queue of the index
  channel, the limiter's counters, the mail sent, and the clock readings, random numbers, salts and mail outcomes still to come.
  \<open>env\<close> is what does not change while the server runs: the configuration, and as functions the packages that are not under
  \<open>src/\<close> or only called (bcrypt, the \<open>unicode\<close> tables beyond Latin-1, bleve's search, the resolver, \<open>sort.Sort\<close>).  What the
  theorems rely on of them are named hypotheses: \<open>hash_ok\<close> (bcrypt's hashes are 60 bytes), \<open>clock_ok\<close> (clock readings
  lie between 1970 and about the year 8300, in a zone RFC 3339 can write), \<open>request_ok\<close> (path and query have at
  most 16384 bytes, which is shown of every request the listener hands on), \<open>url_parser\<close> (\<open>url.Parse\<close> refuses control characters and
  at most triples a path) and the laws of a sort.

  \<^bold>\<open>The theories.\<close>
  \<^item> Language and libraries: \<open>Prelude\<close> (bytes, rule collections, ordered association lists), \<open>GoNum\<close>, \<open>GoText\<close>, \<open>GoTime\<close>,
    \<open>GoErr\<close> (the standard library as far as it is used), \<open>Sha256\<close> (SHA-256, base64), \<open>Gemini\<close>, \<open>Durafmt\<close>, \<open>Bolt\<close>,
    \<open>Ratelimit\<close> (the vendored packages), \<open>World\<close> (state and transactions), \<open>Env\<close>.
  \<^item> One theory per source file: \<open>Itob\<close>, \<open>Priviledge\<close>, \<open>Config\<close> (also \<open>forums.go\<close>), \<open>Database\<close>, \<open>CertFp\<close>, \<open>Email\<close>, \<open>Users\<close>,
    \<open>Nudge\<close>, \<open>SearchKey\<close>, \<open>Threads\<close>, \<open>SubforumIndex\<close>, \<open>ViewThread\<close>, \<open>Search\<close>, \<open>Report\<close>, \<open>Console\<close> (also \<open>scanln.go\<close>), \<open>Root\<close> (also
    \<open>pages.go\<close>), \<open>Handler\<close>, \<open>Startup\<close> (\<open>main.go\<close> up to the server, and the loop of \<open>scanln.go\<close>), \<open>Backup\<close>, \<open>Connection\<close> (one
    connection of the Gemini server, from the bytes read to the bytes written) and \<open>Process\<close> (the goroutines \<open>main\<close> starts, the
    channels between them, signals, \<open>OnQuit\<close> and the shutdown of \<open>Server.Run\<close>, as one step relation around the server).
  \<^item> Reasoning about effects: \<open>Effects\<close> (the locales \<open>clocked\<close> and \<open>go_invariant\<close>: an invariant survives every construct of the
    embedding), \<open>Schema\<close> (the layout of the database, and the instance \<open>inv\<close>), \<open>ThreadsDb\<close>, \<open>Moderation\<close>, \<open>Requests\<close> (every
    transaction keeps it), \<open>Reading\<close> (the reading handlers change nothing, the instance \<open>still\<close>), \<open>Views\<close> (what they return),
    \<open>Safety\<close> (which requests cannot panic), \<open>Frame\<close> (which buckets an operation writes), \<open>Counters\<close> (the locale
    \<open>world_invariant\<close>, for what lies outside the database: the clock and the limiter's counters).
  \<^item> The abstractions: \<open>System\<close> (the server as a step relation: starts, stops, crashes, requests, console lines, background
    work, backups), \<open>Forum\<close> (threads with their list of posts), \<open>Authority\<close> (who may write; the instance \<open>same\<close>), \<open>Accounts\<close> (accounts,
    codes and sessions; the instance \<open>acc\<close>), \<open>Demo\<close> (a small forum for the concrete examples).
  \<^item> The properties: this theory and the theories named below.

  \<^bold>\<open>Interfaces.\<close>  \<open>key_encoding\<close> states what a key made of a counter promises (fixed length, injective, in order); \<open>itob\<close> is an
  instance, so the cursor order of a bucket is the order of insertion.  \<open>sorter\<close> states what the code relies on in \<open>sort.Sort\<close>; the
  library's insertion sort is an instance.  \<open>go_invariant\<close> is the contract between the embedding and any invariant; its instances
  are \<open>inv\<close> (the schema), \<open>still\<close> (the very same database), \<open>same\<close> (the same forum) and \<open>acc\<close> (the same accounts).
  \<open>world_invariant\<close> is the same contract for the rest of the state; its instances in \<open>Limiting\<close> are \<open>clk\<close> (the clock goes on from where
  it was) and \<open>cnt\<close> (a counter keeps what it has counted).

  \<^bold>\<open>What is shown.\<close>
  \<^item> \<open>Simulation\<close>: the server implements an abstract forum, step by step; in any run, over restarts and crashes, a thread
    keeps its title and author and its posts are never changed or removed.
  \<^item> This theory: every reachable database has the schema; every request is answered without a panic, but for one path,
    on which the server does panic.
  \<^item> \<open>Content\<close>: what new posts, new threads and locks do to the forum, who is allowed to, and who is turned away.
  \<^item> \<open>Membership\<close> and \<open>Joining\<close>: registration, verification, log in and log out act on accounts and sessions as they should; which
    names are accepted; nobody but the owner of a certificate and of a password gets a session; and two flaws, with spaces in
    passwords and with names taken at the same time.
  \<^item> \<open>Browsing\<close> and \<open>Pages\<close>: the lists, thread pages and searches show what the forum holds and leave it alone; the index is filled
    with every post and catches up with the queue; where configured pages are served and that the links on the home page miss them.
  \<^item> \<open>Mute\<close> and \<open>Reporting\<close>: from when to when a mute holds, and where its duration overflows; the log as it is read back;
    a post is reported once, and when a report is lost.
  \<^item> \<open>Limiting\<close>: in a run of the server within one window of at most ten minutes no address gets more requests through than
    configured, the rounding of \<open>float64\<close> and the flush loop included.
  \<^item> \<open>Starting\<close>: the start of the program is the start of the step relation; it succeeds on every database a server has left;
    the configurations that are accepted, and those that end in a panic; a backup touches nothing else and holds what was
    written of the packed database, which need not be all of it.
  \<^item> \<open>Wire\<close>: every connection is answered, whatever is sent, but for the path that panics, and what is written is a well-formed response
    or the file of a page; how long a request can be.
  \<^item> \<open>Shutdown\<close>: the process ends after every call of \<open>OnQuit\<close> under a fair scheduler, with listener, database and log closed in
    this order; what it does to the database is what the step relation of the server allows; a quit before the server is made panics.

  \<^bold>\<open>Bounds.\<close>  The properties of runs are for fewer than \<open>2^64 - 1\<close> steps: a step takes at most one number from a 64-bit counter, so none wraps.
  Durations and the rate limiter's window are 64-bit and wrap as in Go.  The index loop waits forever in the program; the model's takes
  the number of turns, and the number of queued entries is shown to be enough.  No other definition needs fuel.

  \<^bold>\<open>Not modelled.\<close>  Requests are taken whole, one after the other, while each is a goroutine in the program: races between two
  transactions of different requests are outside the step relations (the one over user names is stated on the functions in \<open>Joining\<close>),
  and so are requests that pass the limiter's \<open>Check\<close> together before either is counted by \<open>Inc\<close>.  The channel to the index is a queue without
  a bound, while the program's has room for 64 entries and makes the sender wait.  The panic of \<open>time.NewTicker\<close>, which the goroutine of the
  flush loop raises, is taken to happen while \<open>main\<close> makes the store.
  Requests that are still being answered when the database is closed are taken to fail without an effect.  The pages, file and locks of bbolt
  (a commit always succeeds), bleve, SMTP, TOML, xz, TLS, sockets and \<open>url.Parse\<close> are called, not opened.  What is written to the
  operator's log is left out.  \<open>fullcopyright.go\<close> is a constant text.
\<close>

text \<open>
  C6: after any sequence of fewer than \<open>2^64 - 1\<close> starts, stops, requests, console lines and background steps from
  an empty database file, the database of the running server has the schema.
\<close>
theorem reachable_schema:
  assumes "reach n (Up E w)" "n < 2 ^ 64 - 1"
  shows "schema E (w_db w)"
  using reach_ok[OF assms] by (simp add: good_def)

theorem reachable_schema_witness:
  "schema demo_env (w_db (snd (handler demo_env demo_register demo_conn demo_up)))
   \<and> dbis (w_db (snd (handler demo_env demo_register demo_conn demo_up))) [DBUSERS, ''alice'']"
proof
  show "schema demo_env (w_db (snd (handler demo_env demo_register demo_conn demo_up)))"
    by (rule reachable_schema[OF demo_reach]) simp
  show "dbis (w_db (snd (handler demo_env demo_register demo_conn demo_up))) [DBUSERS, ''alice'']" by code_simp
qed

text \<open>
  C7: every request is answered: in every reachable state, whatever the path and query (each at most 16384
  bytes long), the handler returns a response, without a panic, unless the path is a
  \<open>/new/post/\<close> with nothing after it.
\<close>
theorem always_answered:
  assumes "reach n (Up E w)" "n < 2 ^ 64 - 1" "request_ok q" "\<not> short_post_path q"
  shows "\<exists>r w'. handler E q c w = (Ok r, w')"
  by (rule reach_answers[OF assms])

theorem always_answered_witness:
  "\<exists>r w'. handler demo_env \<lparr>u_path = ''/thread/1/'', u_query = [], u_force = False\<rparr> demo_conn
     (snd (handler demo_env demo_register demo_conn demo_up)) = (Ok r, w')"
  by (rule always_answered[OF demo_reach]) (simp_all add: request_ok_def, code_simp)

text \<open>
  C24: the exception: a logged-in user who is not muted and whose request the rate limiter lets through stops the server by asking for
  \<open>/new/post/\<close> (\<open>threads.go\<close> builds the \<open>Bad request\<close> response but does not return it, and then indexes the parts
  of the path).  The limiter reads the clock four times; the fifth reading is the time at which the user must not be muted.
\<close>
theorem short_post_panics:
  assumes "good E n (w_db w)" "e_limiter E = Some (N, W)" "split_host_port (cn_remote c) = Inr ip" "passes E ip w"
    and "writer (w_db w) c (w_clock w 4) u"
    and "u_path q = ''/new/post/''" "request_ok q" "clock_ok (w_clock w)"
  shows "fst (handler E q c w) = Panic \<and> (\<exists>b. step (Up E w) (Down b))"
proof -
  have p: "fst (handler E q c w) = Panic"
  proof -
    obtain fp where fp: "GetFingerprint (Some c) = Some fp" "session_user (w_db w) fp \<noteq> []" "\<not> session_muted (w_db w) fp (w_clock w 4)"
      using assms(5) by (auto simp: writer_def)
    obtain w1 where w1: "handler E q c w = dispatch E q c w1" "w_db w1 = w_db w" "w_clock w1 0 = w_clock w 4"
      using limiter_decides[OF assms(2,3), of w q] assms(4) by auto
    have pp: "path_parts ''/new/post/'' = [''new'', ''post'']" by code_simp
    have x: "\<not> has_prefix ''/new/post/'' ''/register/''" "\<not> has_prefix ''/new/post/'' ''/login/''"
      "\<not> has_prefix ''/new/post/'' ''/logout/''" "\<not> has_prefix ''/new/post/'' ''/console/''"
      "\<not> has_prefix ''/new/post/'' ''/verify/''" "\<not> has_prefix ''/new/post/'' ''/report/''"
      "\<not> has_prefix ''/new/post/'' ''/f/''" "\<not> has_prefix ''/new/post/'' ''/thread/''"
      "\<not> has_prefix ''/new/post/'' ''/new/thread/''" "has_prefix ''/new/post/'' ''/new/post/''" by code_simp+
    obtain st k where "GetUsernameFromFP E fp w1 =
      (Ok \<lparr>s_username = session_user (w_db w) fp, s_priv = config_priv (e_cfg E) (session_user (w_db w) fp),
           s_muted = session_muted (w_db w) fp (w_clock w 4), s_status = st\<rparr>, w1\<lparr>w_clock := k\<rparr>)"
      using GetUsernameFromFP_eq[of E w1 fp] schemaD(1)[OF goodD(1)[OF assms(1)]] unfolding w1(2,3) by metis
    then show ?thesis
      using assms(6) fp by (simp add: w1(1) dispatch_def Let_def x NewPostHandler_def pp go_bind_def go_panic_def)
  qed
  obtain w' where "handler E q c w = (Panic, w')" using p by (cases "handler E q c w") auto
  from step.crash[OF assms(7) this] p show ?thesis by blast
qed

theorem short_post_panics_witness:
  "let E = demo_env\<lparr>e_limiter := Some (3, 60000000000)\<rparr> in \<exists>b. step (Up E (demo_world demo_db)) (Down b) \<and>
     fst (handler E \<lparr>u_path = ''/new/post/'', u_query = [], u_force = False\<rparr> demo_conn (demo_world demo_db)) = Panic"
proof -
  let ?E = "demo_env\<lparr>e_limiter := Some (3, 60000000000)\<rparr>"
  have ip: "split_host_port (cn_remote demo_conn) = Inr ''127.0.0.1''" by code_simp
  have w: "writer demo_db demo_conn demo_time ''bob''" by (auto simp: writer_def demo_session)
  have l: "passes ?E ''127.0.0.1'' (demo_world demo_db)"
    by (rule passes_fresh[of _ 3 60000000000]) (simp_all add: limit_val_def demo_world_def)
  have g: "good ?E 3 demo_db" using demo_db by (simp add: good_def schema_def db_ready_def)
  show ?thesis
    using short_post_panics[of ?E 3 "demo_world demo_db" 3 60000000000 demo_conn "''127.0.0.1''" "''bob''"
        "\<lparr>u_path = ''/new/post/'', u_query = [], u_force = False\<rparr>"] g w l ip by (simp add: request_ok_def)
qed

end
